(* ===== verification/Prelude.thy ===== *)
theory Prelude
  imports Main "HOL-Library.Word"
begin

text \<open>
  What the component theories of this development share: the machine integer types of the
  server, the faults a C++ operation can end in, results that carry a fault, and the
  byte images of machine integers on the little-endian hosts the server is built for
  (\<open>reinterpret_cast<const uint8_t*>\<close> of a value, and the \<open>htobe16/32/64\<close>,
  \<open>htole16/32/64\<close>, \<open>be16/32/64toh\<close> functions of \<open>endian.h\<close>).

  Collections of rewrite rules: \<open>res_simps\<close> evaluates results, \<open>byte_simps\<close> computes byte
  images and their lengths, \<open>wf_intros\<close> holds the preservation lemmas of the components'
  invariants.
\<close>

unbundle bit_operations_syntax

named_theorems res_simps \<open>evaluation of results that may carry a fault\<close>
named_theorems byte_simps \<open>byte images of machine integers, and their lengths\<close>
named_theorems wf_intros \<open>preservation of the components' invariants\<close>

type_synonym u8 = "8 word"
type_synonym u16 = "16 word"
type_synonym u32 = "32 word"
type_synonym u64 = "64 word"

section \<open>Faults and results\<close>

text \<open>
  A C++ operation ends normally, throws, or has undefined behaviour. \<open>Thrown_pointer\<close> is
  \<open>throw new std::runtime_error(...)\<close>: it throws a pointer, which no
  \<open>catch (const std::runtime_error&)\<close> catches.
\<close>

datatype fault =
    Runtime_error string
  | Logic_error string
  | Out_of_range
  | Length_error
  | Thrown_pointer string
  | Type_error string
  | Undefined string

type_synonym 'a res = "fault + 'a"

definition bind_res :: "'a res \<Rightarrow> ('a \<Rightarrow> 'b res) \<Rightarrow> 'b res" where
  "bind_res m f = (case m of Inl e \<Rightarrow> Inl e | Inr x \<Rightarrow> f x)"

lemma bind_res_simps [simp, res_simps]:
  "bind_res (Inl e) f = Inl e"
  "bind_res (Inr x) f = f x"
  by (simp_all add: bind_res_def)

lemma bind_res_Inr_iff [res_simps]:
  "bind_res m f = Inr y \<longleftrightarrow> (\<exists>x. m = Inr x \<and> f x = Inr y)"
  by (cases m) auto

lemma bind_res_assoc: "bind_res (bind_res m f) g = bind_res m (\<lambda>x. bind_res (f x) g)"
  by (cases m) auto

lemma bind_res_cong [fundef_cong]:
  assumes "m = m'" and "\<And>x. m' = Inr x \<Longrightarrow> f x = f' x"
  shows "bind_res m f = bind_res m' f'"
  using assms by (cases m') auto

section \<open>Sizes\<close>

text \<open>\<open>std::size_t\<close> arithmetic: natural numbers below \<open>2 ^ 64\<close> with the wrap-around
  written out.\<close>

definition size_max :: nat where
  "size_max = 18446744073709551616"

definition size_add :: "nat \<Rightarrow> nat \<Rightarrow> nat" where
  "size_add a b = (a + b) mod size_max"

definition size_sub :: "nat \<Rightarrow> nat \<Rightarrow> nat" where
  "size_sub a b = (a + (size_max - b mod size_max)) mod size_max"

lemma size_add_small: "a + b < size_max \<Longrightarrow> size_add a b = a + b"
  by (simp add: size_add_def)

lemma size_sub_le: "b \<le> a \<Longrightarrow> a < size_max \<Longrightarrow> size_sub a b = a - b"
  by (simp add: size_sub_def size_max_def mod_if)

lemma size_sub_underflow:
  "a < b \<Longrightarrow> b < size_max \<Longrightarrow> size_sub a b = size_max - (b - a)"
  by (auto simp: size_sub_def size_max_def mod_if)

lemma size_sub_eq_0_iff:
  assumes "a < size_max" and "b < size_max"
  shows "size_sub a b = 0 \<longleftrightarrow> a = b"
  using assms by (auto simp: size_sub_def size_max_def mod_if split: if_splits)

section \<open>Byte images of machine integers\<close>

fun le_bytes :: "nat \<Rightarrow> 'a::len word \<Rightarrow> u8 list" where
  "le_bytes 0 w = []"
| "le_bytes (Suc n) w = ucast w # le_bytes n (drop_bit 8 w)"

fun of_le :: "u8 list \<Rightarrow> 'a::len word" where
  "of_le [] = 0"
| "of_le (b # bs) = ucast b OR push_bit 8 (of_le bs)"

lemma le_bytes_numeral [simp]:
  "le_bytes (numeral k) w = ucast w # le_bytes (pred_numeral k) (drop_bit 8 w)"
  by (simp add: numeral_eq_Suc)

lemma length_le_bytes [simp, byte_simps]: "length (le_bytes n w) = n"
  by (induction n arbitrary: w) auto

lemma of_le_le_bytes_take:
  "of_le (le_bytes n (w :: 'a::len word)) = (take_bit (8 * n) w :: 'a word)"
proof (induction n arbitrary: w)
  case 0
  then show ?case by simp
next
  case (Suc n)
  show ?case
    by (rule bit_word_eqI) (auto simp: Suc bit_simps)
qed

lemma of_le_le_bytes:
  "LENGTH('a) \<le> 8 * n \<Longrightarrow> of_le (le_bytes n (w :: 'a::len word)) = w"
  unfolding of_le_le_bytes_take by (rule bit_word_eqI) (auto simp: bit_simps)

lemma le_bytes_of_le:
  "8 * length bs \<le> LENGTH('a) \<Longrightarrow> le_bytes (length bs) (of_le bs :: 'a::len word) = bs"
proof (induction bs)
  case Nil
  then show ?case by simp
next
  case (Cons b bs)
  have "ucast (ucast b OR push_bit 8 (of_le bs) :: 'a word) = b"
    using Cons.prems by (intro bit_word_eqI) (auto simp: bit_simps)
  moreover have "drop_bit 8 (ucast b OR push_bit 8 (of_le bs) :: 'a word)
      = take_bit (LENGTH('a) - 8) (of_le bs)"
    using Cons.prems by (intro bit_word_eqI) (auto simp: bit_simps dest: bit_imp_le_length)
  moreover have "bit (of_le cs :: 'a word) k \<Longrightarrow> k < 8 * length cs" for cs k
    by (induction cs arbitrary: k) (force simp: bit_simps dest: bit_imp_le_length)+
  then have "take_bit (LENGTH('a) - 8) (of_le bs) = (of_le bs :: 'a word)"
    using Cons.prems by (intro bit_word_eqI) (force simp: bit_simps)
  ultimately show ?case using Cons by simp
qed

text \<open>The bytes of a value in host (little-endian) order.\<close>

definition host_bytes :: "'a::len word \<Rightarrow> u8 list" where
  "host_bytes w = le_bytes (LENGTH('a) div 8) w"

text \<open>\<open>htobe16/32/64\<close> and \<open>be16/32/64toh\<close> swap the bytes; \<open>htole\<close> and \<open>letoh\<close> are the
  identity on this host.\<close>

definition htobe :: "'a::len word \<Rightarrow> 'a word" where
  "htobe w = of_le (rev (host_bytes w))"

abbreviation betoh :: "'a::len word \<Rightarrow> 'a word" where
  "betoh \<equiv> htobe"

lemma length_host_bytes [simp, byte_simps]:
  "length (host_bytes (w :: 'a::len word)) = LENGTH('a) div 8"
  by (simp add: host_bytes_def)

lemma host_bytes_of_le:
  "8 * length bs = LENGTH('a) \<Longrightarrow> host_bytes (of_le bs :: 'a::len word) = bs"
  using le_bytes_of_le [where ?'a = 'a, of bs] by (simp add: host_bytes_def) (metis nonzero_mult_div_cancel_left zero_neq_numeral)

lemma of_le_host_bytes:
  "8 dvd LENGTH('a) \<Longrightarrow> of_le (host_bytes w) = (w :: 'a::len word)"
  by (simp add: host_bytes_def of_le_le_bytes)

lemma host_bytes_htobe [byte_simps]:
  "8 dvd LENGTH('a) \<Longrightarrow> host_bytes (htobe (w :: 'a::len word)) = rev (host_bytes w)"
  unfolding htobe_def by (rule host_bytes_of_le) simp

lemma htobe_htobe [simp]:
  "8 dvd LENGTH('a) \<Longrightarrow> htobe (htobe (w :: 'a::len word)) = w"
  unfolding htobe_def [of "htobe w"] by (simp add: host_bytes_htobe of_le_host_bytes)

lemma htobe_u8 [simp]: "htobe (w :: u8) = w"
  by (simp add: htobe_def host_bytes_def)

text \<open>Big-endian images, as the network formats of the server use them.\<close>

definition be_bytes :: "'a::len word \<Rightarrow> u8 list" where
  "be_bytes w = rev (host_bytes w)"

definition of_be :: "u8 list \<Rightarrow> 'a::len word" where
  "of_be bs = of_le (rev bs)"

lemma length_be_bytes [simp, byte_simps]:
  "length (be_bytes (w :: 'a::len word)) = LENGTH('a) div 8"
  by (simp add: be_bytes_def)

lemma of_be_be_bytes [simp]:
  "8 dvd LENGTH('a) \<Longrightarrow> of_be (be_bytes w) = (w :: 'a::len word)"
  by (simp add: of_be_def be_bytes_def of_le_host_bytes)

lemma be_bytes_of_be:
  "8 * length bs = LENGTH('a) \<Longrightarrow> be_bytes (of_be bs :: 'a::len word) = bs"
  by (simp add: of_be_def be_bytes_def host_bytes_of_le)

lemma betoh_of_le:
  "8 * length bs = LENGTH('a) \<Longrightarrow> betoh (of_le bs :: 'a::len word) = of_be bs"
  by (simp add: htobe_def of_be_def host_bytes_of_le)

text \<open>Strings are byte strings (\<open>std::string\<close>); literals are ASCII.\<close>

type_synonym cstring = "u8 list"

definition ascii :: "string \<Rightarrow> cstring" where
  "ascii s = map of_char s"

lemma length_ascii [simp]: "length (ascii s) = length s"
  by (simp add: ascii_def)

lemma unat_ucast_widen [simp]:
  "LENGTH('a) \<le> LENGTH('b) \<Longrightarrow> unat (ucast (w :: 'a::len word) :: 'b::len word) = unat w"
proof -
  assume le: "LENGTH('a) \<le> LENGTH('b)"
  have "unat w < 2 ^ LENGTH('a)" by (rule unsigned_less)
  also have "\<dots> \<le> 2 ^ LENGTH('b)" using le by simp
  finally show ?thesis by (simp add: unsigned_ucast_eq take_bit_nat_eq_self)
qed

text \<open>\<open>std::to_string\<close> of an unsigned value.\<close>

fun to_string :: "nat \<Rightarrow> string" where
  "to_string n = (if n < 10 then [char_of (48 + n)] else to_string (n div 10) @ [char_of (48 + n mod 10)])"

declare to_string.simps [simp del]

end
