(* ===== verification/Buffer.thy ===== *)
theory Buffer
  imports Prelude
begin

text \<open>
  \<open>openrs::common::io::Buffer\<close> (\<open>common/include/openrs/common/io/buffer.h\<close>): a byte vector
  with a read position. Reads hand out pointers into the vector; the callers dereference
  them before the buffer changes, so a read here returns the bytes. A read either succeeds,
  or returns \<open>false\<close> and leaves the buffer alone, or throws \<open>std::out_of_range\<close> (from
  \<open>at\<close>, when the position has wrapped around). Writes append at the end of the vector and
  always return \<open>true\<close>, so the model returns the new buffer only.
\<close>

record buffer =
  bytes :: "u8 list"
  position :: nat

definition empty_buffer :: buffer where
  "empty_buffer = \<lparr>bytes = [], position = 0\<rparr>"

definition buf_of :: "u8 list \<Rightarrow> buffer" where
  "buf_of bs = \<lparr>bytes = bs, position = 0\<rparr>"

abbreviation buf_size :: "buffer \<Rightarrow> nat" where
  "buf_size b \<equiv> length (bytes b)"

text \<open>The class invariant: the position is inside the vector, whose size is a \<open>size_t\<close>.\<close>

definition buf_ok :: "buffer \<Rightarrow> bool" where
  "buf_ok b \<longleftrightarrow> position b \<le> buf_size b \<and> buf_size b + 64 < size_max"

definition remaining :: "buffer \<Rightarrow> nat" where
  "remaining b = size_sub (buf_size b) (position b)"

text \<open>The bytes a reader has still to see.\<close>

definition unread :: "buffer \<Rightarrow> u8 list" where
  "unread b = drop (position b) (bytes b)"

section \<open>Reading\<close>

text \<open>
  \<open>GetData<Type>\<close> with \<open>n = sizeof(Type)\<close>. When \<open>position_ + n\<close> wraps around and the sum
  is not above \<open>size()\<close>, \<open>at(position_)\<close> throws.
\<close>

definition get_data :: "nat \<Rightarrow> buffer \<Rightarrow> (u8 list \<times> buffer) option res" where
  "get_data n b =
     (if buf_size b < size_add (position b) n then Inr None
      else if position b + n < size_max
      then Inr (Some (take n (drop (position b) (bytes b)), b\<lparr>position := position b + n\<rparr>))
      else Inl Out_of_range)"

text \<open>\<open>if (!buffer.GetData(&p)) { no } yes\<close>\<close>

definition if_get :: "nat \<Rightarrow> buffer \<Rightarrow> 'r res \<Rightarrow> (u8 list \<Rightarrow> buffer \<Rightarrow> 'r res) \<Rightarrow> 'r res" where
  "if_get n b no yes =
     (case get_data n b of Inl e \<Rightarrow> Inl e | Inr None \<Rightarrow> no | Inr (Some (bs, b')) \<Rightarrow> yes bs b')"

definition if_get_u8 :: "buffer \<Rightarrow> 'r res \<Rightarrow> (u8 \<Rightarrow> buffer \<Rightarrow> 'r res) \<Rightarrow> 'r res" where
  "if_get_u8 b no yes = if_get 1 b no (\<lambda>bs. yes (of_le bs))"

definition if_get_u16 :: "buffer \<Rightarrow> 'r res \<Rightarrow> (u16 \<Rightarrow> buffer \<Rightarrow> 'r res) \<Rightarrow> 'r res" where
  "if_get_u16 b no yes = if_get 2 b no (\<lambda>bs. yes (of_le bs))"

definition if_get_u32 :: "buffer \<Rightarrow> 'r res \<Rightarrow> (u32 \<Rightarrow> buffer \<Rightarrow> 'r res) \<Rightarrow> 'r res" where
  "if_get_u32 b no yes = if_get 4 b no (\<lambda>bs. yes (of_le bs))"

definition if_get_u64 :: "buffer \<Rightarrow> 'r res \<Rightarrow> (u64 \<Rightarrow> buffer \<Rightarrow> 'r res) \<Rightarrow> 'r res" where
  "if_get_u64 b no yes = if_get 8 b no (\<lambda>bs. yes (of_le bs))"

lemmas if_get_defs = if_get_u8_def if_get_u16_def if_get_u32_def if_get_u64_def

lemma if_get_cong [fundef_cong]:
  assumes "n = n'" and "b = b'" and "no = no'"
    and "\<And>bs c. get_data n' b' = Inr (Some (bs, c)) \<Longrightarrow> yes bs c = yes' bs c"
  shows "if_get n b no yes = if_get n' b' no' yes'"
  using assms by (auto simp: if_get_def split: sum.splits option.splits)

lemma get_data_SomeD:
  "get_data n b = Inr (Some (bs, c)) \<Longrightarrow>
     position b + n \<le> buf_size b \<and> bs = take n (unread b) \<and> c = b\<lparr>position := position b + n\<rparr>"
  by (auto simp: get_data_def unread_def size_add_small split: if_splits)

text \<open>In terms of the unread bytes, for a buffer that satisfies the invariant.\<close>

lemma length_unread: "length (unread b) = buf_size b - position b"
  by (simp add: unread_def)

lemma get_data_unread:
  assumes "buf_ok b" and "n \<le> 64"
  shows "get_data n b =
    (if n \<le> length (unread b)
     then Inr (Some (take n (unread b), b\<lparr>position := position b + n\<rparr>)) else Inr None)"
  using assms by (auto simp: get_data_def buf_ok_def unread_def size_add_small)

lemma get_data_never_faults: "buf_ok b \<Longrightarrow> n \<le> 64 \<Longrightarrow> get_data n b \<noteq> Inl e"
  by (simp add: get_data_unread)

lemma buf_ok_advance [wf_intros]:
  "buf_ok b \<Longrightarrow> position b + n \<le> buf_size b \<Longrightarrow> buf_ok (b\<lparr>position := position b + n\<rparr>)"
  by (simp add: buf_ok_def)

lemma get_data_buf_ok [wf_intros]: "buf_ok b \<Longrightarrow> get_data n b = Inr (Some (bs, c)) \<Longrightarrow> buf_ok c"
  by (drule get_data_SomeD) (simp add: buf_ok_def)

lemma unread_advance: "unread (b\<lparr>position := position b + n\<rparr>) = drop n (unread b)"
  by (simp add: unread_def add.commute)

lemma remaining_unread: "buf_ok b \<Longrightarrow> remaining b = length (unread b)"
  by (simp add: remaining_def unread_def buf_ok_def size_sub_le)

lemma if_get_unread:
  assumes "buf_ok b" and "n \<le> 64"
  shows "if_get n b no yes =
    (if n \<le> length (unread b) then yes (take n (unread b)) (b\<lparr>position := position b + n\<rparr>)
     else no)"
  using assms by (simp add: if_get_def get_data_unread)

text \<open>\<open>GetTriByte\<close>: the three bytes in big-endian order.\<close>

definition get_tri_byte :: "buffer \<Rightarrow> (u32 \<times> buffer) option res" where
  "get_tri_byte b =
     if_get 3 b (Inr None)
       (\<lambda>t b'. Inr (Some (push_bit 16 (ucast (t ! 0)) + push_bit 8 (ucast (t ! 1)) + ucast (t ! 2), b')))"

text \<open>
  \<open>GetString(char**)\<close>: advances to the first newline or NUL. The loop stops because every
  successful read advances the position.
\<close>

function get_cstr_loop :: "u8 \<Rightarrow> buffer \<Rightarrow> (bool \<times> buffer) res" where
  "get_cstr_loop c b =
     (if c \<noteq> 10 \<and> c \<noteq> 0
      then if_get 1 b (Inr (False, b)) (\<lambda>bs b'. get_cstr_loop (of_le bs) b')
      else Inr (True, b))"
  by pat_completeness auto
termination
  by (relation "measure (\<lambda>(c, b). buf_size b - position b)") (auto dest!: get_data_SomeD)

declare get_cstr_loop.simps [simp del]

text \<open>
  \<open>GetString(std::string*)\<close>: \<open>output->assign(c_str)\<close> copies from the start of the string up
  to the first NUL, wherever the scan above has stopped; with no NUL in the rest of the
  vector it reads past its end. A failed scan leaves the position at the end.
\<close>

definition get_string :: "buffer \<Rightarrow> (bool \<times> cstring \<times> buffer) res" where
  "get_string b =
     if_get_u8 b (Inr (False, [], b)) (\<lambda>c b1.
       bind_res (get_cstr_loop c b1) (\<lambda>(ok, b2).
         if \<not> ok then Inr (False, [], b2)
         else if 0 \<in> set (unread b) then Inr (True, takeWhile (\<lambda>c. c \<noteq> 0) (unread b), b2)
         else Inl (Undefined ''strlen past the end of the buffer'')))"

section \<open>Writing\<close>

definition put_bytes :: "u8 list \<Rightarrow> buffer \<Rightarrow> buffer" where
  "put_bytes bs b = b\<lparr>bytes := bytes b @ bs\<rparr>"

definition put_data :: "'a::len word \<Rightarrow> buffer \<Rightarrow> buffer" where
  "put_data w b = put_bytes (host_bytes w) b"

text \<open>\<open>PutDataBE\<close> and \<open>PutDataLE\<close> switch on \<open>sizeof(Type)\<close>; \<open>htole\<close> is the identity here.\<close>

definition put_data_be :: "'a::len word \<Rightarrow> buffer \<Rightarrow> buffer" where
  "put_data_be w b =
     put_data (if LENGTH('a) \<in> {16, 32, 64} then htobe w else w) b"

definition put_data_le :: "'a::len word \<Rightarrow> buffer \<Rightarrow> buffer" where
  "put_data_le w b = put_data w b"

definition put_string :: "cstring \<Rightarrow> buffer \<Rightarrow> buffer" where
  "put_string s b = put_data (0 :: u8) (fold (\<lambda>c. put_data c) s b)"

text \<open>
  \<open>PutString(char*)\<close> never advances \<open>index\<close>: unless the first character ends the string the
  loop appends it forever.
\<close>

partial_function (option) put_cstr_loop :: "u8 \<Rightarrow> buffer \<Rightarrow> buffer option" where
  "put_cstr_loop index b =
     (if index \<noteq> 10 \<and> index \<noteq> 0 then put_cstr_loop index (put_data index b) else Some b)"

definition put_cstr :: "cstring \<Rightarrow> buffer \<Rightarrow> buffer option" where
  "put_cstr input b =
     (case input of [] \<Rightarrow> None
      | index # _ \<Rightarrow> map_option (put_data (0 :: u8)) (put_cstr_loop index b))"

text \<open>It returns only when the first character is the terminator or a line feed.\<close>

lemma put_cstr_loop_stops: "put_cstr_loop index b = Some c \<Longrightarrow> index = 10 \<or> index = 0"
  by (erule put_cstr_loop.raw_induct [where P = "\<lambda>index b c. index = 10 \<or> index = 0", rotated])
    (fastforce split: if_splits)

lemma put_cstr_returns_iff: "put_cstr input b \<noteq> None \<longleftrightarrow> input \<noteq> [] \<and> hd input \<in> {0, 10}"
proof (cases input)
  case (Cons c cs)
  show ?thesis
  proof (cases "c \<in> {0, 10}")
    case False
    then have "put_cstr_loop c b = None" using put_cstr_loop_stops [of c b] by (cases "put_cstr_loop c b") auto
    then show ?thesis using Cons False by (simp add: put_cstr_def)
  qed (use Cons put_cstr_loop.simps [of c b] in \<open>auto simp: put_cstr_def\<close>)
qed (simp add: put_cstr_def)

definition put_smart_be :: "'a::len word \<Rightarrow> buffer \<Rightarrow> buffer" where
  "put_smart_be v b =
     (if 127 \<le> v then put_data_be (v + 32768) b else put_data_be (ucast v :: u8) b)"

definition shift_negative :: "'a::len word \<Rightarrow> u8 \<Rightarrow> 'a word" where
  "shift_negative v k = (v AND NOT 255) + (ucast k - (v AND 255))"

definition shift_positive :: "'a::len word \<Rightarrow> u8 \<Rightarrow> 'a word" where
  "shift_positive v k = (v AND NOT 255) + ucast (k + ucast (v AND 255) :: u8)"

text \<open>The shifted writes, at the default shift 128 every caller uses.\<close>

definition put_shifted_neg_be :: "'a::len word \<Rightarrow> buffer \<Rightarrow> buffer" where
  "put_shifted_neg_be v = put_data_be (shift_negative v 128)"

definition put_shifted_neg_le :: "'a::len word \<Rightarrow> buffer \<Rightarrow> buffer" where
  "put_shifted_neg_le v = put_data_le (shift_negative v 128)"

definition put_shifted_pos_be :: "'a::len word \<Rightarrow> buffer \<Rightarrow> buffer" where
  "put_shifted_pos_be v = put_data_be (shift_positive v 128)"

definition put_shifted_pos_le :: "'a::len word \<Rightarrow> buffer \<Rightarrow> buffer" where
  "put_shifted_pos_le v = put_data_le (shift_positive v 128)"

text \<open>\<open>PutDataVBE\<close> and \<open>PutDataVLE\<close> (the 'middle-endian' orders of the client protocol).\<close>

definition put_data_vbe :: "'a::len word \<Rightarrow> buffer \<Rightarrow> buffer" where
  "put_data_vbe v b =
     (let p = host_bytes v
      in fold (\<lambda>i b. put_data (p ! (2 * i)) (put_data (p ! (2 * i + 1)) b))
           [0..<LENGTH('a) div 8 div 2] b)"

definition put_data_vle :: "'a::len word \<Rightarrow> buffer \<Rightarrow> buffer" where
  "put_data_vle v b =
     (let p = host_bytes v
      in fold (\<lambda>i b. put_data (p ! (2 * i + 1)) (put_data (p ! (2 * i)) b))
           (rev [0..<LENGTH('a) div 8 div 2]) b)"

text \<open>The bit sets. The first loop fills the byte vector, the second writes it out.\<close>

definition bitset_bytes_le :: "bool list \<Rightarrow> u8 list" where
  "bitset_bytes_le bits =
     (let n = (length bits + 7) div 8
      in fold (\<lambda>i bs. if bits ! i
                 then bs[n - i div 8 - 1 := bs ! (n - i div 8 - 1) OR push_bit (i mod 8) 1] else bs)
           [0..<length bits] (replicate n 0))"

definition bitset_bytes_be :: "bool list \<Rightarrow> u8 list" where
  "bitset_bytes_be bits =
     fold (\<lambda>i bs. if bits ! i then bs[i div 8 := bs ! (i div 8) OR push_bit (7 - i mod 8) 1] else bs)
       [0..<length bits] (replicate ((length bits + 7) div 8) 0)"

definition put_bitset_le :: "bool list \<Rightarrow> buffer \<Rightarrow> buffer" where
  "put_bitset_le bits b = fold (\<lambda>x. put_data x) (bitset_bytes_le bits) b"

definition put_bitset_be :: "bool list \<Rightarrow> buffer \<Rightarrow> buffer" where
  "put_bitset_be bits b = fold (\<lambda>x. put_data x) (bitset_bytes_be bits) b"

section \<open>Positioning\<close>

datatype seek_dir = Seek_set | Seek_cur | Seek_end

fun seek :: "seek_dir \<Rightarrow> nat \<Rightarrow> buffer \<Rightarrow> buffer" where
  "seek Seek_set off b = b\<lparr>position := off\<rparr>"
| "seek Seek_end off b = b\<lparr>position := size_sub (buf_size b) off\<rparr>"
| "seek Seek_cur off b = b\<lparr>position := size_add (position b) off\<rparr>"

definition clear_old_data :: "buffer \<Rightarrow> buffer res" where
  "clear_old_data b =
     (if position b \<le> buf_size b then Inr \<lparr>bytes = drop (position b) (bytes b), position = 0\<rparr>
      else Inl (Undefined ''erase past the end of the buffer''))"

definition clear_buffer :: "buffer \<Rightarrow> buffer" where
  "clear_buffer b = b\<lparr>bytes := [], position := 0\<rparr>"


section \<open>What the writes append\<close>

lemma put_bytes_sel [simp]:
  "bytes (put_bytes bs b) = bytes b @ bs"
  "position (put_bytes bs b) = position b"
  by (simp_all add: put_bytes_def)

lemma put_bytes_put_bytes [simp]: "put_bytes ys (put_bytes xs b) = put_bytes (xs @ ys) b"
  by (simp add: put_bytes_def)

lemma host_bytes_u8 [simp]: "host_bytes (w :: u8) = [w]"
  by (simp add: host_bytes_def)

lemma be_bytes_u8 [simp]: "be_bytes (w :: u8) = [w]"
  by (simp add: be_bytes_def)

lemma put_data_u8 [simp, byte_simps]: "put_data (w :: u8) = put_bytes [w]"
  by (simp add: put_data_def fun_eq_iff)

lemma put_data_u32 [byte_simps]: "put_data (w :: u32) = put_bytes (host_bytes w)"
  by (simp add: put_data_def fun_eq_iff)

lemma put_data_be_u8 [simp, byte_simps]: "put_data_be (w :: u8) = put_bytes [w]"
  by (simp add: put_data_be_def fun_eq_iff)

lemma put_data_be_u16 [byte_simps]: "put_data_be (w :: u16) = put_bytes (be_bytes w)"
  by (simp add: put_data_be_def put_data_def be_bytes_def host_bytes_htobe fun_eq_iff)

lemma put_data_be_u32 [byte_simps]: "put_data_be (w :: u32) = put_bytes (be_bytes w)"
  by (simp add: put_data_be_def put_data_def be_bytes_def host_bytes_htobe fun_eq_iff)

lemma put_data_be_u64 [byte_simps]: "put_data_be (w :: u64) = put_bytes (be_bytes w)"
  by (simp add: put_data_be_def put_data_def be_bytes_def host_bytes_htobe fun_eq_iff)

lemma put_data_le_put_bytes [byte_simps]: "put_data_le w = put_bytes (host_bytes w)"
  by (simp add: put_data_le_def put_data_def fun_eq_iff)

lemma fold_put_bytes: "fold (\<lambda>x. put_bytes [x]) xs b = put_bytes xs b"
  by (induction xs arbitrary: b) (simp_all add: put_bytes_def)

lemma put_string_put_bytes [byte_simps]: "put_string s = put_bytes (s @ [0])"
  by (simp add: put_string_def fold_put_bytes fun_eq_iff)

lemma shift_u8:
  "shift_negative (w :: u8) k = k - w"
  "shift_positive (w :: u8) k = k + w"
proof -
  have m: "(255 :: u8) = - 1" "(- 256 :: u8) = 0"
    by (simp_all add: word_eq_iff_unsigned)
  have [simp]: "w AND 255 = w" "w AND - 256 = 0"
    unfolding m by simp_all
  show "shift_negative w k = k - w" "shift_positive w k = k + w"
    by (simp_all add: shift_negative_def shift_positive_def)
qed

lemma put_shifted_u8 [simp, byte_simps]:
  "put_shifted_neg_be (w :: u8) = put_bytes [128 - w]"
  "put_shifted_pos_be (w :: u8) = put_bytes [128 + w]"
  "put_shifted_neg_le (w :: u8) = put_bytes [128 - w]"
  "put_shifted_pos_le (w :: u8) = put_bytes [128 + w]"
  by (simp_all add: put_shifted_neg_be_def put_shifted_pos_be_def put_shifted_neg_le_def
      put_shifted_pos_le_def put_data_le_def shift_u8 fun_eq_iff)

lemma put_shifted_pos_be_u16 [byte_simps]:
  "put_shifted_pos_be (w :: u16) = put_bytes (be_bytes (shift_positive w 128))"
  by (simp add: put_shifted_pos_be_def put_data_be_u16)

lemma put_shifted_pos_be_u32 [byte_simps]:
  "put_shifted_pos_be (w :: u32) = put_bytes (be_bytes (shift_positive w 128))"
  by (simp add: put_shifted_pos_be_def put_data_be_u32)

lemma put_shifted_pos_le_u16 [byte_simps]:
  "put_shifted_pos_le (w :: u16) = put_bytes (host_bytes (shift_positive w 128))"
  by (simp add: put_shifted_pos_le_def put_data_le_put_bytes)

lemma put_data_vbe_u32 [byte_simps]:
  "put_data_vbe (w :: u32) =
     put_bytes [host_bytes w ! 1, host_bytes w ! 0, host_bytes w ! 3, host_bytes w ! 2]"
  by (simp add: put_data_vbe_def upt_rec Let_def fun_eq_iff put_bytes_def)

lemma put_data_vle_u32 [byte_simps]:
  "put_data_vle (w :: u32) =
     put_bytes [host_bytes w ! 2, host_bytes w ! 3, host_bytes w ! 0, host_bytes w ! 1]"
  by (simp add: put_data_vle_def upt_rec Let_def fun_eq_iff put_bytes_def)

lemma put_bitset_put_bytes [byte_simps]:
  "put_bitset_be bits = put_bytes (bitset_bytes_be bits)"
  "put_bitset_le bits = put_bytes (bitset_bytes_le bits)"
  by (simp_all add: put_bitset_be_def put_bitset_le_def fold_put_bytes fun_eq_iff)


section \<open>Scanning strings\<close>

lemma get_cstr_loop_stop: "c = 10 \<or> c = 0 \<Longrightarrow> get_cstr_loop c b = Inr (True, b)"
  by (subst get_cstr_loop.simps) auto

lemma get_cstr_loop_go:
  assumes "c \<noteq> 10" "c \<noteq> 0" "buf_ok b"
  shows "get_cstr_loop c b =
    (case unread b of [] \<Rightarrow> Inr (False, b)
     | d # _ \<Rightarrow> get_cstr_loop d (b\<lparr>position := position b + 1\<rparr>))"
  using assms
  by (subst get_cstr_loop.simps) (simp add: if_get_unread split: list.split)

text \<open>The scan stops right after the first terminator, or fails at the end of the vector.\<close>

lemma get_cstr_loop_found:
  assumes "buf_ok b" and "c # unread b = s @ z # rest"
    and "set s \<inter> {0, 10} = {}" and "z \<in> {0, 10}"
  shows "get_cstr_loop c b = Inr (True, b\<lparr>position := position b + length s\<rparr>)"
  using assms
proof (induction s arbitrary: c b)
  case Nil
  then show ?case by (auto simp: get_cstr_loop_stop)
next
  case (Cons d s)
  then have d: "d = c" "c \<noteq> 10" "c \<noteq> 0" and u: "unread b = s @ z # rest" by auto
  then obtain e es where e: "unread b = e # es" by (cases s) auto
  have "position b + 1 \<le> buf_size b"
    using e length_unread [of b] Cons.prems(1) by (simp add: buf_ok_def)
  then have ok: "buf_ok (b\<lparr>position := position b + 1\<rparr>)"
    using Cons.prems(1) by (rule buf_ok_advance [rotated])
  have "unread (b\<lparr>position := position b + 1\<rparr>) = es"
    using unread_advance [of b 1] e by simp
  then have "get_cstr_loop e (b\<lparr>position := position b + 1\<rparr>)
      = Inr (True, b\<lparr>position := position b + 1 + length s\<rparr>)"
    using Cons.IH [OF ok, of e] Cons.prems u e by simp
  then show ?case using d e Cons.prems(1) by (simp add: get_cstr_loop_go)
qed

lemma get_cstr_loop_not_found:
  assumes "buf_ok b" and "unread b = xs" and "set (c # xs) \<inter> {0, 10} = {}"
  shows "get_cstr_loop c b = Inr (False, b\<lparr>position := buf_size b\<rparr>)"
  using assms
proof (induction xs arbitrary: c b)
  case Nil
  then have "position b = buf_size b"
    using length_unread [of b] by (simp add: buf_ok_def)
  then have "b\<lparr>position := buf_size b\<rparr> = b" by simp
  with Nil show ?case by (simp add: get_cstr_loop_go)
next
  case (Cons e es)
  then have pos: "position b + 1 \<le> buf_size b"
    using length_unread [of b] by (cases "buf_size b - position b") auto
  have ok: "buf_ok (b\<lparr>position := position b + 1\<rparr>)"
    using Cons.prems(1) pos by (rule buf_ok_advance)
  have un: "unread (b\<lparr>position := position b + 1\<rparr>) = es"
    using unread_advance [of b 1] Cons.prems(2) by simp
  have "get_cstr_loop e (b\<lparr>position := position b + 1\<rparr>) = Inr (False, b\<lparr>position := buf_size b\<rparr>)"
    using Cons.IH [OF ok un, of e] Cons.prems(3) by simp
  then show ?case using Cons.prems by (simp add: get_cstr_loop_go)
qed

lemma get_string_found:
  assumes ok: "buf_ok b" and un: "unread b = s @ z # rest"
    and s: "set s \<inter> {0, 10} = {}" and z: "z \<in> {0, 10}"
  shows "get_string b =
    (if 0 \<in> set (z # rest)
     then Inr (True, s @ takeWhile (\<lambda>c. c \<noteq> 0) (z # rest), b\<lparr>position := position b + length s + 1\<rparr>)
     else Inl (Undefined ''strlen past the end of the buffer''))"
proof -
  obtain c cs where c: "unread b = c # cs" using un by (cases s) auto
  have pos: "position b + 1 \<le> buf_size b"
    using c length_unread [of b] by (cases "buf_size b - position b") auto
  have ok1: "buf_ok (b\<lparr>position := position b + 1\<rparr>)"
    using ok pos by (rule buf_ok_advance)
  have "unread (b\<lparr>position := position b + 1\<rparr>) = cs"
    using unread_advance [of b 1] c by simp
  then have loop: "get_cstr_loop c (b\<lparr>position := position b + 1\<rparr>)
      = Inr (True, b\<lparr>position := position b + 1 + length s\<rparr>)"
    using get_cstr_loop_found [OF ok1, of c s z rest] un c s z by simp
  have "c \<noteq> 0" if "c \<in> set s" for c using s that by auto
  then have "takeWhile (\<lambda>c. c \<noteq> 0) (unread b) = s @ takeWhile (\<lambda>c. c \<noteq> 0) (z # rest)"
    unfolding un by (intro takeWhile_append2)
  moreover have "0 \<in> set (unread b) \<longleftrightarrow> 0 \<in> set (z # rest)"
    using un s by auto
  ultimately show ?thesis
    using loop c ok by (simp add: get_string_def if_get_u8_def if_get_unread)
qed

lemma get_string_unterminated:
  assumes ok: "buf_ok b" and un: "set (unread b) \<inter> {0, 10} = {}"
  shows "get_string b = Inr (False, [], b\<lparr>position := buf_size b\<rparr>)"
proof (cases "unread b")
  case Nil
  then have "position b = buf_size b" using length_unread [of b] ok by (simp add: buf_ok_def)
  with Nil ok show ?thesis by (simp add: get_string_def if_get_u8_def if_get_unread)
next
  case (Cons c cs)
  have pos: "position b + 1 \<le> buf_size b"
    using Cons length_unread [of b] by (cases "buf_size b - position b") auto
  have ok1: "buf_ok (b\<lparr>position := position b + 1\<rparr>)"
    using ok pos by (rule buf_ok_advance)
  have "unread (b\<lparr>position := position b + 1\<rparr>) = cs"
    using unread_advance [of b 1] Cons by simp
  then show ?thesis
    using get_cstr_loop_not_found [OF ok1, of cs c] un Cons ok
    by (simp add: get_string_def if_get_u8_def if_get_unread)
qed


section \<open>Reading at a known point\<close>

text \<open>A reader that stands before the bytes \<open>xs\<close>, and its state after it has read \<open>n\<close> of them.\<close>

definition at_bytes :: "buffer \<Rightarrow> u8 list \<Rightarrow> bool" where
  "at_bytes b xs \<longleftrightarrow> buf_ok b \<and> unread b = xs"

definition advance :: "nat \<Rightarrow> buffer \<Rightarrow> buffer" where
  "advance n b = b\<lparr>position := position b + n\<rparr>"

lemma advance_sel [simp]: "bytes (advance n b) = bytes b" "position (advance n b) = position b + n"
  by (simp_all add: advance_def)

lemma advance_advance [simp]: "advance n (advance m b) = advance (m + n) b"
  by (simp add: advance_def add.assoc)

lemma at_bytes_advance:
  "at_bytes b (xs @ rest) \<Longrightarrow> n = length xs \<Longrightarrow> at_bytes (advance n b) rest"
  using length_unread [of b]
  by (auto simp: at_bytes_def advance_def unread_advance buf_ok_def)

lemma at_bytes_buf_of: "length bs + 64 < size_max \<Longrightarrow> at_bytes (buf_of bs) bs"
  by (simp add: at_bytes_def buf_ok_def buf_of_def unread_def)

lemma if_get_at:
  "at_bytes b (xs @ rest) \<Longrightarrow> n = length xs \<Longrightarrow> n \<le> 64 \<Longrightarrow> if_get n b no yes = yes xs (advance n b)"
  by (simp add: at_bytes_def if_get_unread advance_def)

lemma if_get_short: "at_bytes b xs \<Longrightarrow> length xs < n \<Longrightarrow> n \<le> 64 \<Longrightarrow> if_get n b no yes = no"
  by (auto simp: at_bytes_def if_get_unread)

lemma if_get_u8_at: "at_bytes b (w # rest) \<Longrightarrow> if_get_u8 b no yes = yes w (advance 1 b)"
  by (simp add: if_get_u8_def if_get_at [where xs = "[w]"])

lemma if_get_u16_at:
  "at_bytes b (be_bytes w @ rest) \<Longrightarrow> if_get_u16 b no yes = yes (htobe w) (advance 2 b)"
  by (simp add: if_get_u16_def if_get_at [where xs = "be_bytes w"] htobe_def) (simp add: be_bytes_def)

lemma if_get_u32_at:
  "at_bytes b (be_bytes w @ rest) \<Longrightarrow> if_get_u32 b no yes = yes (htobe w) (advance 4 b)"
  by (simp add: if_get_u32_def if_get_at [where xs = "be_bytes w"] htobe_def) (simp add: be_bytes_def)

lemma if_get_u64_at:
  "at_bytes b (be_bytes w @ rest) \<Longrightarrow> if_get_u64 b no yes = yes (htobe w) (advance 8 b)"
  by (simp add: if_get_u64_def if_get_at [where xs = "be_bytes w"] htobe_def) (simp add: be_bytes_def)

section \<open>Operations without undefined behaviour\<close>

definition defined :: "'a res \<Rightarrow> bool" where
  "defined r \<longleftrightarrow> (case r of Inl (Undefined _) \<Rightarrow> False | _ \<Rightarrow> True)"

lemma defined_simps [simp]:
  "defined (Inr x)" "defined (Inl (Runtime_error m))" "defined (Inl (Logic_error m))"
  "defined (Inl Out_of_range)" "defined (Inl Length_error)" "defined (Inl (Thrown_pointer m))"
  "\<not> defined (Inl (Undefined m))"
  by (simp_all add: defined_def)

lemma defined_bind [wf_intros]:
  "defined m \<Longrightarrow> (\<And>x. m = Inr x \<Longrightarrow> defined (f x)) \<Longrightarrow> defined (bind_res m f)"
  by (cases m) (auto simp: defined_def)

lemma defined_if_get [wf_intros]:
  "defined no \<Longrightarrow> (\<And>bs c. get_data n b = Inr (Some (bs, c)) \<Longrightarrow> defined (yes bs c))
     \<Longrightarrow> defined (if_get n b no yes)"
  by (auto simp: if_get_def get_data_def)

end
