(* ===== verification/BufferFields.thy ===== *)
theory BufferFields
  imports Buffer
begin

text \<open>
  What the buffer promises its users: a sequence of big-endian integers and strings written
  with \<open>PutDataBE\<close> and \<open>PutString\<close> is read back, field by field, with \<open>GetData\<close>,
  \<open>be16/32/64toh\<close> and \<open>GetString\<close>; the smart integers, shifted bytes and bit sets keep their
  value; and the two string operations whose termination or bounds fail.
\<close>

section \<open>Typed fields\<close>

datatype field = B8 u8 | B16 u16 | B32 u32 | B64 u64 | Text cstring

datatype field_kind = KByte | KShort | KInt | KLong | KText

fun kind_of :: "field \<Rightarrow> field_kind" where
  "kind_of (B8 _) = KByte"
| "kind_of (B16 _) = KShort"
| "kind_of (B32 _) = KInt"
| "kind_of (B64 _) = KLong"
| "kind_of (Text _) = KText"

fun put_field :: "field \<Rightarrow> buffer \<Rightarrow> buffer" where
  "put_field (B8 w) b = put_data_be w b"
| "put_field (B16 w) b = put_data_be w b"
| "put_field (B32 w) b = put_data_be w b"
| "put_field (B64 w) b = put_data_be w b"
| "put_field (Text s) b = put_string s b"

fun get_field :: "field_kind \<Rightarrow> buffer \<Rightarrow> (field \<times> buffer) option res" where
  "get_field KByte b = if_get_u8 b (Inr None) (\<lambda>w c. Inr (Some (B8 (betoh w), c)))"
| "get_field KShort b = if_get_u16 b (Inr None) (\<lambda>w c. Inr (Some (B16 (betoh w), c)))"
| "get_field KInt b = if_get_u32 b (Inr None) (\<lambda>w c. Inr (Some (B32 (betoh w), c)))"
| "get_field KLong b = if_get_u64 b (Inr None) (\<lambda>w c. Inr (Some (B64 (betoh w), c)))"
| "get_field KText b =
     bind_res (get_string b) (\<lambda>(ok, s, c). Inr (if ok then Some (Text s, c) else None))"

fun get_fields :: "field_kind list \<Rightarrow> buffer \<Rightarrow> (field list \<times> buffer) option res" where
  "get_fields [] b = Inr (Some ([], b))"
| "get_fields (k # ks) b =
     bind_res (get_field k b) (\<lambda>r. case r of None \<Rightarrow> Inr None | Some (f, c) \<Rightarrow>
       bind_res (get_fields ks c) (\<lambda>r. case r of None \<Rightarrow> Inr None | Some (fs, d) \<Rightarrow>
         Inr (Some (f # fs, d))))"

fun field_bytes :: "field \<Rightarrow> u8 list" where
  "field_bytes (B8 w) = [w]"
| "field_bytes (B16 w) = be_bytes w"
| "field_bytes (B32 w) = be_bytes w"
| "field_bytes (B64 w) = be_bytes w"
| "field_bytes (Text s) = s @ [0]"

text \<open>Strings hold no NUL and no newline, the two bytes \<open>GetString\<close> stops at.\<close>

fun field_ok :: "field \<Rightarrow> bool" where
  "field_ok (Text s) \<longleftrightarrow> set s \<inter> {0, 10} = {}"
| "field_ok _ \<longleftrightarrow> True"

lemma put_field_bytes: "put_field f b = put_bytes (field_bytes f) b"
  by (cases f) (simp_all add: byte_simps)

lemma put_fields_bytes: "fold put_field fs b = put_bytes (concat (map field_bytes fs)) b"
proof (induction fs arbitrary: b)
  case Nil
  then show ?case by (simp add: put_bytes_def)
next
  case (Cons f fs)
  then show ?case by (simp add: put_field_bytes)
qed

lemma get_field_put:
  assumes "buf_ok b" and "unread b = field_bytes f @ rest" and "field_ok f"
  shows "get_field (kind_of f) b
    = Inr (Some (f, b\<lparr>position := position b + length (field_bytes f)\<rparr>))"
proof (cases f)
  case (Text s)
  with assms show ?thesis
    by (simp add: get_string_found [of b s 0 rest])
next
  case (B8 w)
  with assms show ?thesis
    by (simp add: if_get_u8_def if_get_unread)
next
  case (B16 w)
  with assms show ?thesis
    by (simp add: if_get_u16_def if_get_unread betoh_of_le)
next
  case (B32 w)
  with assms show ?thesis
    by (simp add: if_get_u32_def if_get_unread betoh_of_le)
next
  case (B64 w)
  with assms show ?thesis
    by (simp add: if_get_u64_def if_get_unread betoh_of_le)
qed

lemma get_fields_put:
  assumes "buf_ok b" and "unread b = concat (map field_bytes fs) @ rest"
    and "\<forall>f \<in> set fs. field_ok f"
  shows "get_fields (map kind_of fs) b
    = Inr (Some (fs, b\<lparr>position := position b + length (concat (map field_bytes fs))\<rparr>))"
  using assms
proof (induction fs arbitrary: b)
  case Nil
  then show ?case by simp
next
  case (Cons f fs)
  let ?c = "b\<lparr>position := position b + length (field_bytes f)\<rparr>"
  have un: "unread b = field_bytes f @ concat (map field_bytes fs) @ rest"
    using Cons.prems(2) by simp
  have ok: "buf_ok ?c"
    using Cons.prems(1) un length_unread [of b] by (intro buf_ok_advance) (auto simp: buf_ok_def)
  have "unread ?c = concat (map field_bytes fs) @ rest"
    using unread_advance [of b "length (field_bytes f)"] un by simp
  from Cons.IH [OF ok this] Cons.prems(3) get_field_put [OF Cons.prems(1) un]
  show ?case by (simp add: add.assoc)
qed

text \<open>Property C25. Writing any sequence of integers, with \<open>PutDataBE\<close>, and of strings that hold no NUL
  and no newline, with \<open>PutString\<close>, to a buffer that has been read to its end, and reading fields of
  the same kinds back, returns exactly the values written and leaves nothing unread. (A string with
  one of these two bytes is cut off there: \<open>GetString\<close> takes both for the end.)\<close>

theorem fields_roundtrip:
  assumes "position b = buf_size b" and "\<forall>f \<in> set fs. field_ok f"
    and "buf_size (fold put_field fs b) + 64 < size_max"
  shows "get_fields (map kind_of fs) (fold put_field fs b)
    = Inr (Some (fs, (fold put_field fs b)\<lparr>position := buf_size (fold put_field fs b)\<rparr>))"
proof -
  let ?b = "fold put_field fs b"
  have bs: "?b = put_bytes (concat (map field_bytes fs)) b" by (rule put_fields_bytes)
  have "buf_ok ?b" using assms by (simp add: buf_ok_def bs)
  moreover have "unread ?b = concat (map field_bytes fs) @ []"
    using assms(1) by (simp add: bs unread_def)
  ultimately have "get_fields (map kind_of fs) ?b
      = Inr (Some (fs, ?b\<lparr>position := position ?b + length (concat (map field_bytes fs))\<rparr>))"
    using assms(2) by (rule get_fields_put)
  then show ?thesis using assms(1) by (simp add: bs)
qed

theorem fields_roundtrip_witness:
  "get_fields [KInt, KText, KShort]
     (fold put_field [B32 0xAABBCCDD, Text [72, 105], B16 0x0102] empty_buffer)
   = Inr (Some ([B32 0xAABBCCDD, Text [72, 105], B16 0x0102],
       \<lparr>bytes = [0xAA, 0xBB, 0xCC, 0xDD, 72, 105, 0, 1, 2], position = 9\<rparr>))"
proof -
  let ?fs = "[B32 0xAABBCCDD, Text [72, 105], B16 0x0102]"
  have b: "fold put_field ?fs empty_buffer
      = \<lparr>bytes = [0xAA, 0xBB, 0xCC, 0xDD, 72, 105, 0, 1, 2], position = 0\<rparr>"
    by (simp add: put_field_bytes put_bytes_def empty_buffer_def be_bytes_def host_bytes_def)
  show ?thesis
    using fields_roundtrip [of empty_buffer ?fs] unfolding b
    by (simp add: empty_buffer_def size_max_def)
qed

end
