(* ===== verification/Checksum.thy ===== *)
theory Checksum
  imports Prelude
begin

text \<open>
  \<open>openrs::common::crc32c\<close> (\<open>common/include/openrs/common/crc.h\<close>), the checksum of the cache's
  index tables and of every frozen request. The byte loop is a fold, the inner loop eight bit
  steps. A bit step is linear and injective, so a checksum sees every change confined to four
  consecutive bytes.
\<close>

lemma xor_cancel_right: "a XOR c = b XOR c \<longleftrightarrow> a = (b :: 'a::len word)"
proof
  assume "a XOR c = b XOR c"
  then have "(a XOR c) XOR c = (b XOR c) XOR c" by simp
  then show "a = b" by (simp only: xor.assoc xor_self_eq xor.right_neutral)
qed simp

lemma xor_cancel_left: "c XOR a = c XOR b \<longleftrightarrow> a = (b :: 'a::len word)"
  by (simp only: xor.commute [of c] xor_cancel_right)

definition kPolynomial :: u32 where
  "kPolynomial = 0xedb88320"

definition crc_bit :: "u32 \<Rightarrow> u32" where
  "crc_bit crc = (if crc AND 1 \<noteq> 0 then drop_bit 1 crc XOR kPolynomial else drop_bit 1 crc)"

definition crc_byte :: "u32 \<Rightarrow> u8 \<Rightarrow> u32" where
  "crc_byte crc b = (crc_bit ^^ 8) (crc XOR ucast b)"

definition crc32c :: "u32 \<Rightarrow> u8 list \<Rightarrow> u32" where
  "crc32c crc buf = NOT (foldl crc_byte (NOT crc) buf)"

lemma crc_bit_alt: "crc_bit x = drop_bit 1 x XOR (if bit x 0 then kPolynomial else 0)"
  by (simp add: crc_bit_def bit_0 and_one_eq odd_iff_mod_2_eq_one)

lemma crc_bit_xor: "crc_bit (x XOR y) = crc_bit x XOR crc_bit y"
  by (rule bit_word_eqI) (auto simp: crc_bit_alt bit_xor_iff)

lemma crc_bit_top: "bit (crc_bit x) 31 = bit x 0"
proof -
  have "bit kPolynomial 31" by (simp add: kPolynomial_def)
  moreover have "\<not> bit (drop_bit 1 x) 31"
    using bit_imp_le_length [of x 32] by (auto simp: bit_drop_bit_eq)
  ultimately show ?thesis by (simp add: crc_bit_alt bit_xor_iff)
qed

lemma crc_bit_inj: "inj crc_bit"
proof (rule injI)
  fix x y assume e: "crc_bit x = crc_bit y"
  then have b: "bit x 0 = bit y 0" using crc_bit_top by metis
  with e have "drop_bit 1 x = drop_bit 1 y" by (simp add: crc_bit_alt xor_cancel_right)
  then have "bit x (Suc n) = bit y (Suc n)" for n
    by (metis bit_drop_bit_eq comp_apply plus_1_eq_Suc)
  with b have "bit x n = bit y n" for n by (cases n) auto
  then show "x = y" by (simp add: bit_eq_iff)
qed

lemma crc_bit_zero [simp]: "crc_bit 0 = 0"
  by (simp add: crc_bit_def)

lemma crc_bits_xor: "(crc_bit ^^ n) (x XOR y) = (crc_bit ^^ n) x XOR (crc_bit ^^ n) y"
  by (induction n) (simp_all add: crc_bit_xor)

lemma crc_bits_push:
  assumes "\<And>k. bit x k \<Longrightarrow> k + n < 32"
  shows "(crc_bit ^^ n) (push_bit n x) = x"
  using assms
proof (induction n)
  case (Suc n)
  have "crc_bit (push_bit (Suc n) x) = push_bit n x"
  proof (rule bit_word_eqI)
    fix i assume "i < LENGTH(32)"
    have "\<not> bit (push_bit (Suc n) x) 0" by (simp only: bit_push_bit_iff) simp
    moreover have "bit (push_bit n x) i \<Longrightarrow> Suc i < 32"
      using Suc.prems by (fastforce simp: bit_push_bit_iff)
    ultimately show "bit (crc_bit (push_bit (Suc n) x)) i \<longleftrightarrow> bit (push_bit n x) i"
      by (auto simp: crc_bit_alt bit_drop_bit_eq bit_push_bit_iff simp del: push_bit_Suc)
  qed
  moreover have "(crc_bit ^^ n) (push_bit n x) = x"
    using Suc by fastforce
  ultimately show ?case by (simp only: funpow_Suc_right comp_apply)
qed simp

lemma bit_of_le: "bit (of_le cs :: u32) k \<Longrightarrow> k < 8 * length cs"
proof (induction cs arbitrary: k)
  case (Cons c cs)
  show ?case
  proof (cases "k < 8")
    case False
    then have "\<not> bit (ucast c :: u32) k"
      using bit_imp_le_length [of c k] by (auto simp: bit_ucast_iff)
    then have "bit (of_le cs :: u32) (k - 8)"
      using Cons.prems by (auto simp: bit_or_iff bit_push_bit_iff)
    then show ?thesis using Cons.IH [of "k - 8"] by simp
  qed simp
qed simp

lemma foldl_crc_byte:
  assumes "length xs \<le> 4"
  shows "foldl crc_byte s xs = (crc_bit ^^ (8 * length xs)) (s XOR of_le xs)"
  using assms
proof (induction xs arbitrary: s)
  case (Cons b bs)
  let ?n = "8 * length bs" and ?t = "of_le bs :: u32"
  have p: "(crc_bit ^^ 8) (push_bit 8 ?t) = ?t"
  proof (rule crc_bits_push)
    fix k assume "bit ?t k"
    then have "k < 8 * length bs" by (rule bit_of_le)
    then show "k + 8 < 32" using Cons.prems by simp
  qed
  have "of_le (b # bs) = (ucast b XOR push_bit 8 ?t :: u32)"
  proof (rule bit_word_eqI)
    fix i
    have "bit b i \<Longrightarrow> i < 8" using bit_imp_le_length [of b i] by simp
    then show "bit (of_le (b # bs) :: u32) i \<longleftrightarrow> bit (ucast b XOR push_bit 8 ?t) i"
      by (auto simp: bit_or_iff bit_xor_iff bit_push_bit_iff bit_ucast_iff)
  qed
  then have "(crc_bit ^^ 8) (s XOR of_le (b # bs)) = crc_byte s b XOR ?t"
    by (simp only: crc_byte_def crc_bits_xor p xor.assoc)
  moreover have "foldl crc_byte s (b # bs) = (crc_bit ^^ ?n) (crc_byte s b XOR ?t)"
    using Cons.IH [of "crc_byte s b"] Cons.prems by (simp only: foldl_Cons list.size)
  ultimately have "foldl crc_byte s (b # bs)
      = (crc_bit ^^ ?n) ((crc_bit ^^ 8) (s XOR of_le (b # bs)))" by (simp only:)
  moreover have "(crc_bit ^^ ?n) ((crc_bit ^^ 8) x) = (crc_bit ^^ (8 * length (b # bs))) x" for x
  proof -
    have "8 * length (b # bs) = ?n + 8" by simp
    then show ?thesis by (simp only: funpow_add comp_apply)
  qed
  ultimately show ?case by (simp only:)
qed simp

lemma crc_byte_inj: "foldl crc_byte s cs = foldl crc_byte t cs \<longleftrightarrow> s = t"
proof (induction cs arbitrary: s t)
  case (Cons c cs)
  have "inj (crc_bit ^^ 8)" by (rule inj_fn [OF crc_bit_inj])
  then have "crc_byte s c = crc_byte t c \<longleftrightarrow> s XOR ucast c = t XOR ucast c"
    unfolding crc_byte_def by (rule inj_eq)
  also have "\<dots> \<longleftrightarrow> s = t" by (rule xor_cancel_right)
  finally show ?case using Cons by simp
qed simp

lemma crc32c_empty [simp]: "crc32c c [] = c"
  by (simp add: crc32c_def)

text \<open>The checksum can be computed piece by piece: the checksum of a message is
  the checksum of its tail started from the checksum of its head.\<close>

lemma crc32c_append: "crc32c (crc32c c a) b = crc32c c (a @ b)"
  by (simp add: crc32c_def)

text \<open>Property C36. The checksum detects every error confined to at most four consecutive bytes:
  two messages of one length that differ only there have different checksums.\<close>

theorem crc32c_detects_bursts:
  assumes "length xs = length ys" "length xs \<le> 4" "xs \<noteq> ys"
  shows "crc32c c (pre @ xs @ post) \<noteq> crc32c c (pre @ ys @ post)"
proof
  assume e: "crc32c c (pre @ xs @ post) = crc32c c (pre @ ys @ post)"
  define s where "s = foldl crc_byte (NOT c) pre"
  have "foldl crc_byte s (xs @ post) = foldl crc_byte s (ys @ post)"
    using e by (simp add: crc32c_def s_def)
  then have "foldl crc_byte s xs = foldl crc_byte s ys" by (simp add: crc_byte_inj)
  then have "(crc_bit ^^ (8 * length xs)) (s XOR of_le xs) = (crc_bit ^^ (8 * length xs)) (s XOR of_le ys)"
    using assms by (simp add: foldl_crc_byte)
  then have "s XOR of_le xs = s XOR (of_le ys :: u32)"
    using inj_fn [OF crc_bit_inj, THEN injD] by blast
  then have "(of_le xs :: u32) = of_le ys"
    by (simp only: xor_cancel_left)
  moreover have "8 * length xs \<le> LENGTH(32)" "8 * length ys \<le> LENGTH(32)"
    using assms by simp_all
  ultimately show False
    using le_bytes_of_le [where ?'a = 32] assms by metis
qed

theorem crc32c_detects_bursts_witness:
  "crc32c 0 [1, 2, 3] \<noteq> crc32c 0 [1, 7, 3]"
  using crc32c_detects_bursts [of "[2]" "[7]" 0 "[1]" "[3]"] by simp

end
