(* ===== verification/Events.thy ===== *)
theory Events
  imports Prelude
begin

text \<open>
  The event plumbing (\<open>common/event/eventsource.h\<close>, \<open>eventsink.h\<close>) and the log
  (\<open>common/log.h\<close>). An event source holds weak pointers to its sinks: here the sinks live in a
  heap, and a sink whose object is gone is \<open>None\<close> there. A sink's \<open>HandleEvent\<close> is a parameter:
  the interface has no implementation in the repository outside its tests.
\<close>

section \<open>Event sources\<close>

type_synonym 's sink_heap = "nat \<Rightarrow> 's option"

record event_source =
  sinks :: "nat list"

definition add_sink :: "nat \<Rightarrow> event_source \<Rightarrow> event_source" where
  "add_sink k src = src\<lparr>sinks := sinks src @ [k]\<rparr>"

text \<open>\<open>EmitEvent\<close>: expired sinks are skipped, the first sink that answers \<open>true\<close> ends the loop.\<close>

fun emit_loop :: "('s \<Rightarrow> 'e \<Rightarrow> bool \<times> 's) \<Rightarrow> 'e \<Rightarrow> nat list \<Rightarrow> 's sink_heap \<Rightarrow> 's sink_heap" where
  "emit_loop handle_event ev [] h = h"
| "emit_loop handle_event ev (k # ks) h =
     (case h k of
        None \<Rightarrow> emit_loop handle_event ev ks h
      | Some s \<Rightarrow> (case handle_event s ev of (processed, s') \<Rightarrow>
          if processed then h(k \<mapsto> s') else emit_loop handle_event ev ks (h(k \<mapsto> s'))))"

definition emit_event ::
  "('s \<Rightarrow> 'e \<Rightarrow> bool \<times> 's) \<Rightarrow> event_source \<Rightarrow> 'e \<Rightarrow> 's sink_heap \<Rightarrow> 's sink_heap" where
  "emit_event handle_event src ev h = emit_loop handle_event ev (sinks src) h"

text \<open>The sink \<open>j\<close> is alive and takes the event.\<close>

definition takes :: "('s \<Rightarrow> 'e \<Rightarrow> bool \<times> 's) \<Rightarrow> 'e \<Rightarrow> 's sink_heap \<Rightarrow> nat \<Rightarrow> bool" where
  "takes handle_event ev h j = (case h j of None \<Rightarrow> False | Some s \<Rightarrow> fst (handle_event s ev))"

lemma emit_loop_other: "k \<notin> set ks \<Longrightarrow> emit_loop hev ev ks h k = h k"
  by (induction ks arbitrary: h) (auto split: option.split prod.split)

lemma takes_upd_other [simp]: "j \<noteq> k \<Longrightarrow> takes hev ev (h(k \<mapsto> s)) j = takes hev ev h j"
  by (simp add: takes_def)

lemma emit_loop_nth:
  assumes "distinct ks" "i < length ks"
  shows "emit_loop hev ev ks h (ks ! i) =
    (if \<exists>j < i. takes hev ev h (ks ! j) then h (ks ! i)
     else map_option (\<lambda>s. snd (hev s ev)) (h (ks ! i)))"
  using assms
proof (induction ks arbitrary: h i)
  case (Cons k ks)
  show ?case
  proof (cases i)
    case 0
    with Cons.prems show ?thesis
      by (auto simp: emit_loop_other split: option.split prod.split)
  next
    case (Suc m)
    then have m: "m < length ks" "ks ! m \<in> set ks" "ks ! m \<noteq> k" using Cons.prems by auto
    have ne: "j < m \<Longrightarrow> ks ! j \<noteq> k" for j using Cons.prems m by auto
    have ex: "(\<exists>j < i. takes hev ev h ((k # ks) ! j)) \<longleftrightarrow>
        takes hev ev h k \<or> (\<exists>j < m. takes hev ev h (ks ! j))"
      by (simp add: Suc Ex_less_Suc2)
    show ?thesis
    proof (cases "h k")
      case None
      then have "\<not> takes hev ev h k" by (simp add: takes_def)
      with None Cons.IH [of m h] Cons.prems m show ?thesis
        unfolding ex by (auto simp: Suc)
    next
      case (Some s)
      obtain p s' where hs: "hev s ev = (p, s')" by fastforce
      have up: "(\<exists>j < m. takes hev ev (h(k \<mapsto> s')) (ks ! j)) \<longleftrightarrow> (\<exists>j < m. takes hev ev h (ks ! j))"
        using ne by (metis takes_upd_other)
      have tk: "takes hev ev h k = p" by (simp add: takes_def Some hs)
      show ?thesis
        using Cons.IH [of m "h(k \<mapsto> s')"] Cons.prems m fun_upd_other [OF m(3), of h "Some s'"]
        unfolding ex tk
        by (cases p) (auto simp: Suc Some hs up simp del: fun_upd_apply split: if_splits)
    qed
  qed
qed simp

text \<open>An emitted event reaches exactly the live sinks up to and including the first
  live one that takes it, in the order they were added; every other sink keeps its state, and
  so does every object that is not a sink of the source.\<close>

theorem emit_event_delivery:
  assumes "distinct (sinks src)" and "i < length (sinks src)"
  shows "emit_event hev src ev h (sinks src ! i) =
      (if \<exists>j < i. takes hev ev h (sinks src ! j) then h (sinks src ! i)
       else map_option (\<lambda>s. snd (hev s ev)) (h (sinks src ! i)))
    \<and> (k \<notin> set (sinks src) \<longrightarrow> emit_event hev src ev h k = h k)"
  using assms by (simp add: emit_event_def emit_loop_nth emit_loop_other)

theorem emit_event_delivery_witness:
  "emit_event (\<lambda>n (e :: nat). (n = (1 :: nat), n + e)) \<lparr>sinks = [0, 3, 5]\<rparr> 7
     (\<lambda>k. if k = 3 then None else Some 1) 5 = Some 1"
  using emit_event_delivery [of "\<lparr>sinks = [0, 3, 5]\<rparr>" 2 "\<lambda>n (e :: nat). (n = (1 :: nat), n + e)" 7
      "\<lambda>k. if k = 3 then None else Some 1" 9]
  by (simp add: takes_def numeral_2_eq_2 Ex_less_Suc2)

section \<open>The log\<close>

datatype log_level = kDebug | kInfo | kWarning | kError

fun severity :: "log_level \<Rightarrow> nat" where
  "severity kDebug = 0" | "severity kInfo = 1" | "severity kWarning = 2" | "severity kError = 3"

instantiation log_level :: linorder
begin

definition less_eq_log_level :: "log_level \<Rightarrow> log_level \<Rightarrow> bool" where
  "less_eq_log_level a b \<longleftrightarrow> severity a \<le> severity b"

definition less_log_level :: "log_level \<Rightarrow> log_level \<Rightarrow> bool" where
  "less_log_level a b \<longleftrightarrow> severity a < severity b"

instance
proof
  fix a b :: log_level
  show "a \<le> b \<Longrightarrow> b \<le> a \<Longrightarrow> a = b"
    by (cases a; cases b) (simp_all add: less_eq_log_level_def)
qed (auto simp: less_eq_log_level_def less_log_level_def)

end

record log_state =
  minimum_level :: log_level
  out :: string
  err :: string

definition set_level :: "log_level \<Rightarrow> log_state \<Rightarrow> log_state" where
  "set_level l s = s\<lparr>minimum_level := l\<rparr>"

fun GetLabel :: "log_level \<Rightarrow> string" where
  "GetLabel kDebug = ''DEBUG''"
| "GetLabel kInfo = ''INFO ''"
| "GetLabel kWarning = ''WARN ''"
| "GetLabel kError = ''ERROR''"

text \<open>\<open>operator<<\<close>, and the destructor that ends the line.\<close>

definition log_write :: "log_level \<Rightarrow> string \<Rightarrow> log_state \<Rightarrow> log_state" where
  "log_write level msg s =
     (if minimum_level s \<le> level
      then if level = kError then s\<lparr>err := err s @ msg\<rparr> else s\<lparr>out := out s @ msg\<rparr>
      else s)"

definition log_end :: "log_level \<Rightarrow> log_state \<Rightarrow> log_state" where
  "log_end level s = log_write level [CHR 0x0A] s"

text \<open>\<open>Log(level) << m\<^sub>1 << ... << m\<^sub>n;\<close> as a full expression: constructor, writes, destructor.\<close>

definition log_line :: "log_level \<Rightarrow> string list \<Rightarrow> log_state \<Rightarrow> log_state" where
  "log_line level msgs s =
     log_end level (fold (log_write level) msgs (log_write level (''['' @ GetLabel level @ ''] '') s))"

lemma fold_log_write:
  "fold (log_write l) msgs s =
     (if minimum_level s \<le> l
      then if l = kError then s\<lparr>err := err s @ concat msgs\<rparr> else s\<lparr>out := out s @ concat msgs\<rparr>
      else s)"
  by (induction msgs arbitrary: s) (simp_all add: log_write_def)

text \<open>A log line is written whole to one stream, errors to \<open>cerr\<close> and the rest to
  \<open>cout\<close>, with its label and a newline, when its level reaches the minimum; below the minimum
  neither stream changes.\<close>

lemma log_line_output:
  "log_line l msgs s =
     (let txt = ''['' @ GetLabel l @ ''] '' @ concat msgs @ [CHR 0x0A]
      in if l < minimum_level s then s
         else if l = kError then s\<lparr>err := err s @ txt\<rparr> else s\<lparr>out := out s @ txt\<rparr>)"
  by (simp add: log_line_def log_end_def fold_log_write) (simp add: log_write_def Let_def not_less)

end
