(* ===== verification/Columns.thy ===== *)
theory Columns
  imports Prelude
begin

text \<open>
  The database layer (\<open>database/include/openrs/database/columnset.h\<close>, \<open>columnsets/*\<close>,
  \<open>model.h\<close>, \<open>models/player.h\<close>): column sets, the player model they make up, and the SQL
  commands with their parameters. A column set lists its columns twice, as definitions (name
  and SQL type, for the SQLite backend) and as binds (name and member). The database itself is
  a parameter: a function from a command and its bound parameters to its outcome.
\<close>

section \<open>Column sets\<close>

type_synonym i32 = "32 word"

record appearance_columns =
  look_hair :: i32
  look_beard :: i32
  look_torso :: i32
  look_arms :: i32
  look_forearms :: i32
  look_legs :: i32
  look_shoes :: i32
  colour_shoes :: i32
  colour_legs :: i32
  colour_torso :: i32
  colour_hair :: i32
  colour_skin :: i32

definition new_appearance :: appearance_columns where
  "new_appearance = \<lparr>look_hair = 0, look_beard = 0, look_torso = 0, look_arms = 0, look_forearms = 0,
     look_legs = 0, look_shoes = 0, colour_shoes = 0, colour_legs = 0, colour_torso = 0,
     colour_hair = 0, colour_skin = 0\<rparr>"

record player_columns =
  username :: cstring
  password :: cstring
  salt :: cstring
  rights :: i32
  skull_time_left :: i32

definition new_player_columns :: player_columns where
  "new_player_columns = \<lparr>username = [], password = [], salt = [], rights = 0, skull_time_left = 0\<rparr>"

record skills_columns =
  skill_attack :: i32

definition new_skills :: skills_columns where
  "new_skills = \<lparr>skill_attack = 0\<rparr>"

record tile_columns =
  position_x :: i32
  position_y :: i32
  position_z :: i32

definition new_tile :: "i32 \<Rightarrow> i32 \<Rightarrow> i32 \<Rightarrow> tile_columns" where
  "new_tile x y z = \<lparr>position_x = x, position_y = y, position_z = z\<rparr>"

text \<open>The model: the row identifier and the four column sets it inherits.\<close>

record player_model =
  model_id :: i32
  account :: player_columns
  looks :: appearance_columns
  skills :: skills_columns
  tile :: tile_columns

definition new_player_model :: player_model where
  "new_player_model = \<lparr>model_id = 0, account = new_player_columns, looks = new_appearance,
     skills = new_skills, tile = new_tile 0 0 0\<rparr>"

section \<open>Binds\<close>

datatype sql_value = Sql_int i32 | Sql_text cstring

text \<open>A bind is a reference to a member: it is read when a parameter is bound, and written when
  a field of a row is.\<close>

datatype member =
    Int_member "player_model \<Rightarrow> i32" "i32 \<Rightarrow> player_model \<Rightarrow> player_model"
  | Text_member "player_model \<Rightarrow> cstring" "cstring \<Rightarrow> player_model \<Rightarrow> player_model"

fun member_value :: "member \<Rightarrow> player_model \<Rightarrow> sql_value" where
  "member_value (Int_member get_it _) m = Sql_int (get_it m)"
| "member_value (Text_member get_it _) m = Sql_text (get_it m)"

fun member_store :: "member \<Rightarrow> sql_value \<Rightarrow> player_model \<Rightarrow> player_model" where
  "member_store (Int_member _ set_it) (Sql_int v) m = set_it v m"
| "member_store (Text_member _ set_it) (Sql_text v) m = set_it v m"
| "member_store _ _ m = m"

datatype column_set = IDColumnSet | PlayerColumnSet | AppearanceColumnSet | SkillsColumnSet | WorldTileColumnSet

definition id_binds :: "(string \<times> member) list" where
  "id_binds = [(''id'', Int_member model_id (\<lambda>v. model_id_update (\<lambda>_. v)))]"

definition player_binds :: "(string \<times> member) list" where
  "player_binds =
    [(''username'', Text_member (username \<circ> account) (\<lambda>v. account_update (username_update (\<lambda>_. v)))),
     (''password'', Text_member (password \<circ> account) (\<lambda>v. account_update (password_update (\<lambda>_. v)))),
     (''salt'', Text_member (salt \<circ> account) (\<lambda>v. account_update (salt_update (\<lambda>_. v)))),
     (''rights'', Int_member (rights \<circ> account) (\<lambda>v. account_update (rights_update (\<lambda>_. v)))),
     (''skull_time_left'',
        Int_member (skull_time_left \<circ> account) (\<lambda>v. account_update (skull_time_left_update (\<lambda>_. v))))]"

definition appearance_binds :: "(string \<times> member) list" where
  "appearance_binds =
    [(''look_hair'', Int_member (look_hair \<circ> looks) (\<lambda>v. looks_update (look_hair_update (\<lambda>_. v)))),
     (''look_beard'', Int_member (look_beard \<circ> looks) (\<lambda>v. looks_update (look_beard_update (\<lambda>_. v)))),
     (''look_torso'', Int_member (look_torso \<circ> looks) (\<lambda>v. looks_update (look_torso_update (\<lambda>_. v)))),
     (''look_arms'', Int_member (look_arms \<circ> looks) (\<lambda>v. looks_update (look_arms_update (\<lambda>_. v)))),
     (''look_forearms'',
        Int_member (look_forearms \<circ> looks) (\<lambda>v. looks_update (look_forearms_update (\<lambda>_. v)))),
     (''look_legs'', Int_member (look_legs \<circ> looks) (\<lambda>v. looks_update (look_legs_update (\<lambda>_. v)))),
     (''look_shoes'', Int_member (look_shoes \<circ> looks) (\<lambda>v. looks_update (look_shoes_update (\<lambda>_. v)))),
     (''colour_shoes'',
        Int_member (colour_shoes \<circ> looks) (\<lambda>v. looks_update (colour_shoes_update (\<lambda>_. v)))),
     (''colour_legs'', Int_member (colour_legs \<circ> looks) (\<lambda>v. looks_update (colour_legs_update (\<lambda>_. v)))),
     (''colour_torso'',
        Int_member (colour_torso \<circ> looks) (\<lambda>v. looks_update (colour_torso_update (\<lambda>_. v)))),
     (''colour_hair'', Int_member (colour_hair \<circ> looks) (\<lambda>v. looks_update (colour_hair_update (\<lambda>_. v)))),
     (''colour_skin'', Int_member (colour_skin \<circ> looks) (\<lambda>v. looks_update (colour_skin_update (\<lambda>_. v))))]"

definition skills_binds :: "(string \<times> member) list" where
  "skills_binds =
    [(''skill_attack'', Int_member (skill_attack \<circ> skills) (\<lambda>v. skills_update (skill_attack_update (\<lambda>_. v))))]"

definition tile_binds :: "(string \<times> member) list" where
  "tile_binds =
    [(''position_x'', Int_member (position_x \<circ> tile) (\<lambda>v. tile_update (position_x_update (\<lambda>_. v)))),
     (''position_y'', Int_member (position_y \<circ> tile) (\<lambda>v. tile_update (position_y_update (\<lambda>_. v)))),
     (''position_z'', Int_member (position_z \<circ> tile) (\<lambda>v. tile_update (position_z_update (\<lambda>_. v))))]"

fun GetColumnBinds :: "column_set \<Rightarrow> (string \<times> member) list" where
  "GetColumnBinds IDColumnSet = id_binds"
| "GetColumnBinds PlayerColumnSet = player_binds"
| "GetColumnBinds AppearanceColumnSet = appearance_binds"
| "GetColumnBinds SkillsColumnSet = skills_binds"
| "GetColumnBinds WorldTileColumnSet = tile_binds"

section \<open>Definitions\<close>

datatype backend = Mysql | Sqlite

abbreviation counter_type :: string where
  "counter_type \<equiv> ''INTEGER NOT NULL DEFAULT 0''"

definition id_definitions :: "(string \<times> string) list" where
  "id_definitions = [(''id'', ''INTEGER PRIMARY KEY'')]"

definition player_definitions :: "(string \<times> string) list" where
  "player_definitions =
    [(''username'', ''TEXT NOT NULL UNIQUE''), (''password'', ''TEXT NOT NULL''),
     (''salt'', ''TEXT NOT NULL''), (''rights'', counter_type), (''skull_time_left'', counter_type)]"

definition appearance_definitions :: "(string \<times> string) list" where
  "appearance_definitions =
    [(''look_hair'', counter_type), (''look_beard'', counter_type), (''look_torso'', counter_type),
     (''look_arms'', counter_type), (''look_forearms'', counter_type), (''look_legs'', counter_type),
     (''look_shoes'', counter_type), (''colour_shoes'', counter_type), (''colour_legs'', counter_type),
     (''colour_torso'', counter_type), (''colour_hair'', counter_type), (''colour_skin'', counter_type)]"

definition skills_definitions :: "(string \<times> string) list" where
  "skills_definitions = [(''skill_attack'', counter_type)]"

definition tile_definitions :: "(string \<times> string) list" where
  "tile_definitions =
    [(''position_x'', counter_type), (''position_y'', counter_type), (''position_z'', counter_type)]"

text \<open>\<open>GetColumnDefinitions<Database>\<close>: every specialisation for MySQL throws.\<close>

fun GetColumnDefinitions :: "backend \<Rightarrow> column_set \<Rightarrow> (string \<times> string) list res" where
  "GetColumnDefinitions Mysql _ = Inl (Logic_error ''Not implemented.'')"
| "GetColumnDefinitions Sqlite IDColumnSet = Inr id_definitions"
| "GetColumnDefinitions Sqlite PlayerColumnSet = Inr player_definitions"
| "GetColumnDefinitions Sqlite AppearanceColumnSet = Inr appearance_definitions"
| "GetColumnDefinitions Sqlite SkillsColumnSet = Inr skills_definitions"
| "GetColumnDefinitions Sqlite WorldTileColumnSet = Inr tile_definitions"

fun GetAllColumnDefinitions :: "backend \<Rightarrow> column_set list \<Rightarrow> (string \<times> string) list res" where
  "GetAllColumnDefinitions db [] = Inr []"
| "GetAllColumnDefinitions db (cs # css) =
     bind_res (GetColumnDefinitions db cs) (\<lambda>current.
       bind_res (GetAllColumnDefinitions db css) (\<lambda>rest. Inr (current @ rest)))"

section \<open>Commands\<close>

text \<open>The loops that build a comma-separated list; \<open>","\<close> follows every element but the last.\<close>

fun comma_list :: "string list \<Rightarrow> string" where
  "comma_list [] = []"
| "comma_list [x] = x"
| "comma_list (x # y # zs) = x @ '','' @ comma_list (y # zs)"

text \<open>\<open>BindColumns\<close>: the parameters in the order of the binds, from \<open>bind_index\<close> on.\<close>

fun BindColumns :: "player_model \<Rightarrow> nat \<Rightarrow> column_set list \<Rightarrow> (nat \<times> sql_value) list" where
  "BindColumns m bind_index [] = []"
| "BindColumns m bind_index (cs # css) =
     (let kColumns = GetColumnBinds cs
      in zip [bind_index..<bind_index + length kColumns] (map (\<lambda>c. member_value (snd c) m) kColumns)
         @ BindColumns m (bind_index + length kColumns) css)"

text \<open>A database: the outcome of \<open>fetch\<close> (whether there is a row), the identifier of the row
  inserted last, and the rows of a query, or the error thrown; and the next database.\<close>

record sql_outcome =
  fetched :: bool
  insert_id :: i32
  rows :: "(string \<rightharpoonup> sql_value) list"

type_synonym 'db database = "string \<Rightarrow> (nat \<times> sql_value) list \<Rightarrow> 'db \<Rightarrow> sql_outcome res \<times> 'db"

definition TABLE_NAME :: string where
  "TABLE_NAME = ''players''"

abbreviation player_sets :: "column_set list" where
  "player_sets \<equiv> [PlayerColumnSet, AppearanceColumnSet, SkillsColumnSet, WorldTileColumnSet]"

definition create_command :: "string \<Rightarrow> (string \<times> string) list \<Rightarrow> string" where
  "create_command kTableName kColumns =
     ''CREATE TABLE IF NOT EXISTS '' @ kTableName @ '' ('' @
       comma_list (map (\<lambda>(n, t). n @ '' '' @ t) kColumns) @ '');''"

definition insert_command :: "string \<Rightarrow> (string \<times> string) list \<Rightarrow> string" where
  "insert_command kTableName kColumns =
     ''INSERT INTO '' @ kTableName @ '' ('' @ comma_list (map fst kColumns) @ '') VALUES ('' @
       comma_list (map (\<lambda>_. ''?'') kColumns) @ '');''"

definition update_command :: "string \<Rightarrow> (string \<times> string) list \<Rightarrow> string" where
  "update_command kTableName kColumns =
     ''UPDATE '' @ kTableName @ '' SET '' @ comma_list (map (\<lambda>c. fst c @ ''=?'') kColumns) @ '' WHERE id=?;''"

definition select_command :: "string \<Rightarrow> (string \<times> string) list \<Rightarrow> string" where
  "select_command kTableName kColumns =
     ''SELECT '' @ comma_list (map fst kColumns) @ '' FROM '' @ kTableName @ '';''"

definition select_where_command :: "string \<Rightarrow> (string \<times> string) list \<Rightarrow> string \<Rightarrow> string" where
  "select_where_command kTableName kColumns kWhereField =
     ''SELECT '' @ comma_list (map fst kColumns) @ '' FROM '' @ kTableName @ '' WHERE '' @ kWhereField @ ''=?;''"

section \<open>Operations of a model\<close>

definition run :: "'db database \<Rightarrow> string \<Rightarrow> (nat \<times> sql_value) list \<Rightarrow> 'db
    \<Rightarrow> (sql_outcome \<Rightarrow> 'db \<Rightarrow> 'r res \<times> 'db) \<Rightarrow> 'r res \<times> 'db" where
  "run db cmd params s k = (case db cmd params s of (Inl e, s) \<Rightarrow> (Inl e, s) | (Inr r, s) \<Rightarrow> k r s)"

definition CreateModelTable :: "backend \<Rightarrow> 'db database \<Rightarrow> 'db \<Rightarrow> bool res \<times> 'db" where
  "CreateModelTable be db s =
     (case GetAllColumnDefinitions be (IDColumnSet # player_sets) of
        Inl e \<Rightarrow> (Inl e, s)
      | Inr kColumns \<Rightarrow>
          run db (create_command TABLE_NAME kColumns) [] s (\<lambda>r s. (Inr (fetched r), s)))"

definition Insert :: "backend \<Rightarrow> 'db database \<Rightarrow> player_model \<Rightarrow> 'db \<Rightarrow> (bool \<times> player_model) res \<times> 'db" where
  "Insert be db m s =
     (case GetAllColumnDefinitions be player_sets of
        Inl e \<Rightarrow> (Inl e, s)
      | Inr kColumns \<Rightarrow>
          run db (insert_command TABLE_NAME kColumns) (BindColumns m 0 player_sets) s (\<lambda>r s.
            if fetched r then (Inr (False, m), s)
            else (Inr (True, m\<lparr>model_id := insert_id r\<rparr>), s)))"

definition Update :: "backend \<Rightarrow> 'db database \<Rightarrow> player_model \<Rightarrow> 'db \<Rightarrow> (bool \<times> player_model) res \<times> 'db" where
  "Update be db m s =
     (case GetAllColumnDefinitions be player_sets of
        Inl e \<Rightarrow> (Inl e, s)
      | Inr kColumns \<Rightarrow>
          run db (update_command TABLE_NAME kColumns)
            (BindColumns m 0 player_sets @ BindColumns m (length kColumns) [IDColumnSet]) s (\<lambda>r s.
              (Inr (\<not> fetched r, m), s)))"

definition Save :: "backend \<Rightarrow> 'db database \<Rightarrow> player_model \<Rightarrow> 'db \<Rightarrow> (bool \<times> player_model) res \<times> 'db" where
  "Save be db m s = (if model_id m = 0 then Insert be db m s else Update be db m s)"

text \<open>\<open>BindFields\<close> stores the columns of a row, found by name, in the members; \<open>bind_record\<close>
  does so for the identifier and the four sets.\<close>

definition BindFields :: "(string \<rightharpoonup> sql_value) \<Rightarrow> column_set \<Rightarrow> player_model \<Rightarrow> player_model" where
  "BindFields row cs m =
     fold (\<lambda>(n, mem) m. case row n of None \<Rightarrow> m | Some v \<Rightarrow> member_store mem v m) (GetColumnBinds cs) m"

definition bind_record :: "(string \<rightharpoonup> sql_value) \<Rightarrow> player_model" where
  "bind_record row = fold (BindFields row) (IDColumnSet # player_sets) new_player_model"

definition Select :: "backend \<Rightarrow> 'db database \<Rightarrow> player_model list \<Rightarrow> 'db
    \<Rightarrow> (bool \<times> player_model list) res \<times> 'db" where
  "Select be db out s =
     (case GetAllColumnDefinitions be (IDColumnSet # player_sets) of
        Inl e \<Rightarrow> (Inl e, s)
      | Inr kColumns \<Rightarrow> run db (select_command TABLE_NAME kColumns) [] s (\<lambda>r s.
          let out = out @ map bind_record (rows r) in (Inr (length out \<noteq> 0, out), s)))"

definition SelectWhere :: "backend \<Rightarrow> 'db database \<Rightarrow> string \<Rightarrow> sql_value \<Rightarrow> player_model list \<Rightarrow> 'db
    \<Rightarrow> (bool \<times> player_model list) res \<times> 'db" where
  "SelectWhere be db kWhereField kWhereValue out s =
     (case GetAllColumnDefinitions be (IDColumnSet # player_sets) of
        Inl e \<Rightarrow> (Inl e, s)
      | Inr kColumns \<Rightarrow>
          run db (select_where_command TABLE_NAME kColumns kWhereField) [(0, kWhereValue)] s (\<lambda>r s.
            let out = out @ map bind_record (rows r) in (Inr (length out \<noteq> 0, out), s)))"

section \<open>Rows\<close>

text \<open>All binds of a model, in the order of the columns of its table, and the row they describe.\<close>

definition model_binds :: "(string \<times> member) list" where
  "model_binds = concat (map GetColumnBinds (IDColumnSet # player_sets))"

definition row_of :: "player_model \<Rightarrow> string \<rightharpoonup> sql_value" where
  "row_of m = map_of (map (\<lambda>(n, mem). (n, member_value mem m)) model_binds)"

lemmas binds_defs = id_binds_def player_binds_def appearance_binds_def skills_binds_def tile_binds_def

lemmas definitions_defs = id_definitions_def player_definitions_def appearance_definitions_def
  skills_definitions_def tile_definitions_def

definition player_columns_list :: "(string \<times> string) list" where
  "player_columns_list = player_definitions @ appearance_definitions @ skills_definitions @ tile_definitions"

lemma all_definitions:
  "GetAllColumnDefinitions Sqlite player_sets = Inr player_columns_list"
  "GetAllColumnDefinitions Sqlite (IDColumnSet # player_sets) = Inr (id_definitions @ player_columns_list)"
  by (simp_all add: player_columns_list_def)

text \<open>Each column set lists its columns in the same order in both lists.\<close>

lemma definitions_match_binds:
  "GetColumnDefinitions Sqlite cs = Inr cols \<Longrightarrow> map fst cols = map fst (GetColumnBinds cs)"
  by (cases cs) (auto simp: binds_defs definitions_defs)

lemma model_names: "map fst model_binds = ''id'' # map fst player_columns_list"
  by (simp add: model_binds_def player_columns_list_def binds_defs definitions_defs)

lemma distinct_names: "distinct (map fst model_binds)"
  unfolding model_names by (simp add: player_columns_list_def definitions_defs)

lemma row_of_bind: "(n, mem) \<in> set model_binds \<Longrightarrow> row_of m n = Some (member_value mem m)"
proof -
  let ?row = "map (\<lambda>(n, mem). (n, member_value mem m)) model_binds"
  assume "(n, mem) \<in> set model_binds"
  then have "(n, member_value mem m) \<in> set ?row" by force
  moreover have "map fst ?row = map fst model_binds" by (simp add: case_prod_beta)
  then have "distinct (map fst ?row)" by (simp only: distinct_names)
  ultimately show ?thesis unfolding row_of_def by (rule map_of_is_SomeI [rotated])
qed

lemma BindColumns_binds:
  "BindColumns m k css =
     (let bs = concat (map GetColumnBinds css)
      in zip [k..<k + length bs] (map (\<lambda>c. member_value (snd c) m) bs))"
proof (induction css arbitrary: k)
  case (Cons cs css)
  let ?a = "GetColumnBinds cs" and ?b = "concat (map GetColumnBinds css)"
  let ?f = "\<lambda>c. member_value (snd c) m"
  have u: "[k..<k + length (?a @ ?b)] = [k..<k + length ?a] @ [k + length ?a..<k + length ?a + length ?b]"
    by (simp only: length_append add.assoc [symmetric]) (rule upt_add_eq_append, simp only: le_add1)
  have "BindColumns m k (cs # css) = zip [k..<k + length ?a] (map ?f ?a)
      @ zip [k + length ?a..<k + length ?a + length ?b] (map ?f ?b)"
    by (simp only: BindColumns.simps Let_def Cons.IH)
  also have "\<dots> = zip [k..<k + length (?a @ ?b)] (map ?f (?a @ ?b))"
    unfolding u map_append by (rule zip_append [symmetric]) simp
  finally show ?case by (simp only: Let_def list.map concat.simps)
qed simp

lemma tail_binds: "model_binds = id_binds @ concat (map GetColumnBinds player_sets)"
  by (simp add: model_binds_def)

lemma id_parameter: "BindColumns m k [IDColumnSet] = [(k, Sql_int (model_id m))]"
  by (simp add: id_binds_def)

lemma insert_parameter:
  assumes "i < length player_columns_list"
  shows "\<exists>v. BindColumns m 0 player_sets ! i = (i, v) \<and> row_of m (fst (player_columns_list ! i)) = Some v"
proof -
  define bs where "bs = concat (map GetColumnBinds player_sets)"
  have t: "model_binds = id_binds @ bs" by (simp add: tail_binds bs_def)
  have n: "map fst bs = map fst player_columns_list"
    using model_names by (simp add: t id_binds_def)
  then have l: "length bs = length player_columns_list" by (metis length_map)
  have "bs ! i \<in> set model_binds" using assms l unfolding t by simp
  then have "row_of m (fst (bs ! i)) = Some (member_value (snd (bs ! i)) m)"
    by (metis row_of_bind prod.collapse)
  moreover have "fst (bs ! i) = fst (player_columns_list ! i)"
    using n assms l by (metis nth_map)
  moreover have "BindColumns m 0 player_sets ! i = (i, member_value (snd (bs ! i)) m)"
    using assms l by (simp only: BindColumns_binds Let_def bs_def [symmetric]) simp
  ultimately show ?thesis by simp
qed

text \<open>The commands that write a player agree with the parameters bound to them: the
  table has 21 columns beside the identifier, parameter \<open>i\<close> of an insert or update is the
  member behind the \<open>i\<close>-th column name of the command, and an update binds the identifier to
  the one place left, in its WHERE clause.\<close>

theorem statement_parameters:
  "\<exists>cols. GetAllColumnDefinitions Sqlite player_sets = Inr cols \<and> length cols = 21
    \<and> length (BindColumns m 0 player_sets) = length cols
    \<and> list_all (\<lambda>i. fst (BindColumns m 0 player_sets ! i) = i
         \<and> row_of m (fst (cols ! i)) = Some (snd (BindColumns m 0 player_sets ! i))) [0..<length cols]
    \<and> BindColumns m (length cols) [IDColumnSet] = [(length cols, Sql_int (model_id m))]"
proof -
  have n: "length (concat (map GetColumnBinds player_sets)) = 21" by (simp add: binds_defs)
  have l: "length player_columns_list = 21" by (simp add: player_columns_list_def definitions_defs)
  have "length (BindColumns m 0 player_sets) = length player_columns_list"
    by (simp only: BindColumns_binds Let_def length_zip length_upt length_map n l)
  moreover have "list_all (\<lambda>i. fst (BindColumns m 0 player_sets ! i) = i
         \<and> row_of m (fst (player_columns_list ! i)) = Some (snd (BindColumns m 0 player_sets ! i)))
       [0..<length player_columns_list]"
    unfolding list_all_iff using insert_parameter [of _ m] by fastforce
  ultimately show ?thesis
    using l all_definitions(1) id_parameter [of m "length player_columns_list"]
    by (intro exI [of _ player_columns_list] conjI)
qed

lemma BindFields_copy:
  "BindFields (row_of m) cs x = fold (\<lambda>(n, mem). member_store mem (member_value mem m)) (GetColumnBinds cs) x"
proof -
  have "set (GetColumnBinds cs) \<subseteq> set model_binds"
    by (cases cs) (auto simp: model_binds_def)
  then have "\<forall>(n, mem) \<in> set (GetColumnBinds cs). row_of m n = Some (member_value mem m)"
    using row_of_bind by fastforce
  then show ?thesis
    unfolding BindFields_def by (intro fold_cong) auto
qed

lemma BindFields_row:
  "BindFields (row_of m) IDColumnSet x = x\<lparr>model_id := model_id m\<rparr>"
  "BindFields (row_of m) PlayerColumnSet x = x\<lparr>account := account m\<rparr>"
  "BindFields (row_of m) AppearanceColumnSet x = x\<lparr>looks := looks m\<rparr>"
  "BindFields (row_of m) SkillsColumnSet x = x\<lparr>skills := skills m\<rparr>"
  "BindFields (row_of m) WorldTileColumnSet x = x\<lparr>tile := tile m\<rparr>"
  by (cases x, cases "account m", cases "looks m", cases "skills m", cases "tile m",
      simp add: BindFields_copy binds_defs)+

lemma bind_record_row: "bind_record (row_of m) = m"
  by (cases m) (simp add: bind_record_def BindFields_row new_player_model_def)

text \<open>A player that is read back from the row it was written to is the player that
  was saved: every one of its 22 columns is found under its name and stored in its member.\<close>

lemma row_roundtrip: "bind_record (row_of m) = m"
  by (rule bind_record_row)

text \<open>With the MySQL backend no table operation works: each throws before the
  database sees a command, since no column set has definitions for it.\<close>

lemma mysql_not_implemented:
  "CreateModelTable Mysql db s = (Inl (Logic_error ''Not implemented.''), s)
   \<and> Save Mysql db m s = (Inl (Logic_error ''Not implemented.''), s)
   \<and> Select Mysql db out s = (Inl (Logic_error ''Not implemented.''), s)
   \<and> SelectWhere Mysql db f v out s = (Inl (Logic_error ''Not implemented.''), s)"
  by (simp add: CreateModelTable_def Save_def Insert_def Update_def Select_def SelectWhere_def)

end
