(* ===== verification/Sockets.thy ===== *)
theory Sockets
  imports Buffer "HOL-Library.Multiset"
begin

text \<open>
  Sockets (\<open>net/io/socket.h\<close>, \<open>net/io/socket.cpp\<close>). The system calls are the environment: the
  list of the results the next calls return. A socket object owns its descriptor, or holds
  \<open>kInvalidSocketId\<close>; it can be moved but not copied. Time is a number of milliseconds.
\<close>

datatype errno = EBADF | EINVAL | ECONNRESET | ENXIO | EPIPE | EDQUOT | EFBIG | EIO | ENETDOWN
  | ENETUNREACH | ENOSPC | EINTR | EAGAIN | Other_errno

definition kInvalidSocketId :: int where
  "kInvalidSocketId = -1"

definition kMaxClients :: nat where
  "kMaxClients = 2000"

record data_socket =
  socketId :: int
  last_active :: nat

definition new_socket :: "int \<Rightarrow> nat \<Rightarrow> data_socket" where
  "new_socket s now = \<lparr>socketId = s, last_active = now\<rparr>"

section \<open>Ownership\<close>

text \<open>\<open>close\<close>: the result of the system call, and the descriptor afterwards. Descriptors that the
  kernel has been asked to close are recorded.\<close>

fun close_fault :: "errno \<Rightarrow> fault option" where
  "close_fault EBADF = Some (Logic_error ''close: EBADF'')"
| "close_fault EIO = Some (Runtime_error ''close: EIO'')"
| "close_fault EINTR = None"
| "close_fault _ = Some (Runtime_error ''close: ???'')"

definition close_socket :: "errno option \<Rightarrow> int \<Rightarrow> int res \<times> int list" where
  "close_socket result s =
     (if s = kInvalidSocketId
      then (Inl (Logic_error ''close called on a bad socket object (this object was moved)''), [])
      else (case Option.bind result close_fault of
              Some e \<Rightarrow> (Inl e, [s])
            | None \<Rightarrow> (Inr kInvalidSocketId, [s])))"

text \<open>The destructor closes a socket that is still open and swallows what \<open>close\<close> throws.\<close>

definition destroy_socket :: "errno option \<Rightarrow> int \<Rightarrow> int list" where
  "destroy_socket result s = (if s = kInvalidSocketId then [] else snd (close_socket result s))"

definition swap_sockets :: "int \<Rightarrow> int \<Rightarrow> int \<times> int" where
  "swap_sockets a b = (b, a)"

text \<open>\<open>BaseSocket(BaseSocket&&)\<close> and \<open>operator=(BaseSocket&&)\<close>: the new value of the object and
  that of the source.\<close>

definition move_construct :: "int \<Rightarrow> int \<times> int" where
  "move_construct source = (case swap_sockets source kInvalidSocketId of (s, t) \<Rightarrow> (t, s))"

definition move_assign :: "int \<Rightarrow> int \<Rightarrow> int \<times> int" where
  "move_assign target source = (case swap_sockets source target of (s, t) \<Rightarrow> (t, s))"

section \<open>Reading\<close>

datatype read_result = Got "u8 list" | Read_failed

text \<open>\<open>::read\<close> of at most \<open>n\<close> bytes; what it does not take stays for the next call. No more
  results means that the call would block, which fails on a non-blocking socket.\<close>

fun sys_read :: "nat \<Rightarrow> read_result list \<Rightarrow> u8 list option \<times> read_result list" where
  "sys_read n [] = (None, [])"
| "sys_read n (Read_failed # rs) = (None, rs)"
| "sys_read n (Got bs # rs) = (if length bs \<le> n then (Some bs, rs) else (Some (take n bs), Got (drop n bs) # rs))"

function read_data :: "nat \<Rightarrow> u8 list \<Rightarrow> read_result list \<Rightarrow> u8 list option \<times> read_result list" where
  "read_data kDataMax dat rs =
     (if length dat < kDataMax
      then (case sys_read (kDataMax - length dat) rs of
              (None, rs) \<Rightarrow> (if 0 < length dat then (Some dat, rs) else (None, rs))
            | (Some bs, rs) \<Rightarrow> if bs = [] then (Some dat, rs) else read_data kDataMax (dat @ bs) rs)
      else (Some dat, rs))"
  by pat_completeness auto
termination
  by (relation "measure (\<lambda>(m, d, rs). m - length d)") (auto simp flip: length_greater_0_conv)

declare read_data.simps [simp del]

text \<open>\<open>getMessageData\<close>: -1, as \<open>None\<close>, when the first read fails; then the time of the last
  activity stays.\<close>

definition getMessageData :: "nat \<Rightarrow> nat \<Rightarrow> read_result list \<Rightarrow> data_socket
    \<Rightarrow> u8 list option \<times> read_result list \<times> data_socket" where
  "getMessageData now kDataMax rs s =
     (case read_data kDataMax [] rs of
        (None, rs) \<Rightarrow> (None, rs, s)
      | (Some dat, rs) \<Rightarrow> (Some dat, rs, s\<lparr>last_active := now\<rparr>))"

section \<open>Writing\<close>

datatype write_result = Wrote nat | Write_failed errno

text \<open>The loop goes on for as long as the kernel says so: \<open>None\<close> when the results run out before
  all is written. \<open>::write\<close> is given what starts at \<open>dataWritten\<close>, and takes no more of it than there
  is; \<open>sent\<close> is what the peer has been handed so far.\<close>

fun write_fault :: "errno \<Rightarrow> fault option" where
  "write_fault EINTR = None"
| "write_fault EAGAIN = None"
| "write_fault EINVAL = Some (Logic_error ''write: critical error'')"
| "write_fault EBADF = Some (Logic_error ''write: critical error'')"
| "write_fault ECONNRESET = Some (Logic_error ''write: critical error'')"
| "write_fault ENXIO = Some (Logic_error ''write: critical error'')"
| "write_fault EPIPE = Some (Logic_error ''write: critical error'')"
| "write_fault Other_errno = Some (Runtime_error ''write: returned -1'')"
| "write_fault _ = Some (Runtime_error ''write: resource failure'')"

fun write_data :: "u8 list \<Rightarrow> nat \<Rightarrow> u8 list \<Rightarrow> write_result list \<Rightarrow> (u8 list \<times> write_result list) res option" where
  "write_data dat dataWritten sent ws =
     (if dataWritten < length dat
      then (case ws of
              [] \<Rightarrow> None
            | Wrote n # ws \<Rightarrow>
                let put = take n (drop dataWritten dat)
                in write_data dat (dataWritten + length put) (sent @ put) ws
            | Write_failed e # ws \<Rightarrow>
                (case write_fault e of
                   Some f \<Rightarrow> Some (Inl f)
                 | None \<Rightarrow> write_data dat dataWritten sent ws))
      else Some (Inr (sent, ws)))"

declare write_data.simps [simp del]

text \<open>What the peer receives, the results left, and the socket.\<close>

definition putMessageData :: "nat \<Rightarrow> u8 list \<Rightarrow> write_result list \<Rightarrow> data_socket
    \<Rightarrow> (u8 list \<times> write_result list \<times> data_socket) res option" where
  "putMessageData now dat ws s =
     (case write_data dat 0 [] ws of
        None \<Rightarrow> None
      | Some (Inl e) \<Rightarrow> Some (Inl e)
      | Some (Inr (out, ws)) \<Rightarrow> Some (Inr (out, ws, if 0 < length dat then s\<lparr>last_active := now\<rparr> else s)))"

definition putMessageClose :: "errno option \<Rightarrow> unit res" where
  "putMessageClose result =
     (case result of None \<Rightarrow> Inr () | Some _ \<Rightarrow> Inl (Logic_error ''shutdown: critical error''))"

section \<open>Server and client sockets\<close>

text \<open>The constructors: the descriptor that \<open>::socket\<close> gives is not checked; it is closed when a
  later call fails. A closed object is destroyed by the exception that leaves its constructor.\<close>

definition fail_closed :: "errno option \<Rightarrow> int \<Rightarrow> string \<Rightarrow> int res \<times> int list" where
  "fail_closed close_result s message =
     (case close_socket close_result s of
        (Inl e, closed) \<Rightarrow> (Inl e, closed)
      | (Inr _, closed) \<Rightarrow> (Inl (Runtime_error message), closed))"

definition ServerSocket :: "int \<Rightarrow> bool \<Rightarrow> bool \<Rightarrow> errno option \<Rightarrow> int res \<times> int list" where
  "ServerSocket s bound listening close_result =
     (if \<not> bound then fail_closed close_result s ''bind''
      else if \<not> listening then fail_closed close_result s ''listen''
      else (Inr s, []))"

definition ConnectSocket :: "int \<Rightarrow> string option \<Rightarrow> errno option \<Rightarrow> int res \<times> int list" where
  "ConnectSocket s connect_error close_result =
     (case connect_error of
        Some m \<Rightarrow> fail_closed close_result s (''connect: '' @ m)
      | None \<Rightarrow> (Inr s, []))"

definition accept_socket :: "int \<Rightarrow> (int + string) \<Rightarrow> bool \<Rightarrow> nat \<Rightarrow> data_socket res" where
  "accept_socket server accepted nonblocking now =
     (if server = kInvalidSocketId
      then Inl (Logic_error ''accept called on a bad socket object (this object was moved)'')
      else (case accepted of
              Inr m \<Rightarrow> Inl (Runtime_error (''accept: '' @ m))
            | Inl s \<Rightarrow> if \<not> nonblocking then Inl (Runtime_error ''fcntl'') else Inr (new_socket s now)))"

section \<open>Properties\<close>

text \<open>The bytes the kernel has for the socket before a failure or the end of the stream.\<close>

fun readable :: "read_result list \<Rightarrow> u8 list" where
  "readable [] = []"
| "readable (Read_failed # rs) = []"
| "readable (Got bs # rs) = (if bs = [] then [] else bs @ readable rs)"

lemma read_data_readable:
  assumes "length dat \<le> m"
  shows "case read_data m dat rs of
      (None, rs') \<Rightarrow> dat = [] \<and> readable rs = []
    | (Some d, rs') \<Rightarrow> d = take m (dat @ readable rs)"
  using assms
proof (induction m dat rs rule: read_data.induct)
  case (1 m dat rs)
  show ?case
  proof (cases "length dat < m")
    case False
    then show ?thesis using "1.prems" by (simp add: read_data.simps)
  next
    case True
    show ?thesis
    proof (cases rs)
      case Nil
      then show ?thesis using True by (simp add: read_data.simps)
    next
      case (Cons r rs')
      show ?thesis
      proof (cases r)
        case Read_failed
        then show ?thesis using True Cons by (simp add: read_data.simps)
      next
        case (Got bs)
        show ?thesis
        proof (cases "bs = []")
          case True
          then show ?thesis using \<open>length dat < m\<close> Cons Got by (simp add: read_data.simps)
        next
          case False
          show ?thesis
          proof (cases "length bs \<le> m - length dat")
            case True
            have "case read_data m (dat @ bs) rs' of (None, _) \<Rightarrow> dat @ bs = [] \<and> readable rs' = []
                | (Some d, _) \<Rightarrow> d = take m ((dat @ bs) @ readable rs')"
              by (rule "1.IH" [OF \<open>length dat < m\<close> _ refl False]) (use \<open>length dat < m\<close> Cons Got True in simp_all)
            then show ?thesis
              using \<open>length dat < m\<close> Cons Got False True by (simp add: read_data.simps [of m dat] False split: prod.splits option.splits)
          next
            case ge: False
            let ?t = "take (m - length dat) bs"
            have ne: "?t \<noteq> []" using ge \<open>length dat < m\<close> False by auto
            have full: "read_data m (dat @ ?t) xs = (Some (dat @ ?t), xs)" for xs
            proof -
              have "length (dat @ ?t) = m" using ge \<open>length dat < m\<close> by simp
              then show ?thesis unfolding read_data.simps [of m "dat @ ?t"] by (simp only: less_irrefl if_False)
            qed
            show ?thesis
              using \<open>length dat < m\<close> Cons Got False ge ne full by (simp add: read_data.simps [of m dat])
          qed
        qed
      qed
    qed
  qed
qed

lemma write_data_all:
  "write_data dat k sent ws = Some (Inr (out, ws')) \<Longrightarrow> sent = take k dat \<Longrightarrow> k \<le> length dat \<Longrightarrow> out = dat"
proof (induction dat k sent ws rule: write_data.induct)
  case (1 dat k sent ws)
  show ?case
  proof (cases "k < length dat")
    case True
    show ?thesis
    proof (cases ws)
      case Nil
      then show ?thesis using True 1 by (simp add: write_data.simps [of dat k])
    next
      case (Cons w rest)
      show ?thesis
      proof (cases w)
        case (Wrote n)
        let ?put = "take n (drop k dat)"
        have "take k dat @ ?put = take (k + length ?put) dat" by (simp add: take_add [symmetric] min_def)
        then show ?thesis
          using True 1 Cons Wrote by (simp add: write_data.simps [of dat k] Let_def)
      next
        case (Write_failed e)
        then show ?thesis using True 1 Cons by (auto simp: write_data.simps [of dat k] split: option.splits)
      qed
    qed
  next
    case False
    then have "k = length dat" using "1.prems" by simp
    then show ?thesis using "1.prems" write_data.simps [of dat "length dat" sent ws] by simp
  qed
qed

text \<open>Moving keeps the number of open descriptors: what one object loses the other gains.\<close>

lemma move_keeps: "mset [fst (move_assign a b), snd (move_assign a b)] = mset [a, b]"
  by (simp add: move_assign_def swap_sockets_def add_mset_commute)

lemma moved_from_closed: "destroy_socket r (snd (move_construct s)) = []"
  by (simp add: move_construct_def swap_sockets_def destroy_socket_def)

end
