(* ===== verification/Packets.thy ===== *)
theory Packets
  imports Buffer
begin

text \<open>
  Packets (\<open>net/codec/packet.h\<close>): a type and a buffer of data. A packet is created with an
  indeterminate type and empty data; every use below sets the type before it is read, and the
  model starts from \<open>kUnknown\<close>.
\<close>

datatype PacketType =
    kUnknown | kHandshake | kLogin | kLoginWorld | kLoginLobby | kClientOutdated | kStartUp
   | kGrabCache | kServerShuttingDown | kErrorSession | kErrorInvalidLogin
   | kErrorInvalidLoginServer | kLoginDetails | kInterfaceWindowPane | kInterfaceTab
   | kInterfaceComponentAnimation | kInterfaceComponentText | kInterfaceComponentSetting
   | kInterfaceHide | kConfig1 | kConfig2 | kConfigGlobal1 | kConfigGlobal2 | kConfigFile1
   | kConfigFile2 | kConfigGameBarPrivate | kConfigGameBarOther | kMapRegion
   | kDynamicMapRegion | kLocalPlayerUpdate | kScreen | kPing | kAFK | kFinishedLoadingRegion
   | kReceivedPacketCount | kRunEnergy | kPlayerOption | kItemLook | kCustomPacket161
   | kMessage | kCreateTile | kMusic | kMusicEffect | kPlayerSkill | kActionButton1
   | kActionButton2 | kActionButton3 | kActionButton4 | kActionButton5 | kActionButton6
   | kActionButton7 | kActionButton8 | kActionButton9

record packet =
  packet_type :: PacketType
  packet_data :: buffer

definition new_packet :: packet where
  "new_packet = \<lparr>packet_type = kUnknown, packet_data = empty_buffer\<rparr>"

definition make_packet :: "PacketType \<Rightarrow> buffer \<Rightarrow> packet" where
  "make_packet t b = \<lparr>packet_type = t, packet_data = b\<rparr>"

text \<open>\<open>PacketOpCode::kNone\<close>: the code of packets that are sent without one.\<close>

definition no_code :: u8 where
  "no_code = 255"

lemma make_packet_sel [simp]:
  "packet_type (make_packet t b) = t" "packet_data (make_packet t b) = b"
  by (simp_all add: make_packet_def)

lemma put_bytes_Nil [simp]: "put_bytes [] b = b"
  by (simp add: put_bytes_def)

end
