(* ===== verification/Encoders.thy ===== *)
theory Encoders
  imports Packets
begin

text \<open>
  The encoders of the four states of a session (\<open>net/codec/encoder/global/*\<close>): what a packet
  looks like on the wire. An encoder returns \<open>false\<close> for a type it has no code for; then it
  has written nothing. The derived encoders fall back to the base encoder.
\<close>

definition Encoder_codes :: "(PacketType \<times> u8) list" where
  "Encoder_codes = [(kClientOutdated, 6)]"

definition GrabEncoder_codes :: "(PacketType \<times> u8) list" where
  "GrabEncoder_codes = [(kStartUp, 0), (kGrabCache, no_code)]"

definition LoginEncoder_codes :: "(PacketType \<times> u8) list" where
  "LoginEncoder_codes =
    [(kStartUp, 0), (kErrorSession, 10), (kErrorInvalidLogin, 3), (kErrorInvalidLoginServer, 20)]"

datatype header_type = Header_none | Header_u8 | Header_u16

definition WorldEncoder_codes :: "(PacketType \<times> u8) list" where
  "WorldEncoder_codes =
    [(kLoginDetails, 2), (kMusicEffect, 9), (kInterfaceTab, 14), (kRunEnergy, 25),
     (kInterfaceWindowPane, 39), (kInterfaceComponentSetting, 40), (kMapRegion, 42),
     (kConfig2, 56), (kConfigGlobal2, 63), (kConfigGameBarPrivate, 75), (kConfigFile2, 81),
     (kConfigGameBarOther, 89), (kLocalPlayerUpdate, 96), (kInterfaceComponentAnimation, 103),
     (kConfig1, 110), (kConfigFile1, 111), (kInterfaceHide, 112), (kPlayerOption, 118),
     (kMusic, 129), (kInterfaceComponentText, 135), (kMessage, 136), (kDynamicMapRegion, 144),
     (kPlayerSkill, 146), (kPing, 153), (kConfigGlobal1, 154), (kCreateTile, 158),
     (kItemLook, 159), (kCustomPacket161, 161)]"

definition type_mapping :: "(PacketType \<times> header_type) list" where
  "type_mapping =
    [(kLoginDetails, Header_u8), (kMusicEffect, Header_none), (kInterfaceTab, Header_none),
     (kRunEnergy, Header_none), (kInterfaceWindowPane, Header_none),
     (kInterfaceComponentSetting, Header_none), (kMapRegion, Header_u16),
     (kConfig2, Header_none), (kConfigGlobal2, Header_none),
     (kConfigGameBarPrivate, Header_none), (kConfigFile2, Header_none),
     (kConfigGameBarOther, Header_none), (kLocalPlayerUpdate, Header_u16),
     (kInterfaceComponentAnimation, Header_none), (kConfig1, Header_none),
     (kConfigFile1, Header_none), (kInterfaceHide, Header_none), (kPlayerOption, Header_u8),
     (kMusic, Header_none), (kInterfaceComponentText, Header_u16), (kMessage, Header_u8),
     (kDynamicMapRegion, Header_u16), (kPlayerSkill, Header_none),
     (kConfigGlobal1, Header_none), (kPing, Header_none), (kCreateTile, Header_none),
     (kItemLook, Header_none), (kCustomPacket161, Header_none)]"

text \<open>The data follow the code; an empty vector appends nothing either way.\<close>

definition put_packet_data :: "packet \<Rightarrow> buffer \<Rightarrow> buffer" where
  "put_packet_data p b =
     (if buf_size (packet_data p) \<noteq> 0 then put_bytes (bytes (packet_data p)) b else b)"

definition Encoder_Encode :: "packet \<Rightarrow> buffer \<Rightarrow> bool \<times> buffer" where
  "Encoder_Encode p b =
     (case map_of Encoder_codes (packet_type p) of
        None \<Rightarrow> (False, b)
      | Some c \<Rightarrow> (True, put_packet_data p (if c \<noteq> no_code then put_bytes [c] b else b)))"

definition GrabEncoder_Encode :: "packet \<Rightarrow> buffer \<Rightarrow> bool \<times> buffer" where
  "GrabEncoder_Encode p b =
     (case map_of GrabEncoder_codes (packet_type p) of
        None \<Rightarrow> Encoder_Encode p b
      | Some c \<Rightarrow> (True, put_packet_data p (if c \<noteq> no_code then put_bytes [c] b else b)))"

definition LoginEncoder_Encode :: "packet \<Rightarrow> buffer \<Rightarrow> bool \<times> buffer" where
  "LoginEncoder_Encode p b =
     (case map_of LoginEncoder_codes (packet_type p) of
        None \<Rightarrow> Encoder_Encode p b
      | Some c \<Rightarrow> (True, put_packet_data p (if c \<noteq> no_code then put_bytes [c] b else b)))"

text \<open>The code is an 8-bit value, so \<open>code >> 8\<close> is 0 and a code from 128 on is preceded by 128.\<close>

definition put_code :: "u8 \<Rightarrow> buffer \<Rightarrow> buffer" where
  "put_code c b =
     (if c \<noteq> no_code
      then (if 128 \<le> c then put_data c (put_data ((ucast (drop_bit 8 c) :: u8) + 128) b) else put_data c b)
      else b)"

fun put_header :: "header_type \<Rightarrow> packet \<Rightarrow> buffer \<Rightarrow> buffer" where
  "put_header Header_u16 p b = put_data_be (of_nat (buf_size (packet_data p)) :: u16) b"
| "put_header Header_u8 p b = put_data_be (of_nat (buf_size (packet_data p)) :: u8) b"
| "put_header Header_none p b = b"

text \<open>\<open>type_mapping_.find\<close> is dereferenced without a check; both tables have the same keys.\<close>

definition WorldEncoder_Encode :: "packet \<Rightarrow> buffer \<Rightarrow> bool \<times> buffer" where
  "WorldEncoder_Encode p b =
     (case map_of WorldEncoder_codes (packet_type p) of
        None \<Rightarrow> Encoder_Encode p b
      | Some c \<Rightarrow>
          (True, put_packet_data p (put_header (the (map_of type_mapping (packet_type p))) p (put_code c b))))"

text \<open>The encoder of a session is a pointer to one of four objects.\<close>

datatype encoder = Base_encoder | Grab_encoder | Login_encoder | World_encoder

fun Encode :: "encoder \<Rightarrow> packet \<Rightarrow> buffer \<Rightarrow> bool \<times> buffer" where
  "Encode Base_encoder = Encoder_Encode"
| "Encode Grab_encoder = GrabEncoder_Encode"
| "Encode Login_encoder = LoginEncoder_Encode"
| "Encode World_encoder = WorldEncoder_Encode"

section \<open>The contract of an encoder\<close>

text \<open>An encoder appends the image of the packet to the buffer, or refuses it and writes nothing.
  A sender may therefore encode packets one by one into buffers of their own and append them.\<close>

locale packet_encoder =
  fixes encode :: "packet \<Rightarrow> buffer \<Rightarrow> bool \<times> buffer"
    and image :: "packet \<Rightarrow> u8 list option"
  assumes accepted: "image p = Some bs \<Longrightarrow> encode p b = (True, put_bytes bs b)"
    and refused: "image p = None \<Longrightarrow> encode p b = (False, b)"
begin

definition wire :: "packet \<Rightarrow> u8 list" where
  "wire p = (case image p of None \<Rightarrow> [] | Some bs \<Rightarrow> bs)"

lemma appends: "snd (encode p b) = put_bytes (wire p) b"
  by (cases "image p") (simp_all add: wire_def accepted refused put_bytes_def)

lemma verdict: "fst (encode p b) \<longleftrightarrow> image p \<noteq> None"
  by (cases "image p") (simp_all add: accepted refused)

lemma alone: "bytes (snd (encode p empty_buffer)) = wire p"
  by (simp add: appends empty_buffer_def)

lemma stream: "snd (encode p b) = put_bytes (bytes (snd (encode p empty_buffer))) b"
  unfolding alone by (rule appends)

lemma many: "fold (\<lambda>p b. snd (encode p b)) ps b = put_bytes (concat (map wire ps)) b"
  by (induction ps arbitrary: b) (simp_all add: appends put_bytes_def)

end

definition coded :: "(PacketType \<times> u8) list \<Rightarrow> packet \<Rightarrow> u8 list option" where
  "coded codes p = map_option (\<lambda>c. (if c \<noteq> no_code then [c] else []) @ bytes (packet_data p))
     (map_of codes (packet_type p))"

definition or_else :: "'a option \<Rightarrow> 'a option \<Rightarrow> 'a option" where
  "or_else x y = (case x of None \<Rightarrow> y | Some _ \<Rightarrow> x)"

definition code_bytes :: "u8 \<Rightarrow> u8 list" where
  "code_bytes c = (if c = no_code then [] else if 128 \<le> c then [128, c] else [c])"

fun header_bytes :: "header_type \<Rightarrow> nat \<Rightarrow> u8 list" where
  "header_bytes Header_u16 n = be_bytes (of_nat n :: u16)"
| "header_bytes Header_u8 n = [of_nat n]"
| "header_bytes Header_none n = []"

definition world_image :: "packet \<Rightarrow> u8 list option" where
  "world_image p = map_option (\<lambda>c. code_bytes c
       @ header_bytes (the (map_of type_mapping (packet_type p))) (buf_size (packet_data p))
       @ bytes (packet_data p)) (map_of WorldEncoder_codes (packet_type p))"

lemma put_packet_data_put_bytes [simp]: "put_packet_data p b = put_bytes (bytes (packet_data p)) b"
  by (simp add: put_packet_data_def put_bytes_def)

lemma put_code_put_bytes [simp]: "put_code c b = put_bytes (code_bytes c) b"
proof -
  have "drop_bit 8 c = 0" by (rule bit_word_eqI) (auto simp: bit_drop_bit_eq dest: bit_imp_le_length)
  then show ?thesis by (simp add: put_code_def code_bytes_def put_bytes_def)
qed

lemma put_header_put_bytes [simp]:
  "put_header t p b = put_bytes (header_bytes t (buf_size (packet_data p))) b"
  by (cases t) (simp_all add: put_data_be_u16)

interpretation base_encoder: packet_encoder Encoder_Encode "coded Encoder_codes"
  by unfold_locales
    (auto simp: Encoder_Encode_def coded_def put_bytes_def split: option.splits)

interpretation grab_encoder: packet_encoder GrabEncoder_Encode
    "\<lambda>p. or_else (coded GrabEncoder_codes p) (coded Encoder_codes p)"
  by unfold_locales
    (auto simp: GrabEncoder_Encode_def coded_def or_else_def put_bytes_def base_encoder.accepted
      base_encoder.refused split: option.splits)

interpretation login_encoder: packet_encoder LoginEncoder_Encode
    "\<lambda>p. or_else (coded LoginEncoder_codes p) (coded Encoder_codes p)"
  by unfold_locales
    (auto simp: LoginEncoder_Encode_def coded_def or_else_def put_bytes_def base_encoder.accepted
      base_encoder.refused split: option.splits)

interpretation world_encoder: packet_encoder WorldEncoder_Encode
    "\<lambda>p. or_else (world_image p) (coded Encoder_codes p)"
  by unfold_locales
    (auto simp: WorldEncoder_Encode_def world_image_def coded_def or_else_def base_encoder.accepted
      base_encoder.refused split: option.splits)

fun wire_image :: "encoder \<Rightarrow> packet \<Rightarrow> u8 list option" where
  "wire_image Base_encoder p = coded Encoder_codes p"
| "wire_image Grab_encoder p = or_else (coded GrabEncoder_codes p) (coded Encoder_codes p)"
| "wire_image Login_encoder p = or_else (coded LoginEncoder_codes p) (coded Encoder_codes p)"
| "wire_image World_encoder p = or_else (world_image p) (coded Encoder_codes p)"

interpretation encoder: packet_encoder "Encode e" "wire_image e" for e
  by (cases e; unfold_locales)
    (simp_all add: base_encoder.accepted base_encoder.refused grab_encoder.accepted grab_encoder.refused
      login_encoder.accepted login_encoder.refused world_encoder.accepted world_encoder.refused)

end
