(* ===== verification/Decoders.thy ===== *)
theory Decoders
  imports Packets
begin

text \<open>
  The decoders of the four states of a session (\<open>net/codec/decoder/global/*\<close>): they take one
  packet off the front of the unread input. A decoder returns whether it has found a packet;
  on failure the bytes it has read stay read. Iterators into the vector are indices here.
\<close>

definition Decoder_codes :: "(u8 \<times> PacketType) list" where
  "Decoder_codes = [(15, kHandshake), (14, kLogin), (6, kGrabCache)]"

definition LoginDecoder_codes :: "(u8 \<times> PacketType) list" where
  "LoginDecoder_codes = [(16, kLoginWorld), (18, kLoginWorld), (19, kLoginLobby)]"

definition WorldDecoder_codes :: "(u8 \<times> PacketType) list" where
  "WorldDecoder_codes =
    [(5, kActionButton3), (6, kActionButton7), (14, kActionButton1), (16, kAFK), (21, kPing),
     (27, kActionButton9), (30, kFinishedLoadingRegion), (32, kActionButton8),
     (33, kReceivedPacketCount), (39, kUnknown), (55, kActionButton4), (67, kActionButton2),
     (68, kActionButton5), (90, kActionButton6), (98, kScreen)]"

text \<open>The size of the data of each packet; -1, -2 and -3 stand for a size in the packet itself.\<close>

definition packet_sizes :: "(PacketType \<times> int) list" where
  "packet_sizes =
    [(kActionButton3, 8), (kActionButton7, 8), (kActionButton1, 8), (kAFK, 2), (kPing, 0),
     (kActionButton9, 8), (kFinishedLoadingRegion, 0), (kActionButton8, 8),
     (kReceivedPacketCount, 4), (kUnknown, 4), (kActionButton4, 8), (kActionButton2, 8),
     (kActionButton5, 8), (kActionButton6, 8), (kScreen, 6)]"

type_synonym decoding = "(bool \<times> packet \<times> buffer) res"

text \<open>\<open>packet->data.assign\<close> of the \<open>n\<close> bytes from the position on.\<close>

definition assign_data :: "nat \<Rightarrow> buffer \<Rightarrow> packet \<Rightarrow> packet" where
  "assign_data n b p = p\<lparr>packet_data := (packet_data p)\<lparr>bytes := take n (unread b)\<rparr>\<rparr>"

definition skip_data :: "packet \<Rightarrow> buffer \<Rightarrow> buffer" where
  "skip_data p b = seek Seek_cur (buf_size (packet_data p)) b"

definition Decoder_Decode :: "buffer \<Rightarrow> packet \<Rightarrow> decoding" where
  "Decoder_Decode b p =
     if_get_u8 b (Inr (False, p, b)) (\<lambda>code b.
       case map_of Decoder_codes code of
         None \<Rightarrow> Inr (False, p, b)
       | Some t \<Rightarrow>
           let p = p\<lparr>packet_type := t\<rparr>
           in if 0 < remaining b
              then if_get_u8 b (Inr (False, p, b)) (\<lambda>kSize b.
                let cbegin = position b; cend = cbegin + unat kSize
                in if buf_size b \<le> cbegin \<or> buf_size b < cend then Inr (False, p, b)
                   else let p = assign_data (unat kSize) b p in Inr (True, p, skip_data p b))
              else Inr (True, p, b))"

text \<open>The grab decoder copies the whole vector, from its start, and skips as many bytes.\<close>

definition GrabDecoder_Decode :: "buffer \<Rightarrow> packet \<Rightarrow> decoding" where
  "GrabDecoder_Decode b p =
     (if remaining b < 6 then Inr (False, p, b)
      else if buf_size b \<le> position b then Inl Out_of_range
      else if 7 < bytes b ! position b then Inr (False, p, b)
      else let p = p\<lparr>packet_type := kGrabCache, packet_data := (packet_data p)\<lparr>bytes := bytes b\<rparr>\<rparr>
           in Inr (True, p, skip_data p b))"

text \<open>\<open>buffer.seek(SEEK_CUR, -1 * sizeof(uint8_t))\<close>: the offset wraps around to one back.\<close>

definition step_back :: "buffer \<Rightarrow> buffer" where
  "step_back b = seek Seek_cur (size_max - 1) b"

definition LoginDecoder_Decode :: "buffer \<Rightarrow> packet \<Rightarrow> decoding" where
  "LoginDecoder_Decode b p =
     if_get_u8 b (Inr (False, p, b)) (\<lambda>code b.
       case map_of LoginDecoder_codes code of
         None \<Rightarrow> Decoder_Decode (step_back b) p
       | Some t \<Rightarrow>
           let p = p\<lparr>packet_type := t\<rparr>
           in if 1 \<le> remaining b
              then let p = assign_data (buf_size b) b p in Inr (True, p, skip_data p b)
              else Inr (True, p, b))"

text \<open>The \<open>switch\<close> on the size has no \<open>break\<close>: each case falls through to the next, down to the
  default, where a negative size is a huge one.\<close>

definition sized_default :: "int \<Rightarrow> buffer \<Rightarrow> packet \<Rightarrow> decoding" where
  "sized_default kSize b p =
     (let p = assign_data (min (nat (kSize mod int size_max)) (remaining b)) b p
      in Inr (True, p, skip_data p b))"

definition sized_u32 :: "int \<Rightarrow> buffer \<Rightarrow> packet \<Rightarrow> decoding" where
  "sized_u32 kSize b p =
     if_get_u32 b (Inr (False, p, b)) (\<lambda>n b.
       sized_default kSize b (assign_data (min (unat (betoh n)) (remaining b)) b p))"

definition sized_u16 :: "int \<Rightarrow> buffer \<Rightarrow> packet \<Rightarrow> decoding" where
  "sized_u16 kSize b p =
     if_get_u16 b (Inr (False, p, b)) (\<lambda>n b.
       sized_u32 kSize b (assign_data (min (unat (betoh n)) (remaining b)) b p))"

definition sized_u8 :: "int \<Rightarrow> buffer \<Rightarrow> packet \<Rightarrow> decoding" where
  "sized_u8 kSize b p =
     if_get_u8 b (Inr (False, p, b)) (\<lambda>n b.
       sized_u16 kSize b (assign_data (min (unat n) (remaining b)) b p))"

definition sized :: "int \<Rightarrow> buffer \<Rightarrow> packet \<Rightarrow> decoding" where
  "sized kSize b p =
     (if kSize = -1 then sized_u8 kSize b p
      else if kSize = -2 then sized_u16 kSize b p
      else if kSize = -3 then sized_u32 kSize b p
      else sized_default kSize b p)"

definition WorldDecoder_Decode :: "buffer \<Rightarrow> packet \<Rightarrow> decoding" where
  "WorldDecoder_Decode b p =
     if_get_u8 b (Inr (False, p, b)) (\<lambda>code b.
       case map_of WorldDecoder_codes code of
         None \<Rightarrow> Decoder_Decode (step_back b) p
       | Some t \<Rightarrow>
           (case map_of packet_sizes t of
              None \<Rightarrow> Inr (False, p, b)
            | Some kSize \<Rightarrow> sized kSize b (p\<lparr>packet_type := t\<rparr>)))"

datatype decoder = Base_decoder | Grab_decoder | Login_decoder | World_decoder

fun Decode :: "decoder \<Rightarrow> buffer \<Rightarrow> packet \<Rightarrow> decoding" where
  "Decode Base_decoder = Decoder_Decode"
| "Decode Grab_decoder = GrabDecoder_Decode"
| "Decode Login_decoder = LoginDecoder_Decode"
| "Decode World_decoder = WorldDecoder_Decode"

section \<open>The contract of a decoder\<close>

text \<open>A decoder reads: it does not fault on a valid buffer and does not change the bytes, and a
  packet takes at least one of them. (A vector holds at most half of the address space.) All but the grab decoder stay within the buffer.\<close>

definition input_ok :: "buffer \<Rightarrow> bool" where
  "input_ok b \<longleftrightarrow> buf_ok b \<and> 2 * buf_size b < size_max"

lemma input_ok_buf_ok [intro]: "input_ok b \<Longrightarrow> buf_ok b"
  by (simp add: input_ok_def)

locale packet_decoder =
  fixes decode :: "buffer \<Rightarrow> packet \<Rightarrow> decoding"
  assumes total: "input_ok b \<Longrightarrow> \<exists>ok p' b'. decode b p = Inr (ok, p', b')"
    and keeps: "input_ok b \<Longrightarrow> decode b p = Inr (ok, p', b') \<Longrightarrow> bytes b' = bytes b"
    and progress: "input_ok b \<Longrightarrow> decode b p = Inr (True, p', b') \<Longrightarrow> position b < position b'"
begin

lemma faultless: "input_ok b \<Longrightarrow> decode b p \<noteq> Inl e"
  using total [of b p] by auto

end

locale bounded_decoder = packet_decoder +
  assumes stays: "input_ok b \<Longrightarrow> decode b p = Inr (ok, p', b') \<Longrightarrow> input_ok b'"
begin

text \<open>Decoding until a packet is refused or the input is used up, for at most \<open>n\<close> packets.\<close>

fun drain :: "nat \<Rightarrow> buffer \<Rightarrow> packet list \<times> buffer" where
  "drain 0 b = ([], b)"
| "drain (Suc n) b =
     (if unread b = [] then ([], b)
      else (case decode b new_packet of
              Inr (True, p, b') \<Rightarrow> (case drain n b' of (ps, c) \<Rightarrow> (p # ps, c))
            | Inr (False, _, b') \<Rightarrow> ([], b')
            | Inl _ \<Rightarrow> ([], b)))"

lemma unread_shrinks:
  "input_ok b \<Longrightarrow> decode b p = Inr (True, p', b') \<Longrightarrow> length (unread b') < length (unread b)"
  using progress [of b p p' b'] stays [of b p True p' b'] keeps [of b p True p' b']
  by (simp add: length_unread input_ok_def buf_ok_def)

lemma drain_enough:
  "input_ok b \<Longrightarrow> length (unread b) \<le> n \<Longrightarrow>
     drain n b = drain (length (unread b)) b \<and> length (fst (drain n b)) \<le> length (unread b)
     \<and> input_ok (snd (drain n b)) \<and> bytes (snd (drain n b)) = bytes b"
proof (induction "length (unread b)" arbitrary: n b rule: less_induct)
  case less
  show ?case
  proof (cases "unread b = []")
    case True
    then show ?thesis using less.prems by (cases n) auto
  next
    case False
    then obtain m l where n: "n = Suc m" and l: "length (unread b) = Suc l"
      using less.prems(2) by (cases n; cases "length (unread b)") auto
    obtain ok p b' where d: "decode b new_packet = Inr (ok, p, b')" using total less.prems(1) by blast
    show ?thesis
    proof (cases ok)
      case False
      then show ?thesis
        using d \<open>unread b \<noteq> []\<close> n l stays [OF less.prems(1) d] keeps [OF less.prems(1) d] by simp
    next
      case True
      then have d: "decode b new_packet = Inr (True, p, b')" using d by simp
      have sh: "length (unread b') < length (unread b)" by (rule unread_shrinks [OF less.prems(1) d])
      have ok': "input_ok b'" by (rule stays [OF less.prems(1) d])
      have "length (unread b') \<le> m" "length (unread b') \<le> l" using sh l n less.prems(2) by simp_all
      then show ?thesis
        using less.hyps [OF sh ok', of m] less.hyps [OF sh ok', of l] d \<open>unread b \<noteq> []\<close> n l
          keeps [OF less.prems(1) d]
        by (auto split: prod.splits)
    qed
  qed
qed

end

lemma seek_cur_ok:
  "buf_ok b \<Longrightarrow> n \<le> length (unread b) \<Longrightarrow> seek Seek_cur n b = advance n b"
  by (auto simp: advance_def buf_ok_def length_unread size_add_small)

lemma advance_ok: "buf_ok b \<Longrightarrow> n \<le> length (unread b) \<Longrightarrow> buf_ok (advance n b)"
  by (auto simp: advance_def buf_ok_def length_unread)

lemma unread_advanced [simp]: "unread (advance n b) = drop n (unread b)"
  by (simp only: advance_def unread_advance)

lemma step_back_advance [simp]:
  assumes "buf_ok b" "unread b \<noteq> []"
  shows "step_back (advance (Suc 0) b) = b"
proof -
  have "position b < size_max" using assms(1) by (simp add: buf_ok_def)
  then have "size_add (Suc (position b)) (size_max - 1) = position b"
    by (simp add: size_add_def size_max_def)
  then show ?thesis by (cases b) (simp add: step_back_def advance_def)
qed

lemma if_get_u8_ok:
  "buf_ok b \<Longrightarrow> if_get_u8 b no yes = (case unread b of [] \<Rightarrow> no | w # _ \<Rightarrow> yes w (advance 1 b))"
  by (cases "unread b") (simp_all add: if_get_u8_def if_get_unread advance_def)

text \<open>The outcome of a decoder that stays within the buffer.\<close>

definition sound_decoding :: "buffer \<Rightarrow> decoding \<Rightarrow> bool" where
  "sound_decoding b r = (case r of Inl _ \<Rightarrow> False
     | Inr (ok, p, b') \<Rightarrow> bytes b' = bytes b \<and> position b \<le> position b' \<and> position b' \<le> buf_size b
         \<and> (\<not> ok \<or> position b < position b'))"

lemma sound_skip:
  assumes "buf_ok b" "position c + k = position b" "bytes b = bytes c" "0 < k" "n \<le> length (unread b)"
    "buf_size (packet_data p) = n"
  shows "sound_decoding c (Inr (True, p, skip_data p b))"
proof -
  have "skip_data p b = advance n b" using seek_cur_ok [OF assms(1,5)] assms(6) by (simp add: skip_data_def)
  then show ?thesis using assms by (auto simp: sound_decoding_def length_unread buf_ok_def)
qed

lemma Decoder_sound:
  assumes "buf_ok b"
  shows "sound_decoding b (Decoder_Decode b p)"
proof (cases "unread b")
  case Nil
  then show ?thesis using assms by (simp add: Decoder_Decode_def if_get_u8_ok sound_decoding_def buf_ok_def)
next
  case (Cons c cs)
  let ?b = "advance 1 b"
  have b1: "buf_ok ?b" "unread ?b = cs" "position b < buf_size b"
    using assms Cons advance_ok [of b 1] length_unread [of b] by auto
  show ?thesis
  proof (cases "map_of Decoder_codes c")
    case None
    then show ?thesis using assms Cons b1 by (simp add: Decoder_Decode_def if_get_u8_ok sound_decoding_def)
  next
    case (Some t)
    show ?thesis
    proof (cases cs)
      case Nil
      then show ?thesis
        using assms Cons b1 Some by (simp add: Decoder_Decode_def if_get_u8_ok sound_decoding_def remaining_unread)
    next
      case (Cons n ds)
      let ?c = "advance 1 ?b"
      have u: "unread ?c = ds"
        using b1(2) Cons unread_advanced [of 1 ?b] by (simp del: advance_advance unread_advanced)
      then have b2: "buf_ok ?c" "unread ?c = ds" "position b + 2 \<le> buf_size b"
        using b1 Cons advance_ok [of ?b 1] length_unread [of ?b] by auto
      have l: "length ds = buf_size b - (position b + 2)" using length_unread [of ?c] unfolding u by simp
      have dec: "Decoder_Decode b p = (if buf_size b \<le> position b + 2 \<or> buf_size b < position b + 2 + unat n
          then Inr (False, p\<lparr>packet_type := t\<rparr>, ?c)
          else let q = assign_data (unat n) ?c (p\<lparr>packet_type := t\<rparr>) in Inr (True, q, skip_data q ?c))"
        using assms \<open>unread b = c # cs\<close> b1 Some Cons
        by (simp add: Decoder_Decode_def if_get_u8_ok remaining_unread Let_def)
      show ?thesis
      proof (cases "buf_size b \<le> position b + 2 \<or> buf_size b < position b + 2 + unat n")
        case True
        then show ?thesis unfolding dec using b2 by (simp add: sound_decoding_def)
      next
        case False
        then have "unat n \<le> length ds" using l by auto
        then show ?thesis
          unfolding dec Let_def if_not_P [OF False] using b2
          by (intro sound_skip [where k = 2 and n = "unat n"]) (simp_all add: assign_data_def)
      qed
    qed
  qed
qed

lemma LoginDecoder_sound:
  assumes "buf_ok b"
  shows "sound_decoding b (LoginDecoder_Decode b p)"
proof (cases "unread b")
  case Nil
  then show ?thesis using assms by (simp add: LoginDecoder_Decode_def if_get_u8_ok sound_decoding_def buf_ok_def)
next
  case (Cons c cs)
  let ?b = "advance 1 b"
  have u: "unread ?b = cs" by (simp only: unread_advanced Cons) simp
  have b1: "buf_ok ?b" "position b < buf_size b"
    using assms Cons advance_ok [of b 1] length_unread [of b] by auto
  show ?thesis
  proof (cases "map_of LoginDecoder_codes c")
    case None
    then show ?thesis using assms Cons Decoder_sound [OF assms] by (simp add: LoginDecoder_Decode_def if_get_u8_ok)
  next
    case (Some t)
    show ?thesis
    proof (cases cs)
      case Nil
      then show ?thesis
        using assms Cons b1 u Some by (simp add: LoginDecoder_Decode_def if_get_u8_ok sound_decoding_def remaining_unread)
    next
      case (Cons n ds)
      have "length cs \<le> buf_size b" using length_unread [of ?b] unfolding u by simp
      then have "buf_size (packet_data (assign_data (buf_size b) ?b (p\<lparr>packet_type := t\<rparr>))) = length cs"
        using u by (simp add: assign_data_def)
      moreover have "0 < remaining ?b" using Cons u b1 by (simp only: remaining_unread) simp
      ultimately show ?thesis
        using assms \<open>unread b = c # cs\<close> b1 Some u sound_skip [OF b1(1), of b 1 "length cs"]
        by (simp add: LoginDecoder_Decode_def if_get_u8_ok Let_def)
    qed
  qed
qed

text \<open>Every size in the table is given, so only the default case of the switch is ever taken.\<close>

lemma world_sizes:
  assumes "map_of WorldDecoder_codes c = Some t"
  obtains n where "map_of packet_sizes t = Some n" "0 \<le> n" "n \<le> 8"
  using map_of_SomeD [OF assms] by (auto simp: WorldDecoder_codes_def packet_sizes_def)

lemma WorldDecoder_sound:
  assumes "buf_ok b"
  shows "sound_decoding b (WorldDecoder_Decode b p)"
proof (cases "unread b")
  case Nil
  then show ?thesis using assms by (simp add: WorldDecoder_Decode_def if_get_u8_ok sound_decoding_def buf_ok_def)
next
  case (Cons c cs)
  let ?b = "advance 1 b"
  have u: "unread ?b = cs" by (simp only: unread_advanced Cons) simp
  have b1: "buf_ok ?b" using assms Cons advance_ok [of b 1] by auto
  show ?thesis
  proof (cases "map_of WorldDecoder_codes c")
    case None
    then show ?thesis using assms Cons Decoder_sound [OF assms] by (simp add: WorldDecoder_Decode_def if_get_u8_ok)
  next
    case (Some t)
    then obtain n where n: "map_of packet_sizes t = Some n" "0 \<le> n" "n \<le> 8" by (rule world_sizes)
    let ?k = "min (nat (n mod int size_max)) (remaining ?b)"
    have k: "?k \<le> length (unread ?b)" using b1 by (simp only: remaining_unread)
    have dec: "WorldDecoder_Decode b p = sized_default n ?b (p\<lparr>packet_type := t\<rparr>)"
      using assms Cons Some n by (simp add: WorldDecoder_Decode_def if_get_u8_ok sized_def)
    show ?thesis
      unfolding dec sized_default_def Let_def
    proof (rule sound_skip [OF b1, where k = 1])
      show "?k \<le> length (unread ?b)" by (rule k)
      then show "buf_size (packet_data (assign_data ?k ?b (p\<lparr>packet_type := t\<rparr>))) = ?k"
        by (simp add: assign_data_def)
    qed simp_all
  qed
qed

lemma GrabDecoder_cases:
  assumes "buf_ok b"
  shows "GrabDecoder_Decode b p =
    (if length (unread b) < 6 \<or> 7 < hd (unread b) then Inr (False, p, b)
     else Inr (True, p\<lparr>packet_type := kGrabCache, packet_data := (packet_data p)\<lparr>bytes := bytes b\<rparr>\<rparr>,
            seek Seek_cur (buf_size b) b))"
proof (cases "length (unread b) < 6")
  case False
  then have "position b < buf_size b" by (simp add: length_unread)
  then have "hd (unread b) = bytes b ! position b" by (simp add: unread_def hd_drop_conv_nth)
  then show ?thesis
    using False \<open>position b < buf_size b\<close> assms
    by (simp add: GrabDecoder_Decode_def remaining_unread Let_def skip_data_def)
qed (use assms in \<open>simp add: GrabDecoder_Decode_def remaining_unread\<close>)

lemma sound_laws:
  assumes "\<And>b p. buf_ok b \<Longrightarrow> sound_decoding b (decode b p)"
  shows "bounded_decoder decode"
proof
  fix b p assume io: "input_ok b"
  then have ok: "buf_ok b" ..
  have s: "sound_decoding b (decode b p)" by (rule assms [OF ok])
  then show "\<exists>ok p' b'. decode b p = Inr (ok, p', b')"
    by (cases "decode b p") (auto simp: sound_decoding_def)
  show "bytes b' = bytes b" "input_ok b'" if "decode b p = Inr (ok', p', b')" for ok' p' b'
    using s that io by (auto simp: sound_decoding_def buf_ok_def input_ok_def)
  show "position b < position b'" if "decode b p = Inr (True, p', b')" for p' b'
    using s that by (auto simp: sound_decoding_def)
qed

interpretation base_decoder: bounded_decoder Decoder_Decode
  by (rule sound_laws) (rule Decoder_sound)

interpretation login_decoder: bounded_decoder LoginDecoder_Decode
  by (rule sound_laws) (rule LoginDecoder_sound)

interpretation world_decoder: bounded_decoder WorldDecoder_Decode
  by (rule sound_laws) (rule WorldDecoder_sound)

interpretation grab_decoder: packet_decoder GrabDecoder_Decode
proof
  fix b p assume io: "input_ok b"
  then have ok: "buf_ok b" ..
  show "\<exists>ok p' b'. GrabDecoder_Decode b p = Inr (ok, p', b')"
    unfolding GrabDecoder_cases [OF ok] by (simp only: split: if_splits) blast
  show "bytes b' = bytes b" if "GrabDecoder_Decode b p = Inr (ok', p', b')" for ok' p' b'
    using that by (auto simp: GrabDecoder_cases [OF ok] split: if_splits)
  show "position b < position b'" if "GrabDecoder_Decode b p = Inr (True, p', b')" for p' b'
    using that io by (auto simp: GrabDecoder_cases [OF ok] length_unread size_add_def size_max_def buf_ok_def input_ok_def split: if_splits)
qed

lemma decoders:
  "(if d = Grab_decoder then packet_decoder (Decode d) else bounded_decoder (Decode d))"
  by (cases d) (simp_all add: base_decoder.bounded_decoder_axioms login_decoder.bounded_decoder_axioms
      world_decoder.bounded_decoder_axioms grab_decoder.packet_decoder_axioms)

lemma decoder_contract: "packet_decoder (Decode d)"
  using decoders [of d] by (cases "d = Grab_decoder") (auto simp: bounded_decoder_def)

interpretation any_decoder: packet_decoder "Decode d" for d
  by (rule decoder_contract)

lemma Decode_bounded:
  "input_ok b \<Longrightarrow> Decode d b p = Inr (ok, p', b') \<Longrightarrow> d \<noteq> Grab_decoder \<Longrightarrow> input_ok b'"
  using decoders [of d] bounded_decoder.stays [of "Decode d" b p ok p' b'] by simp

text \<open>Property C27. Whatever bytes a peer sends, a decoder whose position is within them does not fault
  and does not change them; when it finds a packet it has read at least one byte, and all but the grab decoder leave the
  position within the input.\<close>

theorem decoders_safe:
  assumes "input_ok b"
  shows "\<exists>ok p' b'. Decode d b p = Inr (ok, p', b') \<and> bytes b' = bytes b
    \<and> (if ok then position b < position b' else True)
    \<and> (if d = Grab_decoder then True else position b' \<le> buf_size b)"
proof -
  obtain ok p' b' where e: "Decode d b p = Inr (ok, p', b')"
    using any_decoder.total [OF assms] by blast
  have "bytes b' = bytes b" "ok \<Longrightarrow> position b < position b'"
    using any_decoder.keeps [OF assms e] any_decoder.progress [OF assms, of d p p' b'] e by auto
  moreover have "position b' \<le> buf_size b" if "d \<noteq> Grab_decoder"
    using Decode_bounded [OF assms e that] calculation(1) by (simp add: input_ok_def buf_ok_def)
  ultimately show ?thesis using e by auto
qed

text \<open>Login input that stops after the code.\<close>

theorem decoders_safe_witness:
  "\<exists>ok p' b'. Decode Login_decoder \<lparr>bytes = [16], position = 0\<rparr> new_packet = Inr (ok, p', b') \<and> bytes b' = [16]"
proof -
  have "input_ok \<lparr>bytes = [16], position = 0\<rparr>" by (simp add: input_ok_def buf_ok_def size_max_def)
  from decoders_safe [OF this, of Login_decoder new_packet] show ?thesis by auto
qed

section \<open>Packets of a client in the world\<close>

text \<open>Each code of the world decoder has a fixed size, which the client has to know too.\<close>

definition packet_length :: "u8 \<Rightarrow> nat option" where
  "packet_length code = map_option nat (Option.bind (map_of WorldDecoder_codes code) (map_of packet_sizes))"

lemma WorldDecoder_reads:
  assumes "buf_ok b" "unread b = code # rest" "map_of WorldDecoder_codes code = Some t"
    "packet_length code = Some n"
  shows "WorldDecoder_Decode b p = Inr (True,
    p\<lparr>packet_type := t, packet_data := (packet_data p)\<lparr>bytes := take n rest\<rparr>\<rparr>, advance (Suc (min n (length rest))) b)"
proof -
  let ?b = "advance 1 b"
  have u: "unread ?b = rest" by (simp only: unread_advanced assms(2)) simp
  have b1: "buf_ok ?b" using assms(1,2) advance_ok [of b 1] by auto
  obtain k where k: "map_of packet_sizes t = Some k" "0 \<le> k" "k \<le> 8" using assms(3) by (rule world_sizes)
  then have n: "n = nat k" using assms(3,4) by (simp add: packet_length_def)
  have m: "nat (k mod int size_max) = n" using k(2,3) unfolding n by (simp add: size_max_def)
  let ?q = "assign_data (min n (length rest)) ?b (p\<lparr>packet_type := t\<rparr>)"
  have "WorldDecoder_Decode b p = sized_default k ?b (p\<lparr>packet_type := t\<rparr>)"
    using assms(1-3) k by (simp add: WorldDecoder_Decode_def if_get_u8_ok sized_def)
  also have "\<dots> = Inr (True, ?q, skip_data ?q ?b)"
    unfolding sized_default_def Let_def m remaining_unread [OF b1] u ..
  also have "skip_data ?q ?b = advance (min n (length rest)) ?b"
  proof -
    have "min n (length rest) \<le> length (unread ?b)" unfolding u by simp
    then show ?thesis using seek_cur_ok [OF b1] u by (simp only: skip_data_def assign_data_def) simp
  qed
  finally show ?thesis
    using u by (simp add: assign_data_def min_def)
qed

text \<open>Property C33. The world decoder takes a whole packet exactly: its type by its code, its data by
  the size of that code, and no byte of what follows. It does not wait for the end of a packet,
  though: one that has arrived in part is a packet with the data there are, and its end is taken
  for the next packet.\<close>

theorem world_packet_read:
  assumes "buf_ok b" "unread b = code # payload @ rest" "map_of WorldDecoder_codes code = Some t"
    "packet_length code = Some n" "length payload \<le> n" "length payload = n \<or> rest = []"
  shows "\<exists>b'. Decode World_decoder b new_packet
      = Inr (True, new_packet\<lparr>packet_type := t, packet_data := empty_buffer\<lparr>bytes := payload\<rparr>\<rparr>, b')
    \<and> unread b' = rest \<and> bytes b' = bytes b"
proof -
  have m: "min n (length (payload @ rest)) = length payload" "take n (payload @ rest) = payload"
    using assms(5,6) by auto
  show ?thesis
    using WorldDecoder_reads [OF assms(1-4), of new_packet] assms(2) unfolding m
    by (simp add: new_packet_def)
qed

text \<open>A screen packet of which three of its six bytes have arrived.\<close>

theorem world_packet_read_witness:
  "\<exists>b'. Decode World_decoder \<lparr>bytes = [98, 1, 2, 3], position = 0\<rparr> new_packet
      = Inr (True, new_packet\<lparr>packet_type := kScreen, packet_data := empty_buffer\<lparr>bytes := [1, 2, 3]\<rparr>\<rparr>, b')
    \<and> unread b' = []"
proof -
  let ?b = "\<lparr>bytes = [98, 1, 2, 3], position = 0\<rparr>"
  have "buf_ok ?b" "unread ?b = 98 # [1, 2, 3] @ []" by (simp_all add: buf_ok_def size_max_def unread_def)
  moreover have "map_of WorldDecoder_codes 98 = Some kScreen" "packet_length 98 = Some 6"
    by (simp_all add: packet_length_def WorldDecoder_codes_def packet_sizes_def)
  ultimately show ?thesis using world_packet_read [of ?b 98 "[1, 2, 3]" "[]" kScreen 6] by auto
qed

end
