(* ===== verification/Sessions.thy ===== *)
theory Sessions
  imports Sockets Encoders Decoders
begin

text \<open>
  Sessions (\<open>net/session.h\<close>, \<open>net/session.cpp\<close>): the state of a connection, sending and
  writing. Reading, which runs the packet handlers, is modelled with them. A session refers to
  one of four decoders, encoders and handlers. \<open>TransitionState\<close> is declared and never defined.
\<close>

datatype SessionStatus = kDisconnected | kConnected | kDownloadingCache | kLoggingIn | kLoggedIn

datatype handler = Base_handler | Grab_handler | Login_handler | World_handler

record session =
  status :: SessionStatus
  socket :: data_socket
  session_decoder :: decoder
  session_handler :: handler
  session_encoder :: encoder
  buffer_input :: buffer
  buffer_output :: buffer
  bytes_received :: nat
  bytes_sent :: nat
  client_build :: u32
  player_index :: u32
  player_world :: u32

definition kReadSize :: nat where
  "kReadSize = 1024"

definition ResetEncoder :: "session \<Rightarrow> session" where
  "ResetEncoder s = s\<lparr>session_encoder := Base_encoder\<rparr>"

definition ResetDecoder :: "session \<Rightarrow> session" where
  "ResetDecoder s = s\<lparr>session_decoder := Base_decoder\<rparr>"

definition ResetHandler :: "session \<Rightarrow> session" where
  "ResetHandler s = s\<lparr>session_handler := Base_handler\<rparr>"

definition new_session :: "nat \<Rightarrow> session" where
  "new_session now = ResetHandler (ResetDecoder (ResetEncoder
     \<lparr>status = kConnected, socket = new_socket kInvalidSocketId now, session_decoder = Base_decoder,
      session_handler = Base_handler, session_encoder = Base_encoder, buffer_input = empty_buffer,
      buffer_output = empty_buffer, bytes_received = 0, bytes_sent = 0, client_build = 0,
      player_index = - 1, player_world = - 1\<rparr>))"

definition SetDecoder :: "decoder \<Rightarrow> session \<Rightarrow> session" where
  "SetDecoder kDecoder s = s\<lparr>session_decoder := kDecoder\<rparr>"

definition SetEncoder :: "encoder \<Rightarrow> session \<Rightarrow> session" where
  "SetEncoder kEncoder s = s\<lparr>session_encoder := kEncoder\<rparr>"

definition SetHandler :: "handler \<Rightarrow> session \<Rightarrow> session" where
  "SetHandler kHandler s = s\<lparr>session_handler := kHandler\<rparr>"

definition set_status :: "SessionStatus \<Rightarrow> session \<Rightarrow> session" where
  "set_status st s = s\<lparr>status := st\<rparr>"

definition set_client_build :: "u32 \<Rightarrow> session \<Rightarrow> session" where
  "set_client_build v s = s\<lparr>client_build := v\<rparr>"

definition set_player_index :: "u32 \<Rightarrow> session \<Rightarrow> session" where
  "set_player_index v s = s\<lparr>player_index := v\<rparr>"

definition set_player_world :: "u32 \<Rightarrow> session \<Rightarrow> session" where
  "set_player_world v s = s\<lparr>player_world := v\<rparr>"

definition HasOutput :: "session \<Rightarrow> bool" where
  "HasOutput s \<longleftrightarrow> buf_size (buffer_output s) \<noteq> 0"

section \<open>Sending\<close>

definition Send_buffer :: "buffer \<Rightarrow> session \<Rightarrow> session" where
  "Send_buffer b s = s\<lparr>buffer_output := put_bytes (bytes b) (buffer_output s)\<rparr>"

text \<open>The result of the encoder is ignored: a packet it refuses is dropped.\<close>

definition Send :: "packet \<Rightarrow> session \<Rightarrow> session" where
  "Send p s = Send_buffer (snd (Encode (session_encoder s) p empty_buffer)) s"

definition SendOpCode :: "PacketType \<Rightarrow> session \<Rightarrow> session" where
  "SendOpCode t s = Send (new_packet\<lparr>packet_type := t\<rparr>) s"

text \<open>A sequence of sends.\<close>

definition in_order :: "(session \<Rightarrow> session) list \<Rightarrow> session \<Rightarrow> session" where
  "in_order sends s = fold (\<lambda>f s. f s) sends s"

section \<open>Writing\<close>

text \<open>\<open>ClearOldData\<close> drops the bytes before the position, which nothing moves; the output is sent
  in one call. The result is \<open>None\<close> when the kernel never takes all of it.\<close>

definition Write :: "nat \<Rightarrow> write_result list \<Rightarrow> session \<Rightarrow> (u8 list \<times> write_result list \<times> session) res option" where
  "Write now ws s =
     (case clear_old_data (buffer_output s) of
        Inl e \<Rightarrow> Some (Inl e)
      | Inr out \<Rightarrow>
          (case putMessageData now (bytes out) ws (socket s) of
             None \<Rightarrow> None
           | Some (Inl e) \<Rightarrow> Some (Inl e)
           | Some (Inr (sent, ws, so)) \<Rightarrow>
               Some (Inr (sent, ws, s\<lparr>bytes_sent := size_add (bytes_sent s) (buf_size out),
                 socket := so, buffer_output := clear_buffer out\<rparr>))))"

section \<open>Properties\<close>

lemmas session_ops = ResetEncoder_def ResetDecoder_def ResetHandler_def SetDecoder_def SetEncoder_def
  SetHandler_def set_status_def set_client_build_def set_player_index_def set_player_world_def

lemma Send_output:
  "Send p s = s\<lparr>buffer_output := put_bytes (encoder.wire (session_encoder s) p) (buffer_output s)\<rparr>"
  by (simp add: Send_def Send_buffer_def encoder.alone)

text \<open>What sending changes: the output, and nothing else; a \<^emph>\<open>sender\<close> is an operation that appends
  the images of some packets.\<close>

definition sender :: "(session \<Rightarrow> session) \<Rightarrow> packet list \<Rightarrow> bool" where
  "sender f ps \<longleftrightarrow> (\<forall>s. f s = s\<lparr>buffer_output :=
     put_bytes (concat (map (encoder.wire (session_encoder s)) ps)) (buffer_output s)\<rparr>)"

lemma sender_Send [simp, intro]: "sender (Send p) [p]"
  by (simp add: sender_def Send_output)

lemma sender_in_order:
  "list_all2 sender fs pss \<Longrightarrow> sender (in_order fs) (concat pss)"
proof (induction rule: list_all2_induct)
  case Nil
  then show ?case by (simp add: sender_def in_order_def)
next
  case (Cons f fs ps pss)
  have f: "f s = s\<lparr>buffer_output := put_bytes (concat (map (encoder.wire (session_encoder s)) ps)) (buffer_output s)\<rparr>" for s
    using Cons(1) by (simp add: sender_def)
  have "in_order (f # fs) s = in_order fs (f s)" for s by (simp add: in_order_def)
  then show ?case using Cons(3) by (simp add: sender_def f)
qed

text \<open>Property C19. A session sends packets as a queue: after any sequence of packets a write hands
  the peer, in order and without gaps, whatever was queued before and then the encoded image
  of each packet, a packet without a code contributing nothing; the output is empty afterwards.\<close>

theorem Send_Write_stream:
  assumes "position (buffer_output s) = 0" "Write now ws (in_order (map Send ps) s) = Some (Inr (sent, ws', t))"
  shows "sent = bytes (buffer_output s)
      @ concat (map (\<lambda>p. case wire_image (session_encoder s) p of None \<Rightarrow> [] | Some bs \<Rightarrow> bs) ps)
    \<and> \<not> HasOutput t"
proof -
  have "list_all2 sender (map Send ps) (map (\<lambda>p. [p]) ps)"
    by (simp add: list_all2_map1 list_all2_map2 list_all2_same)
  from sender_in_order [OF this] have out: "in_order (map Send ps) s = s\<lparr>buffer_output :=
      put_bytes (concat (map (encoder.wire (session_encoder s)) ps)) (buffer_output s)\<rparr>"
    by (simp add: sender_def concat_map_singleton)
  have wire: "encoder.wire e = (\<lambda>p. case wire_image e p of None \<Rightarrow> [] | Some bs \<Rightarrow> bs)" for e
    by (rule ext) (simp only: encoder.wire_def)
  show ?thesis
    using assms unfolding out wire
    by (auto simp: Write_def clear_old_data_def putMessageData_def HasOutput_def clear_buffer_def
        dest: write_data_all split: option.splits sum.splits prod.splits)
qed

theorem Send_Write_stream_witness:
  "\<exists>t. Write 7 [Wrote 1] (in_order (map Send [new_packet\<lparr>packet_type := kClientOutdated\<rparr>]) (new_session 0))
      = Some (Inr ([6], [], t)) \<and> \<not> HasOutput t"
proof -
  let ?s = "in_order (map Send [new_packet\<lparr>packet_type := kClientOutdated\<rparr>]) (new_session 0)"
  have "\<exists>t. Write 7 [Wrote 1] ?s = Some (Inr ([6], [], t))"
    by (simp add: in_order_def Send_def Send_buffer_def new_session_def session_ops Encoder_Encode_def
        Encoder_codes_def new_packet_def no_code_def empty_buffer_def put_bytes_def Write_def
        clear_old_data_def putMessageData_def write_data.simps)
  then obtain t where t: "Write 7 [Wrote 1] ?s = Some (Inr ([6], [], t))" ..
  have "position (buffer_output (new_session 0)) = 0"
    by (simp add: new_session_def session_ops empty_buffer_def)
  from Send_Write_stream [OF this t] t show ?thesis by blast
qed

end
