(* ===== verification/Tiles.thy ===== *)
theory Tiles
  imports Columns
begin

text \<open>
  \<open>openrs::game::WorldTile\<close> (\<open>game/include/openrs/game/worldtile.h\<close>, \<open>game/src/worldtile.cpp\<close>):
  positions in the world, distances, and the map regions around a position. Coordinates are the
  columns of the database layer, signed 32-bit integers read as unsigned ones.
\<close>

definition MAP_SIZES :: "u16 list" where
  "MAP_SIZES = [104, 120, 136, 168, 72]"

text \<open>The index into \<open>MAP_SIZES\<close>, which every constructor leaves at 0 and nothing changes.\<close>

definition map_size :: u8 where
  "map_size = 0"

definition tile_at :: "u16 \<Rightarrow> u16 \<Rightarrow> u8 \<Rightarrow> tile_columns" where
  "tile_at x y z = new_tile (ucast x) (ucast y) (ucast z)"

definition chunk_x :: "tile_columns \<Rightarrow> u32" where "chunk_x t = signed_drop_bit 3 (position_x t)"
definition chunk_y :: "tile_columns \<Rightarrow> u32" where "chunk_y t = signed_drop_bit 3 (position_y t)"
definition region_x :: "tile_columns \<Rightarrow> u32" where "region_x t = signed_drop_bit 6 (position_x t)"
definition region_y :: "tile_columns \<Rightarrow> u32" where "region_y t = signed_drop_bit 6 (position_y t)"

definition region_id :: "tile_columns \<Rightarrow> u32" where
  "region_id t = push_bit 8 (region_x t) + region_y t"

definition region_hash :: "tile_columns \<Rightarrow> u32" where
  "region_hash t = region_y t + push_bit 8 (region_x t) + push_bit 16 (position_z t)"

definition tile_hash :: "tile_columns \<Rightarrow> u32" where
  "tile_hash t = position_y t + push_bit 14 (position_x t) + push_bit 28 (position_z t)"

section \<open>Distances\<close>

text \<open>\<open>std::abs(static_cast<int32_t>(a - b))\<close> of unsigned values.\<close>

definition abs_difference :: "u32 \<Rightarrow> u32 \<Rightarrow> u32" where
  "abs_difference a b = (if sint (a - b) < 0 then - (a - b) else a - b)"

definition WithinDistance :: "tile_columns \<Rightarrow> tile_columns \<Rightarrow> u32 \<Rightarrow> bool" where
  "WithinDistance t kPoint kDistance \<longleftrightarrow>
     (if position_z t \<noteq> position_z kPoint then False
      else abs_difference (position_x kPoint) (position_x t) \<le> kDistance
         \<and> abs_difference (position_y kPoint) (position_y t) \<le> kDistance)"

definition GetLocalX :: "tile_columns \<Rightarrow> tile_columns \<Rightarrow> u8 \<Rightarrow> u32" where
  "GetLocalX t local_tile kMapSize = position_x t - 8 * (chunk_x local_tile - ucast kMapSize)"

definition GetLocalY :: "tile_columns \<Rightarrow> tile_columns \<Rightarrow> u8 \<Rightarrow> u32" where
  "GetLocalY t local_tile kMapSize = position_y t - 8 * (chunk_y local_tile - ucast kMapSize)"

section \<open>Regions\<close>

text \<open>The counters of \<open>for (auto x = lo; x <= hi; ++x)\<close>; no bound of the loops below is the
  largest 32-bit value, except around a tile with a negative coordinate.\<close>

definition word_range :: "u32 \<Rightarrow> u32 \<Rightarrow> u32 list" where
  "word_range lo hi = map of_nat [unat lo..<Suc (unat hi)]"

definition GetMapRegions :: "tile_columns \<Rightarrow> u8 \<Rightarrow> u32 list" where
  "GetMapRegions t kMapSize =
     (let n = ucast kMapSize;
          kMinRegionX = (if chunk_x t < n then 0 else (chunk_x t - n) div 8);
          kMinRegionY = (if chunk_y t < n then 0 else (chunk_y t - n) div 8);
          kMaxRegionX = (chunk_x t + n) div 8;
          kMaxRegionY = (chunk_y t + n) div 8
      in concat (map (\<lambda>x. map (\<lambda>y. y + push_bit 8 x) (word_range kMinRegionY kMaxRegionY))
           (word_range kMinRegionX kMaxRegionX)))"

text \<open>Dynamic regions: the list for the client, and the ordered set of real regions.\<close>

definition dynamic_cell :: "nat \<Rightarrow> u32 \<Rightarrow> u32 \<Rightarrow> u32 list \<times> u32 list \<Rightarrow> u32 list \<times> u32 list" where
  "dynamic_cell plane x y out =
     (if x = 0 \<or> y = 0 then (fst out @ [0], snd out)
      else (fst out @ [push_bit 24 (of_nat plane) OR push_bit 14 x OR push_bit 3 y],
            insort_insert (y div 8 + push_bit 8 (x div 8)) (snd out)))"

definition GetDynamicMapRegions :: "tile_columns \<Rightarrow> u8 \<Rightarrow> u32 list \<times> u32 list" where
  "GetDynamicMapRegions t kMapSize =
     (let n = ucast kMapSize;
          kMinRegionX = (if chunk_x t < n then 0 else chunk_x t - n);
          kMinRegionY = (if chunk_y t < n then 0 else chunk_y t - n);
          kMaxRegionX = chunk_x t + n;
          kMaxRegionY = chunk_y t + n
      in fold (\<lambda>plane. fold (\<lambda>x. fold (\<lambda>y. dynamic_cell plane x y) (word_range kMinRegionY kMaxRegionY))
                (word_range kMinRegionX kMaxRegionX)) [0..<4] ([], []))"

section \<open>Properties\<close>

text \<open>A tile whose coordinates are those the setters can store.\<close>

definition tile_ok :: "tile_columns \<Rightarrow> bool" where
  "tile_ok t \<longleftrightarrow> unat (position_x t) < 65536 \<and> unat (position_y t) < 65536 \<and> unat (position_z t) < 256"

lemma tile_at_ok: "tile_ok (tile_at x y z)"
proof -
  have "unat x < 2 ^ LENGTH(16)" "unat y < 2 ^ LENGTH(16)" "unat z < 2 ^ LENGTH(8)"
    by (rule unsigned_less)+
  then show ?thesis by (simp add: tile_ok_def tile_at_def new_tile_def)
qed

lemma sint_word_of_int_small:
  assumes "- 2147483648 \<le> k" "k < 2147483648"
  shows "sint (word_of_int k :: u32) = k"
proof -
  have "signed_take_bit 31 k = k"
    by (rule signed_take_bit_int_eq_self) (use assms in simp_all)
  then show ?thesis by (simp add: sint_sbintrunc')
qed

lemma abs_difference_int:
  assumes "unat a < 65536" "unat b < 65536"
  shows "int (unat (abs_difference a b)) = \<bar>int (unat a) - int (unat b)\<bar>"
proof -
  let ?k = "int (unat a) - int (unat b)"
  have d: "a - b = word_of_int ?k" by simp
  have "sint (word_of_int ?k :: u32) = ?k"
    using assms by (intro sint_word_of_int_small) linarith+
  then have s: "sint (a - b) = ?k" by (simp only: d)
  show ?thesis
  proof (cases "unat b \<le> unat a")
    case True
    then have u: "unat (a - b) = unat a - unat b" by (simp add: unat_sub word_le_nat_alt)
    have "\<not> sint (a - b) < 0" using True unfolding s by linarith
    then have "unat (abs_difference a b) = unat a - unat b"
      using u by (simp only: abs_difference_def if_False)
    then show ?thesis using True by linarith
  next
    case False
    then have u: "unat (b - a) = unat b - unat a" by (simp add: unat_sub word_le_nat_alt)
    have "sint (a - b) < 0" using False unfolding s by linarith
    then have "unat (abs_difference a b) = unat b - unat a"
      using u by (simp only: abs_difference_def if_True minus_diff_eq)
    then show ?thesis using False by linarith
  qed
qed

text \<open>\<open>WithinDistance\<close>, which subtracts unsigned coordinates and takes the absolute
  value of the difference as a signed number, decides whether two tiles of the same plane are
  within the distance along both axes.\<close>

lemma WithinDistance_spec:
  assumes "tile_ok t" "tile_ok p"
  shows "WithinDistance t p d \<longleftrightarrow> position_z t = position_z p
    \<and> \<bar>int (unat (position_x p)) - int (unat (position_x t))\<bar> \<le> int (unat d)
    \<and> \<bar>int (unat (position_y p)) - int (unat (position_y t))\<bar> \<le> int (unat d)"
proof -
  have "abs_difference a b \<le> d \<longleftrightarrow> int (unat (abs_difference a b)) \<le> int (unat d)" for a b
    by (simp only: word_le_nat_alt of_nat_le_iff)
  then show ?thesis
    using assms abs_difference_int [of "position_x p" "position_x t"]
      abs_difference_int [of "position_y p" "position_y t"]
    unfolding WithinDistance_def tile_ok_def by (simp only: if_bool_eq_disj) blast
qed

lemma WithinDistance_spec_witness:
  "WithinDistance (tile_at 3200 10 0) (tile_at 3214 3 0) 14 \<and> \<not> WithinDistance (tile_at 0 0 0) (tile_at 20 0 0) 14"
  using WithinDistance_spec [of "tile_at 3200 10 0" "tile_at 3214 3 0" 14]
    WithinDistance_spec [of "tile_at 0 0 0" "tile_at 20 0 0" 14]
  by (simp add: tile_at_ok) (simp add: tile_at_def new_tile_def)

lemma word_range_mem:
  "hi \<noteq> 0xFFFFFFFF \<Longrightarrow> w \<in> set (word_range lo hi) \<longleftrightarrow> lo \<le> w \<and> w \<le> hi"
proof -
  have "w \<in> set (word_range lo hi) \<longleftrightarrow> (\<exists>n. unat lo \<le> n \<and> n \<le> unat hi \<and> w = of_nat n)"
    by (auto simp: word_range_def less_Suc_eq_le)
  also have "\<dots> \<longleftrightarrow> lo \<le> w \<and> w \<le> hi"
  proof
    assume "\<exists>n. unat lo \<le> n \<and> n \<le> unat hi \<and> w = of_nat n"
    then obtain n where n: "unat lo \<le> n" "n \<le> unat hi" "w = of_nat n" by blast
    have "n < 2 ^ LENGTH(32)" using n(2) unsigned_less [of hi] by (rule le_less_trans)
    then have "unat w = n" using n(3) by (simp add: unat_of_nat)
    then show "lo \<le> w \<and> w \<le> hi" using n by (simp add: word_le_nat_alt)
  next
    assume "lo \<le> w \<and> w \<le> hi"
    then have "unat lo \<le> unat w \<and> unat w \<le> unat hi \<and> w = of_nat (unat w)"
      by (simp add: word_le_nat_alt)
    then show "\<exists>n. unat lo \<le> n \<and> n \<le> unat hi \<and> w = of_nat n" by blast
  qed
  finally show ?thesis .
qed

lemma signed_drop_bit_nonneg:
  assumes "\<not> bit (p :: u32) 31"
  shows "signed_drop_bit k p = drop_bit k p"
proof (rule bit_word_eqI)
  fix n assume n: "n < LENGTH(32)"
  show "bit (signed_drop_bit k p) n = bit (drop_bit k p) n"
  proof (cases "LENGTH(32) - k \<le> n")
    case True
    then have "\<not> bit p (k + n)" using bit_imp_le_length [of p "k + n"] by auto
    then show ?thesis using True n assms by (simp add: bit_signed_drop_bit_iff bit_drop_bit_eq)
  next
    case False
    then show ?thesis by (simp add: bit_signed_drop_bit_iff bit_drop_bit_eq)
  qed
qed

lemma drop_small:
  assumes "unat (p :: u32) < 65536"
  shows "unat (signed_drop_bit k p) = unat p div 2 ^ k"
proof -
  have "take_bit 16 (unat p) = unat p" using assms by (simp add: take_bit_nat_eq_self)
  then have "bit (unat p) 31 = bit (take_bit 16 (unat p)) 31" by (simp only:)
  then have "\<not> bit (unat p) 31" by (simp add: bit_take_bit_iff)
  then have "\<not> bit p 31" by (simp add: bit_unsigned_iff)
  then have "unat (signed_drop_bit k p) = unat (drop_bit k p)"
    by (simp only: signed_drop_bit_nonneg [OF \<open>\<not> bit p 31\<close>])
  also have "\<dots> = drop_bit k (take_bit LENGTH(32) (unat p))" by (rule unsigned_drop_bit_eq)
  also have "take_bit LENGTH(32) (unat p) = unat p"
    by (rule take_bit_nat_eq_self) (rule unsigned_less)
  finally show ?thesis by (simp only: drop_bit_eq_div)
qed

lemma unat_ucast_u8 [simp]: "unat (ucast (n :: u8) :: u32) = unat n"
  by simp

text \<open>The bounds of the rectangle of regions, as numbers.\<close>

lemma region_bounds:
  assumes "unat (c :: u32) < 8192"
  shows "unat (if c < ucast (n :: u8) then 0 else (c - ucast n) div 8) = (unat c - unat n) div 8"
    and "unat ((c + ucast n) div 8) = (unat c + unat n) div 8"
proof -
  have n: "unat n < 256" using unsigned_less [of n] by simp
  show "unat (if c < ucast n then 0 else (c - ucast n) div 8) = (unat c - unat n) div 8"
    by (auto simp: unat_div unat_sub word_less_nat_alt word_le_nat_alt)
  have "unat (c + ucast n) = unat c + unat n"
    using assms n by (simp add: unat_word_ariths)
  then show "unat ((c + ucast n) div 8) = (unat c + unat n) div 8" by (simp add: unat_div)
qed

lemma concat_mem: "x \<in> set A \<Longrightarrow> y \<in> set B \<Longrightarrow> f x y \<in> set (concat (map (\<lambda>x. map (f x) B) A))"
  by auto

lemma own_region: "c div 8 \<in> set [(c - k) div 8..<Suc ((c + k) div 8)]" for c k :: nat
proof -
  have "(c - k) div 8 \<le> c div 8" "c div 8 \<le> (c + k) div 8" by (rule div_le_mono, simp)+
  then show ?thesis unfolding set_upt atLeastLessThan_iff less_Suc_eq_le by (rule conjI)
qed

text \<open>Property C32. The regions around a tile are exactly those of the rectangle of chunks within
  the map size, in column order; the tile's own region is one of them. For every tile the
  setters can store, the loops end.\<close>

theorem GetMapRegions_spec:
  assumes "tile_ok t"
  shows "map unat (GetMapRegions t n) = concat (map (\<lambda>x. map (\<lambda>y. y + 256 * x)
      [(unat (chunk_y t) - unat n) div 8..<Suc ((unat (chunk_y t) + unat n) div 8)])
      [(unat (chunk_x t) - unat n) div 8..<Suc ((unat (chunk_x t) + unat n) div 8)])
    \<and> region_id t \<in> set (GetMapRegions t n)"
proof -
  let ?cx = "unat (chunk_x t)" and ?cy = "unat (chunk_y t)" and ?n = "unat n"
  let ?lx = "(?cx - ?n) div 8" and ?hx = "(?cx + ?n) div 8" and ?ly = "(?cy - ?n) div 8" and ?hy = "(?cy + ?n) div 8"
  have c: "?cx = unat (position_x t) div 8" "?cy = unat (position_y t) div 8"
    using assms by (simp_all add: tile_ok_def chunk_x_def chunk_y_def drop_small)
  then have c8: "?cx < 8192" "?cy < 8192" using assms by (simp_all add: tile_ok_def less_mult_imp_div_less)
  have n: "?n < 256" using unsigned_less [of n] by simp
  have h: "?hx < 2048" "?hy < 2048" using c8 n by simp_all
  have regions: "GetMapRegions t n = concat (map (\<lambda>x. map (\<lambda>y. of_nat y + push_bit 8 (of_nat x)) [?ly..<Suc ?hy]) [?lx..<Suc ?hx])"
    by (simp only: GetMapRegions_def Let_def word_range_def region_bounds [OF c8(1)] region_bounds [OF c8(2)]
        map_map comp_def)
  have cell: "unat (of_nat y + push_bit 8 (of_nat x) :: u32) = y + 256 * x" if "x < 2048" "y < 2048" for x y
  proof -
    have "(of_nat y + push_bit 8 (of_nat x) :: u32) = of_nat (y + 256 * x)"
      by (simp add: push_bit_eq_mult)
    then show ?thesis using that by (simp only: unat_of_nat) simp
  qed
  have "map unat (GetMapRegions t n) = concat (map (\<lambda>x. map (\<lambda>y. y + 256 * x) [?ly..<Suc ?hy]) [?lx..<Suc ?hx])"
    unfolding regions map_concat map_map comp_def using h
    by (intro arg_cong [of _ _ concat] map_cong refl) (auto intro!: cell)
  moreover have "region_id t \<in> set (GetMapRegions t n)"
  proof -
    have r: "unat (region_x t) = ?cx div 8" "unat (region_y t) = ?cy div 8"
      using assms c by (simp_all add: tile_ok_def region_x_def region_y_def drop_small div_mult2_eq [symmetric])
    have "region_id t = of_nat (?cy div 8) + push_bit 8 (of_nat (?cx div 8))"
      by (simp add: region_id_def r [symmetric])
    then show ?thesis unfolding regions
      by (simp only: concat_mem [OF own_region own_region, where f="\<lambda>x y. of_nat y + push_bit 8 (of_nat x)"])
  qed
  ultimately show ?thesis by blast
qed

theorem GetMapRegions_spec_witness:
  "region_id (tile_at 3200 3300 0) \<in> set (GetMapRegions (tile_at 3200 3300 0) 6)"
  using GetMapRegions_spec [OF tile_at_ok, of 3200 3300 0 6] by blast

end
