(* ===== verification/Actors.thy ===== *)
theory Actors
  imports Tiles
begin

text \<open>
  Entities and their graphics (\<open>game/include/openrs/game/graphics.h\<close>, \<open>entity.h\<close>,
  \<open>game/src/entity.cpp\<close>) and the appearance of a player (\<open>player/appearance.h\<close>). The position
  of an entity and the looks of a player are the columns of the player model.
\<close>

section \<open>Graphics\<close>

record graphics =
  graphics_id :: u16
  graphics_height :: u32
  graphics_speed :: u32
  graphics_rotation :: u32

definition new_graphics :: "u16 \<Rightarrow> graphics" where
  "new_graphics i = \<lparr>graphics_id = i, graphics_height = 0, graphics_speed = 0, graphics_rotation = 0\<rparr>"

definition has_id :: "graphics \<Rightarrow> u16 \<Rightarrow> bool" where
  "has_id g rhs \<longleftrightarrow> graphics_id g = rhs"

definition same_graphics :: "graphics \<Rightarrow> graphics \<Rightarrow> bool" where
  "same_graphics g rhs \<longleftrightarrow> graphics_id g = graphics_id rhs \<and> graphics_height g = graphics_height rhs
     \<and> graphics_speed g = graphics_speed rhs \<and> graphics_rotation g = graphics_rotation rhs"

text \<open>\<open>operator!=(const Graphics&)\<close> returns \<open>!(*this != rhs)\<close>, which is the same operator.\<close>

partial_function (option) differs_from :: "graphics \<Rightarrow> graphics \<Rightarrow> bool option" where
  "differs_from g rhs = Option.bind (differs_from g rhs) (\<lambda>r. Some (\<not> r))"

definition GetSettingsHash :: "graphics \<Rightarrow> u32" where
  "GetSettingsHash g = (graphics_speed g AND 0xFFFF) OR push_bit 16 (graphics_height g)"

definition GetSettingsHash2 :: "graphics \<Rightarrow> u8" where
  "GetSettingsHash2 g = ucast (graphics_rotation g AND 7)"

section \<open>Entities\<close>

datatype direction = North | East | South | West

record entity =
  facing :: direction
  slots :: "graphics list"
  face_entity_last :: u32
  face_entity_next :: u32

definition new_entity :: entity where
  "new_entity = \<lparr>facing = North, slots = replicate 4 (new_graphics 0), face_entity_last = - 1,
     face_entity_next = - 2\<rparr>"

definition clear_slot :: "graphics \<Rightarrow> graphics list \<Rightarrow> graphics list" where
  "clear_slot g gs =
     (if \<not> has_id (gs ! 3) 0 then gs[3 := g]
      else if \<not> has_id (gs ! 2) 0 then gs[2 := g]
      else if \<not> has_id (gs ! 1) 0 then gs[1 := g]
      else gs[0 := g])"

definition fill_slot :: "graphics \<Rightarrow> graphics list \<Rightarrow> graphics list" where
  "fill_slot g gs =
     (if has_id (gs ! 0) 0 then gs[0 := g]
      else if has_id (gs ! 1) 0 then gs[1 := g]
      else if has_id (gs ! 2) 0 then gs[2 := g]
      else gs[3 := g])"

definition SetNextGraphics :: "graphics \<Rightarrow> entity \<Rightarrow> entity" where
  "SetNextGraphics g e =
     (if has_id g 0 then e\<lparr>slots := clear_slot g (slots e)\<rparr>
      else if list_ex (\<lambda>x. same_graphics x g) (slots e) then e
      else e\<lparr>slots := fill_slot g (slots e)\<rparr>)"

section \<open>Appearance\<close>

datatype BodyPart = Hair | Beard | Torso | Legs | Boots | Skin | Arms | Forearms

fun GetAppearanceLook :: "BodyPart \<Rightarrow> appearance_columns \<Rightarrow> u16" where
  "GetAppearanceLook Hair a = ucast (look_hair a)"
| "GetAppearanceLook Beard a = ucast (look_beard a)"
| "GetAppearanceLook Torso a = ucast (look_torso a)"
| "GetAppearanceLook Arms a = ucast (look_arms a)"
| "GetAppearanceLook Forearms a = ucast (look_forearms a)"
| "GetAppearanceLook Legs a = ucast (look_legs a)"
| "GetAppearanceLook Boots a = ucast (look_shoes a)"
| "GetAppearanceLook _ a = 0"

fun GetAppearanceColour :: "BodyPart \<Rightarrow> appearance_columns \<Rightarrow> u8" where
  "GetAppearanceColour Hair a = ucast (colour_hair a)"
| "GetAppearanceColour Torso a = ucast (colour_torso a)"
| "GetAppearanceColour Legs a = ucast (colour_legs a)"
| "GetAppearanceColour Boots a = ucast (colour_shoes a)"
| "GetAppearanceColour Skin a = ucast (colour_shoes a)"
| "GetAppearanceColour _ a = 0"

abbreviation unknown_part :: fault where
  "unknown_part \<equiv> Logic_error ''Unknown bodypart specified in appearance.''"

fun SetAppearanceLook :: "BodyPart \<Rightarrow> u16 \<Rightarrow> appearance_columns \<Rightarrow> appearance_columns res" where
  "SetAppearanceLook Hair s a = Inr (a\<lparr>look_hair := ucast s\<rparr>)"
| "SetAppearanceLook Beard s a = Inr (a\<lparr>look_beard := ucast s\<rparr>)"
| "SetAppearanceLook Torso s a = Inr (a\<lparr>look_torso := ucast s\<rparr>)"
| "SetAppearanceLook Arms s a = Inr (a\<lparr>look_arms := ucast s\<rparr>)"
| "SetAppearanceLook Forearms s a = Inr (a\<lparr>look_forearms := ucast s\<rparr>)"
| "SetAppearanceLook Legs s a = Inr (a\<lparr>look_legs := ucast s\<rparr>)"
| "SetAppearanceLook Boots s a = Inr (a\<lparr>look_shoes := ucast s\<rparr>)"
| "SetAppearanceLook _ s a = Inl unknown_part"

fun SetAppearanceColour :: "BodyPart \<Rightarrow> u8 \<Rightarrow> appearance_columns \<Rightarrow> appearance_columns res" where
  "SetAppearanceColour Hair c a = Inr (a\<lparr>colour_hair := ucast c\<rparr>)"
| "SetAppearanceColour Torso c a = Inr (a\<lparr>colour_torso := ucast c\<rparr>)"
| "SetAppearanceColour Legs c a = Inr (a\<lparr>colour_legs := ucast c\<rparr>)"
| "SetAppearanceColour Boots c a = Inr (a\<lparr>colour_shoes := ucast c\<rparr>)"
| "SetAppearanceColour Skin c a = Inr (a\<lparr>colour_shoes := ucast c\<rparr>)"
| "SetAppearanceColour _ c a = Inl unknown_part"

text \<open>A sequence of calls, up to the first that throws.\<close>

fun in_turn :: "('s \<Rightarrow> 's res) list \<Rightarrow> 's \<Rightarrow> 's res" where
  "in_turn [] s = Inr s"
| "in_turn (f # fs) s = bind_res (f s) (in_turn fs)"

definition SetDefaultMale :: "appearance_columns \<Rightarrow> appearance_columns res" where
  "SetDefaultMale = in_turn
    [SetAppearanceLook Hair 7, SetAppearanceLook Beard 14, SetAppearanceLook Torso 18,
     SetAppearanceLook Arms 26, SetAppearanceLook Forearms 34, SetAppearanceLook Legs 38,
     SetAppearanceLook Boots 42, SetAppearanceColour Boots 0, SetAppearanceColour Legs 32,
     SetAppearanceColour Torso 95, SetAppearanceColour Hair 17]"

definition SetDefaultFemale :: "appearance_columns \<Rightarrow> appearance_columns res" where
  "SetDefaultFemale = in_turn
    [SetAppearanceLook Hair 276, SetAppearanceLook Beard 57, SetAppearanceLook Torso 57,
     SetAppearanceLook Arms 65, SetAppearanceLook Forearms 68, SetAppearanceLook Legs 77,
     SetAppearanceLook Boots 80, SetAppearanceColour Boots 0, SetAppearanceColour Legs 95,
     SetAppearanceColour Torso 95, SetAppearanceColour Hair 78]"

section \<open>Comparison of graphics\<close>

lemma differs_from_undefined: "differs_from g rhs = Some r \<Longrightarrow> False"
proof (rule differs_from.raw_induct [where P = "\<lambda>_ _ _. False"])
  fix loop :: "graphics \<Rightarrow> graphics \<Rightarrow> bool option" and g rhs r
  assume "\<And>g rhs r. loop g rhs = Some r \<Longrightarrow> False" "Option.bind (loop g rhs) (\<lambda>r. Some (\<not> r)) = Some r"
  then show False by (cases "loop g rhs") auto
qed

lemma same_graphics_eq: "same_graphics g h \<longleftrightarrow> g = h"
  by (cases g; cases h) (auto simp: same_graphics_def)

text \<open>Property C38. Comparing two graphics for equality compares all their fields, but comparing
  them for inequality never returns.\<close>

theorem graphics_inequality_diverges:
  "(same_graphics g h \<longleftrightarrow> g = h) \<and> differs_from g h = None"
  using differs_from_undefined [of g h] same_graphics_eq by (cases "differs_from g h") auto

section \<open>The graphics of an entity are a stack\<close>

text \<open>The abstract value: the graphics shown, the latest last; at most four.\<close>

definition stack_of :: "entity \<Rightarrow> graphics list" where
  "stack_of e = takeWhile (\<lambda>g. graphics_id g \<noteq> 0) (slots e)"

definition next_stack :: "graphics \<Rightarrow> graphics list \<Rightarrow> graphics list" where
  "next_stack g st =
     (if graphics_id g = 0 then butlast st
      else if g \<in> set st then st
      else if length st < 4 then st @ [g]
      else butlast st @ [g])"

definition entity_ok :: "entity \<Rightarrow> bool" where
  "entity_ok e \<longleftrightarrow> length (slots e) = 4 \<and> list_all (\<lambda>g. graphics_id g = 0) (drop (length (stack_of e)) (slots e))"

lemma length_4E:
  assumes "length xs = 4"
  obtains a b c d where "xs = [a, b, c, d]"
  using assms by (auto simp: numeral_eq_Suc length_Suc_conv)

lemmas slot_simps = clear_slot_def fill_slot_def has_id_def stack_of_def next_stack_def same_graphics_eq

lemma new_entity_ok [wf_intros]: "entity_ok new_entity" "stack_of new_entity = []"
  by (simp_all add: entity_ok_def new_entity_def stack_of_def new_graphics_def numeral_eq_Suc)

lemma entity_ok_cases:
  assumes "entity_ok e"
  obtains a b c d where "slots e = [a, b, c, d]"
    "graphics_id a = 0 \<longrightarrow> graphics_id b = 0" "graphics_id b = 0 \<longrightarrow> graphics_id c = 0"
    "graphics_id c = 0 \<longrightarrow> graphics_id d = 0"
proof -
  from assms have "length (slots e) = 4" by (simp add: entity_ok_def)
  then obtain a b c d where s: "slots e = [a, b, c, d]" by (rule length_4E)
  show ?thesis
    by (rule that [OF s]) (use assms s in \<open>auto simp: entity_ok_def stack_of_def split: if_splits\<close>)
qed

lemma SetNextGraphics_stack:
  assumes "entity_ok e"
  shows "entity_ok (SetNextGraphics g e)" "stack_of (SetNextGraphics g e) = next_stack g (stack_of e)"
proof -
  from assms obtain a b c d where s: "slots e = [a, b, c, d]"
    and z: "graphics_id a = 0 \<longrightarrow> graphics_id b = 0" "graphics_id b = 0 \<longrightarrow> graphics_id c = 0"
      "graphics_id c = 0 \<longrightarrow> graphics_id d = 0"
    by (rule entity_ok_cases)
  consider "graphics_id a = 0" | "graphics_id a \<noteq> 0" "graphics_id b = 0"
    | "graphics_id b \<noteq> 0" "graphics_id c = 0" | "graphics_id c \<noteq> 0" "graphics_id d = 0"
    | "graphics_id d \<noteq> 0"
    using z by blast
  then have "entity_ok (SetNextGraphics g e) \<and> stack_of (SetNextGraphics g e) = next_stack g (stack_of e)"
    by cases (use s z in \<open>auto simp: SetNextGraphics_def entity_ok_def slot_simps\<close>)
  then show "entity_ok (SetNextGraphics g e)" "stack_of (SetNextGraphics g e) = next_stack g (stack_of e)"
    by blast+
qed

text \<open>Property C26. The four graphics slots of an entity implement a bounded stack: a graphics with
  identifier 0 takes the latest one off, one that is shown already changes nothing, and any
  other is put on top, in place of the fourth when the slots are full. A new entity is the
  empty stack.\<close>

theorem SetNextGraphics_refines_stack:
  assumes "entity_ok e"
  shows "entity_ok (SetNextGraphics g e) \<and> stack_of (SetNextGraphics g e) = next_stack g (stack_of e)
    \<and> entity_ok new_entity \<and> stack_of new_entity = []"
  using SetNextGraphics_stack [OF assms] new_entity_ok by blast

theorem SetNextGraphics_refines_stack_witness:
  "stack_of (SetNextGraphics (new_graphics 188) new_entity) = [new_graphics 188]"
  using SetNextGraphics_refines_stack [OF new_entity_ok(1), of "new_graphics 188"] new_entity_ok(2)
  by (simp add: next_stack_def new_graphics_def)

section \<open>Looks and colours\<close>

lemma ucast_up_down [simp]: "ucast (ucast (s :: u16) :: i32) = s" "ucast (ucast (c :: u8) :: i32) = c"
  by (rule bit_word_eqI, auto simp: bit_simps)+

text \<open>The parts that share a colour: the skin is stored in the column of the boots.\<close>

definition same_colour :: "BodyPart \<Rightarrow> BodyPart \<Rightarrow> bool" where
  "same_colour p q \<longleftrightarrow> p = q \<or> {p, q} = {Boots, Skin}"

fun_cases SetAppearanceLookE: "SetAppearanceLook p s a = Inr b"
fun_cases SetAppearanceColourE: "SetAppearanceColour p c a = Inr b"

lemma SetAppearanceLook_get:
  "SetAppearanceLook p s a = Inr b \<Longrightarrow> GetAppearanceLook q b = (if q = p then s else GetAppearanceLook q a)"
  by (erule SetAppearanceLookE; cases q) simp_all

lemma SetAppearanceColour_get:
  "SetAppearanceColour p c a = Inr b \<Longrightarrow>
     GetAppearanceColour q b = (if same_colour p q then c else GetAppearanceColour q a)"
  by (erule SetAppearanceColourE; cases q) (auto simp: same_colour_def doubleton_eq_iff)

text \<open>A look that is set is read back and leaves the other looks alone. A colour that
  is set is read back too, but the skin and the boots have one colour between them, and the
  column for the colour of the skin is never written.\<close>

lemma appearance_set_get:
  assumes "SetAppearanceLook p s a = Inr b" "SetAppearanceColour r c b = Inr d"
  shows "GetAppearanceLook q b = (if q = p then s else GetAppearanceLook q a)
    \<and> GetAppearanceColour q d = (if same_colour r q then c else GetAppearanceColour q b)
    \<and> colour_skin d = colour_skin a"
  using SetAppearanceLook_get [OF assms(1)] SetAppearanceColour_get [OF assms(2)] assms
  by (auto elim!: SetAppearanceLookE SetAppearanceColourE)

lemma appearance_set_get_witness:
  "GetAppearanceColour Boots (new_appearance\<lparr>look_hair := 7, colour_shoes := 9\<rparr>) = 9"
  using appearance_set_get [of Hair 7 new_appearance "new_appearance\<lparr>look_hair := 7\<rparr>" Skin 9
      "new_appearance\<lparr>look_hair := 7, colour_shoes := 9\<rparr>" Boots]
  by (simp add: same_colour_def doubleton_eq_iff)

lemma default_appearances:
  "\<exists>m f. SetDefaultMale a = Inr m \<and> SetDefaultFemale a = Inr f
     \<and> GetAppearanceLook Hair m = 7 \<and> GetAppearanceLook Hair f = 276"
  by (simp add: SetDefaultMale_def SetDefaultFemale_def)

end
