(* ===== verification/Skills.thy ===== *)
theory Skills
  imports Actors Complex_Main
begin

text \<open>
  The levels of a skill (\<open>game/include/openrs/game/player/skills.h\<close>). The points of a level are
  computed in floating point, as \<open>floor(level + 300.0 * pow(2.0, level / 7.0))\<close>; here they are the
  exact floor, by an integer seventh root. (The fractional part of the exact value, when it is
  not an integer, is at least 0.004 away from one for all 98 levels, well over the error of a
  double of this size; when it is an integer, at the multiples of 7, the power is exact.)
\<close>

datatype Skill =
    Attack | Defence | Strength | HitPoints | Range | Prayer | Magic | Cooking | WoodCuting
  | Fletching | Fishing | FIreMaking | Crafting | Smithing | Mining | HerbLore | Agility
  | Thieving | Slayer | Farming | RuneCrafting | Hunter | Construction | Summoning
  | Dungeoneering | Last_skill

fun GetSkillExperience :: "Skill \<Rightarrow> skills_columns \<Rightarrow> u32" where
  "GetSkillExperience Attack s = skill_attack s"
| "GetSkillExperience _ s = 0"

function root7 :: "nat \<Rightarrow> nat \<Rightarrow> nat \<Rightarrow> nat" where
  "root7 n lo hi =
     (if hi \<le> Suc lo then lo
      else if ((lo + hi) div 2) ^ 7 \<le> n then root7 n ((lo + hi) div 2) hi
      else root7 n lo ((lo + hi) div 2))"
  by pat_completeness auto
termination by (relation "measure (\<lambda>(n, lo, hi). hi - lo)") auto

declare root7.simps [simp del]

definition level_points :: "nat \<Rightarrow> nat" where
  "level_points level = level + root7 (300 ^ 7 * 2 ^ level) 0 (300 * 2 ^ 15)"

function level_loop :: "nat \<Rightarrow> u32 \<Rightarrow> u32 \<Rightarrow> u8" where
  "level_loop level points kExperience =
     (if level < 99
      then let points' = points + of_nat (level_points level); output = points' div 4
           in if kExperience \<le> output - 1 then of_nat level
              else level_loop (Suc level) points' kExperience
      else 99)"
  by pat_completeness auto
termination by (relation "measure (\<lambda>(level, _). 99 - level)") auto

declare level_loop.simps [simp del]

definition GetSkillLevel :: "Skill \<Rightarrow> skills_columns \<Rightarrow> u8" where
  "GetSkillLevel kSkill s = level_loop 1 0 (GetSkillExperience kSkill s)"

definition GetCombatLevel :: u8 where
  "GetCombatLevel = 99"

section \<open>The points of a level\<close>

lemma root7_spec:
  assumes "lo ^ 7 \<le> n" "n < hi ^ 7"
  shows "root7 n lo hi ^ 7 \<le> n \<and> n < Suc (root7 n lo hi) ^ 7"
  using assms
proof (induction n lo hi rule: root7.induct)
  case (1 n lo hi)
  show ?case
  proof (cases "hi \<le> Suc lo")
    case True
    then have "hi ^ 7 \<le> Suc lo ^ 7" by (rule power_mono) simp
    then have "n < Suc lo ^ 7" using "1.prems"(2) by (rule less_le_trans [rotated])
    then show ?thesis using True "1.prems"(1) by (simp add: root7.simps)
  next
    case False
    then show ?thesis
      using 1 by (cases "((lo + hi) div 2) ^ 7 \<le> n") (simp_all add: root7.simps [of n lo hi])
  qed
qed

lemma level_root:
  assumes "level < 99"
  shows "(level_points level - level) ^ 7 \<le> 300 ^ 7 * 2 ^ level"
    and "300 ^ 7 * 2 ^ level < Suc (level_points level - level) ^ 7"
proof -
  have "(2::nat) ^ level < 2 ^ 105" using assms by (intro power_strict_increasing) auto
  then have "(300::nat) ^ 7 * 2 ^ level < 300 ^ 7 * 2 ^ 105" by simp
  also have "\<dots> = (300 * 2 ^ 15) ^ 7" by (simp only: power_mult_distrib power_mult [symmetric]) simp
  finally have "300 ^ 7 * 2 ^ level < (300 * 2 ^ 15 :: nat) ^ 7" .
  then have "root7 (300 ^ 7 * 2 ^ level) 0 (300 * 2 ^ 15) ^ 7 \<le> 300 ^ 7 * 2 ^ level
      \<and> 300 ^ 7 * 2 ^ level < Suc (root7 (300 ^ 7 * 2 ^ level) 0 (300 * 2 ^ 15)) ^ 7"
    by (intro root7_spec) (simp_all only: zero_power zero_less_numeral zero_le)
  then show "(level_points level - level) ^ 7 \<le> 300 ^ 7 * 2 ^ level"
      "300 ^ 7 * 2 ^ level < Suc (level_points level - level) ^ 7"
    unfolding level_points_def by simp_all
qed

lemma level_points_ge: "level \<le> level_points level"
  by (simp add: level_points_def)

lemma root_floor:
  assumes "r ^ 7 \<le> 300 ^ 7 * 2 ^ l" "300 ^ 7 * 2 ^ l < Suc r ^ 7"
  shows "nat \<lfloor>300 * 2 powr (real l / 7)\<rfloor> = r"
proof -
  define x where "x = 300 * 2 powr (real l / 7)"
  have x0: "0 \<le> x" by (simp add: x_def)
  have "(2 powr (real l / 7)) ^ 7 = 2 powr (7 * (real l / 7))"
    by (simp add: powr_power)
  also have "\<dots> = 2 ^ l" by (simp add: powr_realpow)
  finally have x7: "x ^ 7 = 300 ^ 7 * 2 ^ l" unfolding x_def power_mult_distrib by (simp only:)
  have "real (r ^ 7) \<le> real (300 ^ 7 * 2 ^ l)" using assms(1) by (simp only: of_nat_le_iff)
  then have "real r ^ 7 \<le> x ^ 7" unfolding x7 by (simp only: of_nat_power of_nat_mult of_nat_numeral)
  then have 1: "real r \<le> x" by (rule power_le_imp_le_base [of _ 6, simplified]) (rule x0)
  have "real (300 ^ 7 * 2 ^ l) < real (Suc r ^ 7)" using assms(2) by (simp only: of_nat_less_iff)
  then have "x ^ 7 < real (Suc r) ^ 7" unfolding x7 by (simp only: of_nat_power of_nat_mult of_nat_numeral)
  then have 2: "x < real (Suc r)" by (rule power_less_imp_less_base) simp
  have "\<lfloor>x\<rfloor> = int r" using 1 2 by (intro floor_unique) simp_all
  then show ?thesis unfolding x_def [symmetric] by simp
qed

lemma level_points_floor:
  assumes "level < 99"
  shows "level_points level = nat \<lfloor>real level + 300 * 2 powr (real level / 7)\<rfloor>"
proof -
  have "nat \<lfloor>300 * 2 powr (real level / 7)\<rfloor> = level_points level - level"
    by (rule root_floor) (rule level_root [OF assms])+
  moreover have "\<lfloor>real level + 300 * 2 powr (real level / 7)\<rfloor> = int level + \<lfloor>300 * 2 powr (real level / 7)\<rfloor>"
    by linarith
  moreover have "0 \<le> \<lfloor>300 * 2 powr (real level / 7) :: real\<rfloor>" by simp
  ultimately show ?thesis using level_points_ge [of level] by (simp add: nat_add_distrib)
qed

lemma level_points_bounds:
  assumes "level < 99"
  shows "300 \<le> level_points level" "level_points level < 10000000"
proof -
  let ?r = "level_points level - level"
  have "(300::nat) ^ 7 * 1 \<le> 300 ^ 7 * 2 ^ level" by (intro mult_le_mono2) simp
  also have "\<dots> < Suc ?r ^ 7" by (rule level_root(2) [OF assms])
  finally have "300 ^ 7 < Suc ?r ^ 7" by (simp only: mult_1_right)
  then have "300 < Suc ?r" by (rule power_less_imp_less_base) simp
  then show "300 \<le> level_points level" by linarith
  have "?r ^ 7 \<le> 300 ^ 7 * 2 ^ level" by (rule level_root(1) [OF assms])
  also have "\<dots> \<le> 300 ^ 7 * 2 ^ 105" using assms by (intro mult_le_mono2 power_increasing) simp_all
  also have "\<dots> = (300 * 2 ^ 15) ^ 7" by (simp only: power_mult_distrib power_mult [symmetric]) simp
  finally have "?r \<le> 300 * 2 ^ 15" by (rule power_le_imp_le_base [of _ 6, simplified]) simp
  then show "level_points level < 10000000" using assms by simp
qed

section \<open>Levels\<close>

text \<open>The experience a level needs to be passed, and the reference: a player has the level one
  above the number of levels passed.\<close>

definition experience_for :: "nat \<Rightarrow> nat" where
  "experience_for level = sum_list (map level_points [1..<Suc level]) div 4"

definition levels_passed :: "nat \<Rightarrow> nat" where
  "levels_passed e = length (filter (\<lambda>level. experience_for level \<le> e) [1..<99])"

lemma points_bound:
  "level \<le> 99 \<Longrightarrow> sum_list (map level_points [1..<level]) \<le> 10000000 * level"
proof (induction level)
  case (Suc level)
  show ?case
  proof (cases "level = 0")
    case False
    then have "sum_list (map level_points [1..<Suc level]) = sum_list (map level_points [1..<level]) + level_points level"
      by (simp add: upt_Suc)
    then show ?thesis using Suc level_points_bounds(2) [of level] by simp
  qed simp
qed simp

lemma experience_for_mono: "j \<le> k \<Longrightarrow> experience_for j \<le> experience_for k"
proof -
  assume "j \<le> k"
  then have "[1..<Suc k] = [1..<Suc j] @ [Suc j..<Suc k]"
    using upt_add_eq_append [of 1 "Suc j" "k - j"] by simp
  then show ?thesis unfolding experience_for_def by (intro div_le_mono) (simp only: map_append sum_list_append le_add1)
qed

lemma level_loop_count:
  assumes "1 \<le> level" "level \<le> 99" "points = of_nat (sum_list (map level_points [1..<level]))"
  shows "level_loop level points e = of_nat (level + length (filter (\<lambda>k. experience_for k \<le> unat e) [level..<99]))"
  using assms
proof (induction level points e rule: level_loop.induct)
  case (1 level points e)
  show ?case
  proof (cases "level < 99")
    case False
    then show ?thesis using 1(3) by (simp add: level_loop.simps)
  next
    case True
    define n where "n = sum_list (map level_points [1..<Suc level])"
    have n: "n = sum_list (map level_points [1..<level]) + level_points level"
      using 1(2) by (simp add: n_def upt_Suc)
    have p: "points + of_nat (level_points level) = of_nat n" using 1(4) by (simp add: n)
    have small: "n < 4294967296" using points_bound [of "Suc level"] True by (simp add: n_def)
    have "300 \<le> n" using level_points_bounds(1) [OF True] by (simp add: n)
    then have xp: "1 \<le> n div 4" by simp
    have u: "unat (of_nat n :: u32) = n" using small by (simp add: unat_of_nat)
    have "unat ((of_nat n :: u32) div 4) = n div 4" by (simp add: unat_div u)
    moreover have "(1::u32) \<le> of_nat n div 4" using xp by (simp add: word_le_nat_alt calculation)
    ultimately have out: "unat ((of_nat n :: u32) div 4 - 1) = n div 4 - 1" by (simp add: unat_sub)
    have passed: "e \<le> (of_nat n :: u32) div 4 - 1 \<longleftrightarrow> \<not> experience_for level \<le> unat e"
      using xp unfolding word_le_nat_alt out experience_for_def n_def [symmetric] by linarith
    have range: "[level..<99] = level # [Suc level..<99]" using True by (simp add: upt_conv_Cons)
    show ?thesis
    proof (cases "experience_for level \<le> unat e")
      case True
      then have "level_loop level points e = level_loop (Suc level) (of_nat n) e"
        using \<open>level < 99\<close> passed by (simp add: level_loop.simps [of level] Let_def p)
      moreover have "level_loop (Suc level) (of_nat n) e
          = of_nat (Suc level + length (filter (\<lambda>k. experience_for k \<le> unat e) [Suc level..<99]))"
        using 1(1) [OF \<open>level < 99\<close> refl refl] passed True \<open>level < 99\<close> by (simp add: p n_def)
      ultimately show ?thesis using True by (simp add: range)
    next
      case False
      then have "experience_for k \<le> unat e \<longleftrightarrow> False" if "k \<in> set [level..<99]" for k
        using experience_for_mono [of level k] that by simp
      then have "filter (\<lambda>k. experience_for k \<le> unat e) [level..<99] = []" by (simp add: filter_empty_conv)
      moreover have "level_loop level points e = of_nat level"
        using \<open>level < 99\<close> passed False by (simp add: level_loop.simps [of level] Let_def p)
      ultimately show ?thesis by simp
    qed
  qed
qed

lemma GetSkillLevel_passed:
  "GetSkillLevel k s = of_nat (Suc (levels_passed (unat (GetSkillExperience k s))))"
  using level_loop_count [of 1 0] by (simp add: GetSkillLevel_def levels_passed_def)

lemma levels_passed_le: "levels_passed e \<le> 98"
  using length_filter_le [of _ "[1..<99]"] by (simp add: levels_passed_def)

lemma levels_passed_mono: "d \<le> e \<Longrightarrow> levels_passed d \<le> levels_passed e"
proof -
  assume "d \<le> e"
  have "length (filter P xs) \<le> length (filter Q xs)" if "\<And>x. P x \<Longrightarrow> Q x" for P Q and xs :: "nat list"
    using that by (induction xs) auto
  then show ?thesis unfolding levels_passed_def using \<open>d \<le> e\<close> by (meson le_trans)
qed

lemma unat_level: "n \<le> 98 \<Longrightarrow> unat (of_nat (Suc n) :: u8) = Suc n"
  by (simp only: unat_of_nat) simp

text \<open>Property C22. The level of a skill, computed by a loop that accumulates points in 32 bits, is
  one above the number of the 98 levels whose exact requirement the experience meets; the
  accumulation does not wrap, the level is between 1 and 99, and more experience never gives a
  lower one.\<close>

theorem GetSkillLevel_equiv:
  "unat (GetSkillLevel k s) = Suc (length (filter (\<lambda>level. experience_for level \<le> unat (GetSkillExperience k s)) [1..<99]))
    \<and> 1 \<le> unat (GetSkillLevel k s) \<and> unat (GetSkillLevel k s) \<le> 99
    \<and> unat (GetSkillLevel k s) \<le> unat (GetSkillLevel k (s\<lparr>skill_attack := max (skill_attack s) e\<rparr>))"
proof -
  have u: "unat (GetSkillLevel k t) = Suc (levels_passed (unat (GetSkillExperience k t)))" for t
    using levels_passed_le [of "unat (GetSkillExperience k t)"] by (simp only: GetSkillLevel_passed unat_level)
  have "GetSkillExperience k s \<le> GetSkillExperience k (s\<lparr>skill_attack := max (skill_attack s) e\<rparr>)"
    by (cases k) simp_all
  then have "levels_passed (unat (GetSkillExperience k s))
      \<le> levels_passed (unat (GetSkillExperience k (s\<lparr>skill_attack := max (skill_attack s) e\<rparr>)))"
    by (intro levels_passed_mono) (simp only: word_le_nat_alt)
  then show ?thesis
    using levels_passed_le [of "unat (GetSkillExperience k s)"] unfolding u levels_passed_def by simp
qed

end
