(* ===== verification/Players.thy ===== *)
theory Players
  imports Skills
begin

text \<open>
  Players (\<open>game/include/openrs/game/player.h\<close>, \<open>game/src/player.cpp\<close>): the model, the entity
  and the state of the client. Key derivation and Base64 (the cryptographic library) and the
  random block of the operating system are parameters.
\<close>

datatype DisplayMode = Unknown_mode | Unknown1_mode | Resizable | Unknown3_mode

record player =
  model :: player_model
  entity :: entity
  display_mode :: u8
  screen_width :: u16
  screen_height :: u16
  force_next_map_load_refresh :: bool
  run_energy :: u8
  hit_points :: u32
  old_items_look :: bool
  is_shift_drop :: bool
  is_slow_drag :: bool
  is_zoom :: bool
  update_movement_type :: bool
  is_running :: bool

text \<open>A display mode is an enumeration over a byte, cast from a byte of a packet: any byte is a value.\<close>

fun mode_code :: "DisplayMode \<Rightarrow> u8" where
  "mode_code Unknown_mode = 0"
| "mode_code Unknown1_mode = 1"
| "mode_code Resizable = 2"
| "mode_code Unknown3_mode = 3"

definition new_player :: player where
  "new_player = \<lparr>model = new_player_model, entity = SetNextGraphics (new_graphics 188) new_entity,
     display_mode = mode_code Unknown_mode, screen_width = 0, screen_height = 0,
     force_next_map_load_refresh = False, run_energy = 0, hit_points = 100, old_items_look = False,
     is_shift_drop = False, is_slow_drag = False, is_zoom = False, update_movement_type = True,
     is_running = True\<rparr>"

text \<open>Assignment copies the model and the entity; the rest of the state stays.\<close>

definition assign_player :: "player \<Rightarrow> player \<Rightarrow> player" where
  "assign_player p kOther = p\<lparr>model := model kOther, entity := entity kOther\<rparr>"

definition assign_model :: "player \<Rightarrow> player_model \<Rightarrow> player" where
  "assign_model p kOther = p\<lparr>model := kOther\<rparr>"

definition HasSkull :: "player \<Rightarrow> bool" where
  "HasSkull p \<longleftrightarrow> 0 < sint (skull_time_left (account (model p)))"

definition set_display_mode :: "u8 \<Rightarrow> player \<Rightarrow> player" where
  "set_display_mode kDisplayMode p = p\<lparr>display_mode := kDisplayMode\<rparr>"

definition set_screen_width :: "u16 \<Rightarrow> player \<Rightarrow> player" where
  "set_screen_width kScreenWidth p = p\<lparr>screen_width := kScreenWidth\<rparr>"

definition set_screen_height :: "u16 \<Rightarrow> player \<Rightarrow> player" where
  "set_screen_height kScreenHeight p = p\<lparr>screen_height := kScreenHeight\<rparr>"

definition set_force_next_map_load_refresh :: "bool \<Rightarrow> player \<Rightarrow> player" where
  "set_force_next_map_load_refresh kForce p = p\<lparr>force_next_map_load_refresh := kForce\<rparr>"

definition set_run_energy :: "u8 \<Rightarrow> player \<Rightarrow> player" where
  "set_run_energy kRunEnergy p = p\<lparr>run_energy := kRunEnergy\<rparr>"

definition set_hit_points :: "u8 \<Rightarrow> player \<Rightarrow> player" where
  "set_hit_points kHitPoints p = p\<lparr>hit_points := ucast kHitPoints\<rparr>"

definition set_old_items_look :: "bool \<Rightarrow> player \<Rightarrow> player" where
  "set_old_items_look kOldItemsLook p = p\<lparr>old_items_look := kOldItemsLook\<rparr>"

definition set_update_movement_type :: "bool \<Rightarrow> player \<Rightarrow> player" where
  "set_update_movement_type kUpdate p = p\<lparr>update_movement_type := kUpdate\<rparr>"

definition set_is_running :: "bool \<Rightarrow> player \<Rightarrow> player" where
  "set_is_running kIsRunning p = p\<lparr>is_running := kIsRunning\<rparr>"

section \<open>Passwords\<close>

text \<open>What the cryptographic library provides: \<open>PKCS5_PBKDF2_HMAC<SHA256>\<close> as a function of the
  password, the salt and the number of iterations, and the Base64 encoder. The encoder's sink
  appends to the output string.\<close>

record crypto =
  pbkdf2 :: "cstring \<Rightarrow> cstring \<Rightarrow> u32 \<Rightarrow> u8 list"
  base64 :: "u8 list \<Rightarrow> cstring"

definition EncodePassword :: "crypto \<Rightarrow> cstring \<Rightarrow> cstring \<Rightarrow> cstring \<Rightarrow> u32 \<Rightarrow> cstring" where
  "EncodePassword c kPassword kSalt out kIterations = out @ base64 c (pbkdf2 c kPassword kSalt kIterations)"

definition GenerateRandomString :: "crypto \<Rightarrow> u8 list \<Rightarrow> cstring \<Rightarrow> cstring" where
  "GenerateRandomString c random out = out @ base64 c random"

definition CheckPassword :: "crypto \<Rightarrow> cstring \<Rightarrow> u32 \<Rightarrow> player \<Rightarrow> bool" where
  "CheckPassword c kPassword kIterations p \<longleftrightarrow>
     EncodePassword c kPassword (salt (account (model p))) [] kIterations = password (account (model p))"

section \<open>Properties\<close>

text \<open>The invariant of a player: its graphics are a stack.\<close>

definition player_ok :: "player \<Rightarrow> bool" where
  "player_ok p \<longleftrightarrow> entity_ok (entity p)"

lemma new_player_ok [wf_intros]: "player_ok new_player"
  by (simp add: player_ok_def new_player_def SetNextGraphics_stack new_entity_ok)

lemma setters_ok [wf_intros]:
  "player_ok p \<Longrightarrow> player_ok (set_display_mode m p)"
  "player_ok p \<Longrightarrow> player_ok (set_screen_width w p)"
  "player_ok p \<Longrightarrow> player_ok (set_screen_height w p)"
  "player_ok p \<Longrightarrow> player_ok (assign_model p pm)"
  "player_ok q \<Longrightarrow> player_ok (assign_player p q)"
  by (simp_all add: player_ok_def set_display_mode_def set_screen_width_def set_screen_height_def
      assign_model_def assign_player_def)

lemma new_player_graphics: "stack_of (entity new_player) = [new_graphics 188]"
  using SetNextGraphics_stack(2) [OF new_entity_ok(1), of "new_graphics 188"]
  by (simp add: new_player_def new_entity_ok next_stack_def new_graphics_def)

lemma CheckPassword_iff:
  assumes "password (account (model p)) = EncodePassword c pw (salt (account (model p))) [] n" "inj (base64 c)"
  shows "CheckPassword c q n p
    \<longleftrightarrow> pbkdf2 c q (salt (account (model p))) n = pbkdf2 c pw (salt (account (model p))) n"
  using assms by (auto simp: CheckPassword_def EncodePassword_def inj_eq)

end
