(* ===== verification/Json.thy ===== *)
theory Json
  imports Prelude
begin

text \<open>
  JSON documents as the server uses them (\<open>external/json\<close>, the bundled single header): the values,
  access by key, conversion to strings and integers, clearing. Objects are maps ordered by their
  keys, so a document has one representation. Binary values, which no JSON text denotes, are left
  out.
\<close>

section \<open>Objects\<close>

text \<open>The order of \<open>std::string\<close>: bytes, from the left.\<close>

fun key_less :: "string \<Rightarrow> string \<Rightarrow> bool" where
  "key_less _ [] = False"
| "key_less [] (_ # _) = True"
| "key_less (c # cs) (d # ds) \<longleftrightarrow>
     (of_char c :: nat) < of_char d \<or> c = d \<and> key_less cs ds"

fun object_put :: "string \<Rightarrow> 'a \<Rightarrow> (string \<times> 'a) list \<Rightarrow> (string \<times> 'a) list" where
  "object_put k v [] = [(k, v)]"
| "object_put k v ((k', v') # kvs) =
     (if k = k' then (k, v) # kvs
      else if key_less k k' then (k, v) # (k', v') # kvs
      else (k', v') # object_put k v kvs)"

lemma key_less_irrefl [simp]: "\<not> key_less k k"
  by (induction k) simp_all

lemma key_less_trans: "key_less a b \<Longrightarrow> key_less b c \<Longrightarrow> key_less a c"
proof (induction a c arbitrary: b rule: key_less.induct)
  case (3 x xs z zs)
  then show ?case by (cases b) auto
qed (use key_less.elims(2) in \<open>force+\<close>)

lemma key_less_linear: "key_less a b \<or> a = b \<or> key_less b a"
proof (induction a b rule: key_less.induct)
  case (1 a)
  then show ?case by (cases a) simp_all
next
  case (3 c cs d ds)
  have "(of_char c :: nat) = of_char d \<longleftrightarrow> c = d" by (rule of_char_eq_iff)
  with 3 show ?case by (cases "(of_char c :: nat)" "(of_char d :: nat)" rule: linorder_cases) auto
qed simp

abbreviation sorted_keys :: "(string \<times> 'a) list \<Rightarrow> bool" where
  "sorted_keys kvs \<equiv> sorted_wrt key_less (map fst kvs)"

lemma map_of_object_put [simp]: "map_of (object_put k v kvs) = (map_of kvs)(k \<mapsto> v)"
  by (induction k v kvs rule: object_put.induct) (auto simp: fun_upd_twist)

lemma keys_object_put [simp]: "fst ` set (object_put k v kvs) = insert k (fst ` set kvs)"
  by (induction k v kvs rule: object_put.induct) auto

lemma sorted_object_put: "sorted_keys kvs \<Longrightarrow> sorted_keys (object_put k v kvs)"
proof (induction k v kvs rule: object_put.induct)
  case (2 k v k' v' kvs)
  then show ?case
    using key_less_linear [of k k'] keys_object_put [of k v kvs]
    by (auto dest: key_less_trans)
qed simp

lemma object_put_last:
  "\<forall>k' \<in> fst ` set kvs. key_less k' k \<Longrightarrow> object_put k v kvs = kvs @ [(k, v)]"
proof (induction kvs)
  case (Cons kv kvs)
  obtain k' v' where "kv = (k', v')" by fastforce
  moreover have "key_less k' k" using Cons.prems calculation by simp
  moreover from this have "k \<noteq> k'" "\<not> key_less k k'" using key_less_trans by fastforce+
  ultimately show ?case using Cons by simp
qed simp

lemma object_put_twice [simp]: "object_put k w (object_put k v kvs) = object_put k w kvs"
  by (induction k v kvs rule: object_put.induct) auto

section \<open>Values\<close>

text \<open>A floating-point number is \<open>m \<sqdot> 2\<^sup>e\<close>; negative zero is zero.\<close>

datatype json = Json_null | Json_bool bool | Json_integer int | Json_number nat | Json_float int int
  | Json_string cstring | Json_array "json list" | Json_object "(string \<times> json) list"

text \<open>The constant \<open>operator[]\<close>: a missing key is behind an assertion, a value that is not an
  object throws. The other one adds a missing key, with null as its value.\<close>

definition json_at :: "json \<Rightarrow> string \<Rightarrow> json res" where
  "json_at j key =
     (case j of
        Json_object kvs \<Rightarrow> (case map_of kvs key of Some v \<Rightarrow> Inr v | None \<Rightarrow> Inl (Undefined ''no such key''))
      | _ \<Rightarrow> Inl (Type_error ''cannot use operator[] with a string argument''))"

definition json_item :: "json \<Rightarrow> string \<Rightarrow> json res" where
  "json_item j key =
     (case j of
        Json_null \<Rightarrow> Inr Json_null
      | Json_object kvs \<Rightarrow> Inr (case map_of kvs key of Some v \<Rightarrow> v | None \<Rightarrow> Json_null)
      | _ \<Rightarrow> Inl (Type_error ''cannot use operator[] with a string argument''))"

definition json_contains :: "json \<Rightarrow> string \<Rightarrow> bool" where
  "json_contains j key = (case j of Json_object kvs \<Rightarrow> map_of kvs key \<noteq> None | _ \<Rightarrow> False)"

definition json_string :: "json \<Rightarrow> cstring res" where
  "json_string j = (case j of Json_string s \<Rightarrow> Inr s | _ \<Rightarrow> Inl (Type_error ''type must be string''))"

text \<open>The conversion of a floating-point number to an integer drops its fraction; it is undefined
  when what is left does not fit.\<close>

definition truncated :: "int \<Rightarrow> int \<Rightarrow> int" where
  "truncated m e = (if 0 \<le> e then m * 2 ^ nat e else sgn m * (\<bar>m\<bar> div 2 ^ nat (- e)))"

definition float_u32 :: "int \<Rightarrow> int \<Rightarrow> u32 res" where
  "float_u32 m e =
     (let i = truncated m e
      in if 0 \<le> i \<and> i < 2 ^ 32 then Inr (of_int i) else Inl (Undefined ''conversion out of range''))"

text \<open>\<open>get<uint32_t>\<close> converts; \<open>get<std::vector<uint32_t>>\<close> converts the elements in turn.\<close>

definition json_u32 :: "json \<Rightarrow> u32 res" where
  "json_u32 j =
     (case j of
        Json_number n \<Rightarrow> Inr (of_nat n)
      | Json_integer i \<Rightarrow> Inr (of_int i)
      | Json_float m e \<Rightarrow> float_u32 m e
      | Json_bool b \<Rightarrow> Inr (if b then 1 else 0)
      | _ \<Rightarrow> Inl (Type_error ''type must be number''))"

fun json_numbers :: "json list \<Rightarrow> u32 list res" where
  "json_numbers [] = Inr []"
| "json_numbers (j # js) =
     bind_res (json_u32 j) (\<lambda>n. bind_res (json_numbers js) (\<lambda>ns. Inr (n # ns)))"

definition json_u32s :: "json \<Rightarrow> u32 list res" where
  "json_u32s j = (case j of Json_array js \<Rightarrow> json_numbers js | _ \<Rightarrow> Inl (Type_error ''type must be array''))"

text \<open>\<open>clear\<close> keeps the type of the value.\<close>

fun json_clear :: "json \<Rightarrow> json" where
  "json_clear Json_null = Json_null"
| "json_clear (Json_bool _) = Json_bool False"
| "json_clear (Json_integer _) = Json_integer 0"
| "json_clear (Json_number _) = Json_number 0"
| "json_clear (Json_float _ _) = Json_float 0 0"
| "json_clear (Json_string _) = Json_string []"
| "json_clear (Json_array _) = Json_array []"
| "json_clear (Json_object _) = Json_object []"

text \<open>\<open>j[key] = v\<close> and \<open>j[a][b] = v\<close>, which creates the objects on the way.\<close>

definition json_put :: "string \<Rightarrow> json \<Rightarrow> json \<Rightarrow> json res" where
  "json_put key v j =
     (case j of
        Json_null \<Rightarrow> Inr (Json_object [(key, v)])
      | Json_object kvs \<Rightarrow> Inr (Json_object (object_put key v kvs))
      | _ \<Rightarrow> Inl (Type_error ''cannot use operator[] with a string argument''))"

definition json_set :: "string \<Rightarrow> string \<Rightarrow> json \<Rightarrow> json \<Rightarrow> json res" where
  "json_set a b v j =
     bind_res (json_item j a) (\<lambda>child. bind_res (json_put b v child) (\<lambda>child. json_put a child j))"

lemmas json_ops = json_set_def json_put_def json_at_def json_item_def

lemma json_numbers_map [simp]: "json_numbers (map (\<lambda>n. Json_integer (int n)) ns) = Inr (map of_nat ns)"
  by (induction ns) (simp_all add: json_u32_def)

end
