(* ===== verification/JsonLexer.thy ===== *)
theory JsonLexer
  imports Json
begin

text \<open>
  The scanner of JSON text (the class \<open>lexer\<close> of \<open>external/json\<close>). The input is the list of the
  bytes that are left; \<open>unget\<close> leaves the byte in it. A token carries the value the scanner has
  decoded. What is left after an error is not read again, and is empty here. The locale is \<open>C\<close>,
  which the program never changes, and comments are errors, as they are for \<open>operator>>\<close>.
\<close>

datatype json_token =
    literal_true | literal_false | literal_null
  | value_string cstring
  | value_unsigned nat
  | value_integer int
  | value_float "(int \<times> int) option"
  | begin_array | begin_object | end_array | end_object | name_separator | value_separator
  | parse_error | end_of_input

section \<open>Strings\<close>

text \<open>Four hexadecimal digits.\<close>

definition hex_value :: "u8 \<Rightarrow> nat option" where
  "hex_value c =
     (if 48 \<le> c \<and> c \<le> 57 then Some (unat c - 48)
      else if 65 \<le> c \<and> c \<le> 70 then Some (unat c - 55)
      else if 97 \<le> c \<and> c \<le> 102 then Some (unat c - 87)
      else None)"

fun get_codepoint :: "nat list \<Rightarrow> nat \<Rightarrow> u8 list \<Rightarrow> (nat \<times> u8 list) option" where
  "get_codepoint [] codepoint cs = Some (codepoint, cs)"
| "get_codepoint (factor # factors) codepoint [] = None"
| "get_codepoint (factor # factors) codepoint (c # cs) =
     (case hex_value c of
        None \<Rightarrow> None
      | Some d \<Rightarrow> get_codepoint factors (codepoint + push_bit factor d) cs)"

text \<open>The bytes of a code point.\<close>

definition codepoint_bytes :: "nat \<Rightarrow> u8 list" where
  "codepoint_bytes codepoint =
     (if codepoint < 128 then [of_nat codepoint]
      else if codepoint \<le> 2047
      then [of_nat (192 OR drop_bit 6 codepoint), of_nat (128 OR (codepoint AND 63))]
      else if codepoint \<le> 65535
      then [of_nat (224 OR drop_bit 12 codepoint), of_nat (128 OR (drop_bit 6 codepoint AND 63)),
            of_nat (128 OR (codepoint AND 63))]
      else [of_nat (240 OR drop_bit 18 codepoint), of_nat (128 OR (drop_bit 12 codepoint AND 63)),
            of_nat (128 OR (drop_bit 6 codepoint AND 63)), of_nat (128 OR (codepoint AND 63))])"

text \<open>After \<open>\u\<close>: a code point, or two for a pair of surrogates.\<close>

definition scan_unicode :: "u8 list \<Rightarrow> (u8 list \<times> u8 list) option" where
  "scan_unicode cs =
     (case get_codepoint [12, 8, 4, 0] 0 cs of
        None \<Rightarrow> None
      | Some (codepoint1, cs) \<Rightarrow>
          if 55296 \<le> codepoint1 \<and> codepoint1 \<le> 56319
          then (case cs of
                  c1 # c2 # cs \<Rightarrow>
                    if c1 = 92 \<and> c2 = 117
                    then (case get_codepoint [12, 8, 4, 0] 0 cs of
                            None \<Rightarrow> None
                          | Some (codepoint2, cs) \<Rightarrow>
                              if 56320 \<le> codepoint2 \<and> codepoint2 \<le> 57343
                              then Some (codepoint_bytes (push_bit 10 codepoint1 + codepoint2 - 56613888), cs)
                              else None)
                    else None
                | _ \<Rightarrow> None)
          else if 56320 \<le> codepoint1 \<and> codepoint1 \<le> 57343 then None
          else Some (codepoint_bytes codepoint1, cs))"

definition scan_escape :: "u8 list \<Rightarrow> (u8 list \<times> u8 list) option" where
  "scan_escape cs =
     (case cs of
        [] \<Rightarrow> None
      | c # cs \<Rightarrow>
          if c = 34 then Some ([34], cs)
          else if c = 92 then Some ([92], cs)
          else if c = 47 then Some ([47], cs)
          else if c = 98 then Some ([8], cs)
          else if c = 102 then Some ([12], cs)
          else if c = 110 then Some ([10], cs)
          else if c = 114 then Some ([13], cs)
          else if c = 116 then Some ([9], cs)
          else if c = 117 then scan_unicode cs
          else None)"

text \<open>The bytes that continue a sequence must lie in these ranges.\<close>

fun next_byte_in_range :: "(u8 \<times> u8) list \<Rightarrow> u8 list \<Rightarrow> u8 list \<Rightarrow> (u8 list \<times> u8 list) option" where
  "next_byte_in_range [] added cs = Some (added, cs)"
| "next_byte_in_range ((low, high) # ranges) added [] = None"
| "next_byte_in_range ((low, high) # ranges) added (c # cs) =
     (if low \<le> c \<and> c \<le> high then next_byte_in_range ranges (added @ [c]) cs else None)"

text \<open>One turn of the loop: what a byte other than the closing quote adds to the token.\<close>

definition scan_char :: "u8 \<Rightarrow> u8 list \<Rightarrow> (u8 list \<times> u8 list) option" where
  "scan_char c cs =
     (if c = 92 then scan_escape cs
      else if c \<le> 31 then None
      else if c \<le> 127 then Some ([c], cs)
      else if 194 \<le> c \<and> c \<le> 223 then next_byte_in_range [(128, 191)] [c] cs
      else if c = 224 then next_byte_in_range [(160, 191), (128, 191)] [c] cs
      else if 225 \<le> c \<and> c \<le> 236 \<or> c = 238 \<or> c = 239
      then next_byte_in_range [(128, 191), (128, 191)] [c] cs
      else if c = 237 then next_byte_in_range [(128, 159), (128, 191)] [c] cs
      else if c = 240 then next_byte_in_range [(144, 191), (128, 191), (128, 191)] [c] cs
      else if 241 \<le> c \<and> c \<le> 243
      then next_byte_in_range [(128, 191), (128, 191), (128, 191)] [c] cs
      else if c = 244 then next_byte_in_range [(128, 143), (128, 191), (128, 191)] [c] cs
      else None)"

lemma get_codepoint_length: "get_codepoint fs n cs = Some (m, rest) \<Longrightarrow> length rest \<le> length cs"
  by (induction fs n cs rule: get_codepoint.induct) (auto split: option.splits)

lemma next_byte_in_range_length:
  "next_byte_in_range ranges added cs = Some (bs, rest) \<Longrightarrow> length rest \<le> length cs"
  by (induction ranges added cs rule: next_byte_in_range.induct) (auto split: if_splits)

lemma scan_unicode_length: "scan_unicode cs = Some (bs, rest) \<Longrightarrow> length rest \<le> length cs"
  unfolding scan_unicode_def
  by (auto split: option.splits if_splits list.splits dest!: get_codepoint_length)

lemma scan_escape_length: "scan_escape cs = Some (bs, rest) \<Longrightarrow> length rest \<le> length cs"
  unfolding scan_escape_def
  by (auto split: list.splits if_splits dest!: scan_unicode_length)

lemma scan_char_length: "scan_char c cs = Some (bs, rest) \<Longrightarrow> length rest \<le> length cs"
  unfolding scan_char_def
  by (auto split: if_splits dest: scan_escape_length next_byte_in_range_length)

function scan_string :: "u8 list \<Rightarrow> u8 list \<Rightarrow> json_token \<times> u8 list" where
  "scan_string token_buffer [] = (parse_error, [])"
| "scan_string token_buffer (c # cs) =
     (if c = 34 then (value_string token_buffer, cs)
      else case scan_char c cs of
        None \<Rightarrow> (parse_error, [])
      | Some (added, rest) \<Rightarrow> scan_string (token_buffer @ added) rest)"
  by pat_completeness auto
termination
  by (relation "measure (\<lambda>(_, cs). length cs)") (auto dest!: scan_char_length)

section \<open>Numbers\<close>

text \<open>What \<open>strtoull\<close> and \<open>strtoll\<close> read: digits. What \<open>strtod\<close> reads: a sign, digits, a fraction and
  an exponent, as the digits and the power of ten.\<close>

definition is_digit :: "u8 \<Rightarrow> bool" where
  "is_digit c \<longleftrightarrow> 48 \<le> c \<and> c \<le> 57"

definition digits_value :: "u8 list \<Rightarrow> nat" where
  "digits_value = foldl (\<lambda>n c. 10 * n + (unat c - 48)) 0"

definition exponent_value :: "u8 list \<Rightarrow> int" where
  "exponent_value cs =
     (case cs of
        [] \<Rightarrow> 0
      | _ # cs \<Rightarrow> if cs \<noteq> [] \<and> hd cs = 45 then - int (digits_value (tl cs))
                  else if cs \<noteq> [] \<and> hd cs = 43 then int (digits_value (tl cs))
                  else int (digits_value cs))"

definition decimal_value :: "u8 list \<Rightarrow> nat \<times> int" where
  "decimal_value cs =
     (let whole = takeWhile is_digit cs; cs = dropWhile is_digit cs;
          fraction = (if cs \<noteq> [] \<and> hd cs = 46 then takeWhile is_digit (tl cs) else []);
          cs = (if cs \<noteq> [] \<and> hd cs = 46 then dropWhile is_digit (tl cs) else cs)
      in (digits_value (whole @ fraction), exponent_value cs - int (length fraction)))"

text \<open>The double nearest to a positive fraction, ties to even, as \<open>m \<sqdot> 2\<^sup>e\<close>; none when it is infinite.\<close>

fun bit_length :: "nat \<Rightarrow> nat" where
  "bit_length n = (if n = 0 then 0 else 1 + bit_length (n div 2))"

declare bit_length.simps [simp del]

definition scaled :: "nat \<Rightarrow> nat \<Rightarrow> int \<Rightarrow> nat \<times> nat" where
  "scaled num den e = (if 0 \<le> e then (num, den * 2 ^ nat e) else (num * 2 ^ nat (- e), den))"

definition nearest_double :: "nat \<Rightarrow> nat \<Rightarrow> (nat \<times> int) option" where
  "nearest_double num den =
     (let e = max (int (bit_length num) - int (bit_length den) - 53) (- 1074);
          e = (case scaled num den e of (n, d) \<Rightarrow> if 2 ^ 53 \<le> n div d then e + 1 else e)
      in case scaled num den e of (n, d) \<Rightarrow>
           let m = n div d; r = n mod d;
               m = (if d < 2 * r \<or> d = 2 * r \<and> odd m then m + 1 else m)
           in if 971 < e \<or> e = 971 \<and> 2 ^ 53 \<le> m then None else Some (m, e))"

definition strtod :: "u8 list \<Rightarrow> (int \<times> int) option" where
  "strtod cs =
     (let negative = (cs \<noteq> [] \<and> hd cs = 45)
      in case decimal_value (if negative then tl cs else cs) of (digits, exponent) \<Rightarrow>
           if digits = 0 then Some (0, 0)
           else case (if 0 \<le> exponent then nearest_double (digits * 10 ^ nat exponent) 1
                      else nearest_double digits (10 ^ nat (- exponent))) of
                  None \<Rightarrow> None
                | Some (m, e) \<Rightarrow> Some (if negative then - int m else int m, e))"

text \<open>An integer that does not fit its type becomes a floating-point number.\<close>

datatype number_type = Unsigned | Signed | Floating

definition number_token :: "number_type \<Rightarrow> u8 list \<Rightarrow> json_token" where
  "number_token number_type token_buffer =
     (case number_type of
        Unsigned \<Rightarrow>
          (let x = digits_value token_buffer
           in if x < 2 ^ 64 then value_unsigned x else value_float (strtod token_buffer))
      | Signed \<Rightarrow>
          (let x = - int (digits_value (tl token_buffer))
           in if - (2 ^ 63) \<le> x then value_integer x else value_float (strtod token_buffer))
      | Floating \<Rightarrow> value_float (strtod token_buffer))"

text \<open>The states of the automaton, with the bytes read so far; the labels of the source are their names.\<close>

definition scan_number_done :: "number_type \<Rightarrow> u8 list \<Rightarrow> u8 list \<Rightarrow> json_token \<times> u8 list" where
  "scan_number_done number_type token_buffer cs = (number_token number_type token_buffer, cs)"

fun scan_number_any2 :: "u8 list \<Rightarrow> u8 list \<Rightarrow> json_token \<times> u8 list" where
  "scan_number_any2 token_buffer [] = scan_number_done Floating token_buffer []"
| "scan_number_any2 token_buffer (c # cs) =
     (if is_digit c then scan_number_any2 (token_buffer @ [c]) cs
      else scan_number_done Floating token_buffer (c # cs))"

definition scan_number_sign :: "u8 list \<Rightarrow> u8 list \<Rightarrow> json_token \<times> u8 list" where
  "scan_number_sign token_buffer cs =
     (case cs of
        [] \<Rightarrow> (parse_error, [])
      | c # cs \<Rightarrow> if is_digit c then scan_number_any2 (token_buffer @ [c]) cs else (parse_error, []))"

definition scan_number_exponent :: "u8 list \<Rightarrow> u8 list \<Rightarrow> json_token \<times> u8 list" where
  "scan_number_exponent token_buffer cs =
     (case cs of
        [] \<Rightarrow> (parse_error, [])
      | c # cs \<Rightarrow>
          if c = 43 \<or> c = 45 then scan_number_sign (token_buffer @ [c]) cs
          else if is_digit c then scan_number_any2 (token_buffer @ [c]) cs
          else (parse_error, []))"

fun scan_number_decimal2 :: "u8 list \<Rightarrow> u8 list \<Rightarrow> json_token \<times> u8 list" where
  "scan_number_decimal2 token_buffer [] = scan_number_done Floating token_buffer []"
| "scan_number_decimal2 token_buffer (c # cs) =
     (if is_digit c then scan_number_decimal2 (token_buffer @ [c]) cs
      else if c = 101 \<or> c = 69 then scan_number_exponent (token_buffer @ [c]) cs
      else scan_number_done Floating token_buffer (c # cs))"

definition scan_number_decimal1 :: "u8 list \<Rightarrow> u8 list \<Rightarrow> json_token \<times> u8 list" where
  "scan_number_decimal1 token_buffer cs =
     (case cs of
        [] \<Rightarrow> (parse_error, [])
      | c # cs \<Rightarrow> if is_digit c then scan_number_decimal2 (token_buffer @ [c]) cs else (parse_error, []))"

fun scan_number_any1 :: "number_type \<Rightarrow> u8 list \<Rightarrow> u8 list \<Rightarrow> json_token \<times> u8 list" where
  "scan_number_any1 number_type token_buffer [] = scan_number_done number_type token_buffer []"
| "scan_number_any1 number_type token_buffer (c # cs) =
     (if is_digit c then scan_number_any1 number_type (token_buffer @ [c]) cs
      else if c = 46 then scan_number_decimal1 (token_buffer @ [c]) cs
      else if c = 101 \<or> c = 69 then scan_number_exponent (token_buffer @ [c]) cs
      else scan_number_done number_type token_buffer (c # cs))"

definition scan_number_zero :: "number_type \<Rightarrow> u8 list \<Rightarrow> u8 list \<Rightarrow> json_token \<times> u8 list" where
  "scan_number_zero number_type token_buffer cs =
     (case cs of
        [] \<Rightarrow> scan_number_done number_type token_buffer []
      | c # cs' \<Rightarrow>
          if c = 46 then scan_number_decimal1 (token_buffer @ [c]) cs'
          else if c = 101 \<or> c = 69 then scan_number_exponent (token_buffer @ [c]) cs'
          else scan_number_done number_type token_buffer cs)"

definition scan_number_minus :: "u8 list \<Rightarrow> u8 list \<Rightarrow> json_token \<times> u8 list" where
  "scan_number_minus token_buffer cs =
     (case cs of
        [] \<Rightarrow> (parse_error, [])
      | c # cs \<Rightarrow>
          if c = 48 then scan_number_zero Signed (token_buffer @ [c]) cs
          else if is_digit c then scan_number_any1 Signed (token_buffer @ [c]) cs
          else (parse_error, []))"

definition scan_number :: "u8 \<Rightarrow> u8 list \<Rightarrow> json_token \<times> u8 list" where
  "scan_number c cs =
     (if c = 45 then scan_number_minus [c] cs
      else if c = 48 then scan_number_zero Unsigned [c] cs
      else scan_number_any1 Unsigned [c] cs)"

section \<open>Tokens\<close>

text \<open>The first byte of the literal has been read.\<close>

fun scan_literal :: "u8 list \<Rightarrow> json_token \<Rightarrow> u8 list \<Rightarrow> json_token \<times> u8 list" where
  "scan_literal [] token cs = (token, cs)"
| "scan_literal (l # ls) token [] = (parse_error, [])"
| "scan_literal (l # ls) token (c # cs) = (if c = l then scan_literal ls token cs else (parse_error, []))"

definition is_space :: "u8 \<Rightarrow> bool" where
  "is_space c \<longleftrightarrow> c = 32 \<or> c = 9 \<or> c = 10 \<or> c = 13"

definition skip_whitespace :: "u8 list \<Rightarrow> u8 list" where
  "skip_whitespace = dropWhile is_space"

definition scan_token :: "u8 list \<Rightarrow> json_token \<times> u8 list" where
  "scan_token cs =
     (case skip_whitespace cs of
        [] \<Rightarrow> (end_of_input, [])
      | c # cs \<Rightarrow>
          if c = 91 then (begin_array, cs)
          else if c = 93 then (end_array, cs)
          else if c = 123 then (begin_object, cs)
          else if c = 125 then (end_object, cs)
          else if c = 58 then (name_separator, cs)
          else if c = 44 then (value_separator, cs)
          else if c = 116 then scan_literal (ascii ''rue'') literal_true cs
          else if c = 102 then scan_literal (ascii ''alse'') literal_false cs
          else if c = 110 then scan_literal (ascii ''ull'') literal_null cs
          else if c = 34 then scan_string [] cs
          else if c = 45 \<or> is_digit c then scan_number c cs
          else if c = 0 then (end_of_input, cs)
          else (parse_error, []))"

text \<open>The first token comes after a byte order mark, if there is one.\<close>

definition skip_bom :: "u8 list \<Rightarrow> u8 list option" where
  "skip_bom cs =
     (case cs of
        [] \<Rightarrow> Some []
      | c # cs' \<Rightarrow>
          if c = 239
          then (case cs' of
                  c1 # c2 # rest \<Rightarrow> if c1 = 187 \<and> c2 = 191 then Some rest else None
                | _ \<Rightarrow> None)
          else Some cs)"

definition scan_first :: "u8 list \<Rightarrow> json_token \<times> u8 list" where
  "scan_first cs = (case skip_bom cs of None \<Rightarrow> (parse_error, []) | Some cs \<Rightarrow> scan_token cs)"

section \<open>Progress\<close>

text \<open>A token takes at least one byte, unless there is none left.\<close>

lemma scan_string_length: "scan_string tb cs = (t, rest) \<Longrightarrow> length rest \<le> length cs"
proof (induction tb cs rule: scan_string.induct)
  case (2 tb c cs)
  then show ?case by (fastforce split: if_splits option.splits dest: scan_char_length)
qed simp

lemma scan_number_lengths:
  "scan_number_any2 tb cs = (t, rest) \<Longrightarrow> length rest \<le> length cs"
  "scan_number_decimal2 tb cs = (t, rest) \<Longrightarrow> length rest \<le> length cs"
  "scan_number_any1 ty tb cs = (t, rest) \<Longrightarrow> length rest \<le> length cs"
proof -
  show any2: "scan_number_any2 tb cs = (t, rest) \<Longrightarrow> length rest \<le> length cs" for tb cs
    by (induction tb cs rule: scan_number_any2.induct) (auto simp: scan_number_done_def split: if_splits)
  have exponent: "scan_number_exponent tb cs = (t, rest) \<Longrightarrow> length rest \<le> length cs" for tb cs
    by (auto simp: scan_number_exponent_def scan_number_sign_def split: list.splits if_splits dest!: any2)
  show decimal2: "scan_number_decimal2 tb cs = (t, rest) \<Longrightarrow> length rest \<le> length cs" for tb cs
    by (induction tb cs rule: scan_number_decimal2.induct)
      (auto simp: scan_number_done_def split: if_splits dest: exponent)
  show "scan_number_any1 ty tb cs = (t, rest) \<Longrightarrow> length rest \<le> length cs"
    by (induction ty tb cs rule: scan_number_any1.induct)
      (auto simp: scan_number_done_def scan_number_decimal1_def split: if_splits list.splits
        dest: exponent decimal2)
qed

lemma scan_number_length: "scan_number c cs = (t, rest) \<Longrightarrow> length rest \<le> length cs"
  by (auto simp: scan_number_def scan_number_minus_def scan_number_zero_def scan_number_exponent_def
      scan_number_sign_def scan_number_decimal1_def scan_number_done_def
      split: if_splits list.splits dest!: scan_number_lengths)

lemma scan_literal_length: "scan_literal ls t0 cs = (t, rest) \<Longrightarrow> length rest \<le> length cs"
  by (induction ls t0 cs rule: scan_literal.induct) (auto split: if_splits)

lemma skip_whitespace_length: "length (skip_whitespace cs) \<le> length cs"
  by (simp add: skip_whitespace_def length_dropWhile_le)

lemma scan_token_length:
  assumes "scan_token cs = (t, rest)"
  shows "length rest \<le> length cs \<and> (t \<noteq> end_of_input \<longrightarrow> length rest < length cs)"
proof (cases "skip_whitespace cs")
  case Nil
  then show ?thesis using assms by (simp add: scan_token_def)
next
  case (Cons c cs')
  have "length rest \<le> length cs'"
    using assms Cons
    by (auto simp: scan_token_def split: if_splits
        dest: scan_literal_length scan_string_length scan_number_length)
  then show ?thesis using skip_whitespace_length [of cs] Cons by simp
qed

end
