(* ===== verification/JsonParser.thy ===== *)
theory JsonParser
  imports JsonLexer
begin

text \<open>
  Reading JSON (the classes \<open>parser\<close> and \<open>json_sax_dom_parser\<close> of \<open>external/json\<close>), as
  \<open>operator>>\<close> does: into a variable, whose old value stays when nothing has been read, and
  without a look at what follows the value. An exception leaves what has been built so far.
\<close>

section \<open>The document under construction\<close>

text \<open>\<open>ref_stack\<close> points to the arrays and objects that are open, the innermost first here. An open
  container is kept with the elements it has; in an object, \<open>object_element\<close> is the last key.
  What the pointers point to is assembled by \<open>document\<close>.\<close>

datatype open_value = Open_array "json list" | Open_object "(string \<times> json) list" string

record dom =
  root :: json
  ref_stack :: "open_value list"

fun container :: "open_value \<Rightarrow> json" where
  "container (Open_array js) = Json_array js"
| "container (Open_object kvs key) = Json_object kvs"

fun insert_value :: "json \<Rightarrow> open_value \<Rightarrow> open_value" where
  "insert_value j (Open_array js) = Open_array (js @ [j])"
| "insert_value j (Open_object kvs key) = Open_object (object_put key j kvs) key"

definition handle_value :: "json \<Rightarrow> dom \<Rightarrow> dom" where
  "handle_value j d =
     (case ref_stack d of
        [] \<Rightarrow> d\<lparr>root := j\<rparr>
      | v # vs \<Rightarrow> d\<lparr>ref_stack := insert_value j v # vs\<rparr>)"

definition start_object :: "dom \<Rightarrow> dom" where
  "start_object d = d\<lparr>ref_stack := Open_object [] [] # ref_stack d\<rparr>"

definition start_array :: "dom \<Rightarrow> dom" where
  "start_array d = d\<lparr>ref_stack := Open_array [] # ref_stack d\<rparr>"

text \<open>A key that is new is given the value null at once.\<close>

definition dom_key :: "cstring \<Rightarrow> dom \<Rightarrow> dom" where
  "dom_key s d =
     (case ref_stack d of
        Open_object kvs _ # vs \<Rightarrow>
          let key = map (\<lambda>b. char_of (unat b)) s;
              kvs = (if map_of kvs key = None then object_put key Json_null kvs else kvs)
          in d\<lparr>ref_stack := Open_object kvs key # vs\<rparr>
      | _ \<Rightarrow> d)"

definition end_container :: "dom \<Rightarrow> dom" where
  "end_container d =
     (case ref_stack d of
        [] \<Rightarrow> d
      | v # vs \<Rightarrow> handle_value (container v) (d\<lparr>ref_stack := vs\<rparr>))"

definition document :: "dom \<Rightarrow> json" where
  "document d =
     (case ref_stack d of
        [] \<Rightarrow> root d
      | v # vs \<Rightarrow> fold (\<lambda>v j. container (insert_value j v)) vs (container v))"

section \<open>The parser\<close>

text \<open>What reading a document into a variable leaves there: the document, or an exception and what
  was built by then: a \<open>parse_error\<close>, or an \<open>out_of_range\<close> for a number no double is near to.\<close>

datatype parsed = Parsed json | Parse_error json | Number_overflow json

text \<open>The token starts a value. The loop either goes on with another value or has a complete one.\<close>

datatype progress =
    Next_value "bool list" json_token "u8 list" dom
  | Value_done "bool list" "u8 list" dom
  | Stop parsed

text \<open>A key and its separator, then the first token of its value.\<close>

definition parse_member :: "bool list \<Rightarrow> json_token \<Rightarrow> u8 list \<Rightarrow> dom \<Rightarrow> progress" where
  "parse_member states token cs d =
     (case token of
        value_string s \<Rightarrow>
          (case scan_token cs of
             (name_separator, cs) \<Rightarrow>
               (case scan_token cs of (token, cs) \<Rightarrow> Next_value states token cs (dom_key s d))
           | _ \<Rightarrow> Stop (Parse_error (document (dom_key s d))))
      | _ \<Rightarrow> Stop (Parse_error (document d)))"

definition parse_value :: "bool list \<Rightarrow> json_token \<Rightarrow> u8 list \<Rightarrow> dom \<Rightarrow> progress" where
  "parse_value states token cs d =
     (case token of
        begin_object \<Rightarrow>
          (case scan_token cs of
             (token, cs) \<Rightarrow>
               if token = end_object then Value_done states cs (end_container (start_object d))
               else parse_member (False # states) token cs (start_object d))
      | begin_array \<Rightarrow>
          (case scan_token cs of
             (token, cs) \<Rightarrow>
               if token = end_array then Value_done states cs (end_container (start_array d))
               else Next_value (True # states) token cs (start_array d))
      | value_float None \<Rightarrow> Stop (Number_overflow (document d))
      | value_float (Some (m, e)) \<Rightarrow> Value_done states cs (handle_value (Json_float m e) d)
      | literal_false \<Rightarrow> Value_done states cs (handle_value (Json_bool False) d)
      | literal_null \<Rightarrow> Value_done states cs (handle_value Json_null d)
      | literal_true \<Rightarrow> Value_done states cs (handle_value (Json_bool True) d)
      | value_integer i \<Rightarrow> Value_done states cs (handle_value (Json_integer i) d)
      | value_string s \<Rightarrow> Value_done states cs (handle_value (Json_string s) d)
      | value_unsigned n \<Rightarrow> Value_done states cs (handle_value (Json_number n) d)
      | _ \<Rightarrow> Stop (Parse_error (document d)))"

text \<open>After a value: the end, another value, or the end of what is around it.\<close>

definition evaluate_state :: "bool list \<Rightarrow> u8 list \<Rightarrow> dom \<Rightarrow> progress" where
  "evaluate_state states cs d =
     (case states of
        [] \<Rightarrow> Stop (Parsed (document d))
      | in_array # outer \<Rightarrow>
          (case scan_token cs of
             (token, cs) \<Rightarrow>
               if token = value_separator
               then (case scan_token cs of
                       (token, cs) \<Rightarrow>
                         if in_array then Next_value states token cs d
                         else parse_member states token cs d)
               else if token = (if in_array then end_array else end_object)
               then Value_done outer cs (end_container d)
               else Stop (Parse_error (document d))))"

text \<open>The loop: a token starts a value, \<open>None\<close> is the evaluation of the state after one.\<close>

definition parse_step :: "bool list \<Rightarrow> json_token option \<Rightarrow> u8 list \<Rightarrow> dom \<Rightarrow> progress" where
  "parse_step states token cs d =
     (case token of None \<Rightarrow> evaluate_state states cs d | Some t \<Rightarrow> parse_value states t cs d)"

definition parse_left :: "json_token option \<Rightarrow> u8 list \<Rightarrow> nat" where
  "parse_left token cs =
     2 * length cs + (case token of Some t \<Rightarrow> if t = end_of_input then 0 else 1 | None \<Rightarrow> 0)"

lemma scan_token_left:
  assumes "scan_token cs = (t, rest)"
  shows "parse_left (Some t) rest < parse_left (Some t') cs \<or> t' = end_of_input"
    and "t \<noteq> end_of_input \<Longrightarrow> length rest < length cs"
    and "length rest \<le> length cs"
  using scan_token_length [OF assms] by (auto simp: parse_left_def)

lemma parse_member_left:
  assumes "parse_member states t cs d = Next_value states' t' cs' d'"
  shows "parse_left (Some t') cs' < 2 * length cs"
proof -
  obtain cs1 where 1: "scan_token cs = (name_separator, cs1)" "scan_token cs1 = (t', cs')"
    using assms by (auto simp: parse_member_def split: json_token.splits prod.splits)
  then have "length cs1 < length cs" "length cs' \<le> length cs1"
    using scan_token_left(2,3) by blast+
  then show ?thesis by (simp add: parse_left_def)
qed

lemma parse_member_progress: "parse_member states t cs d \<noteq> Value_done states' cs' d'"
  by (auto simp: parse_member_def split: json_token.splits prod.splits)

lemma parse_step_left:
  "parse_step states t cs d = Next_value states' t' cs' d' \<Longrightarrow> parse_left (Some t') cs' < parse_left t cs"
  "parse_step states t cs d = Value_done states' cs' d' \<Longrightarrow> parse_left None cs' < parse_left t cs"
proof -
  have left: "parse_left None cs = 2 * length cs" "parse_left (Some t) cs \<le> 2 * length cs + 1" for cs t
    by (simp_all add: parse_left_def)
  show "parse_left (Some t') cs' < parse_left t cs" if "parse_step states t cs d = Next_value states' t' cs' d'"
  proof (cases t)
    case None
    obtain tok cs1 where 1: "scan_token cs = (tok, cs1)" by fastforce
    obtain tok2 cs2 where 2: "scan_token cs1 = (tok2, cs2)" by fastforce
    from that None 1 2 have 3: "tok = value_separator"
      "tok2 = t' \<and> cs2 = cs' \<or> parse_member states tok2 cs2 d = Next_value states' t' cs' d'"
      by (auto simp: parse_step_def evaluate_state_def split: list.splits if_splits)
    have "length cs1 < length cs" using 1 3(1) scan_token_left(2) by blast
    moreover have "length cs2 \<le> length cs1" using 2 scan_token_left(3) by blast
    moreover have "parse_left (Some t') cs' \<le> 2 * length cs2 + 1"
      using 3(2) left(2) [of t' cs'] parse_member_left [of states tok2 cs2 d states' t' cs' d'] by auto
    ultimately show ?thesis using None left(1) by simp
  next
    case (Some tok)
    obtain tok1 cs1 where 1: "scan_token cs = (tok1, cs1)" by fastforce
    with that Some have 2: "tok \<noteq> end_of_input"
      "tok1 = t' \<and> cs1 = cs' \<or> (\<exists>st d1. parse_member st tok1 cs1 d1 = Next_value states' t' cs' d')"
      by (auto simp: parse_step_def parse_value_def split: json_token.splits if_splits option.splits)
    have "parse_left (Some t') cs' < 2 * length cs + 1"
      using 2(2) parse_member_left [of _ tok1 cs1] scan_token_left [OF 1] by (fastforce simp: parse_left_def)
    then show ?thesis using Some 2(1) by (simp add: parse_left_def)
  qed
  show "parse_left None cs' < parse_left t cs" if "parse_step states t cs d = Value_done states' cs' d'"
  proof (cases t)
    case None
    obtain tok cs1 where 1: "scan_token cs = (tok, cs1)" by fastforce
    with that None have "tok \<noteq> end_of_input" "cs1 = cs'"
      by (auto simp: parse_step_def evaluate_state_def parse_member_progress split: list.splits prod.splits if_splits)
    with 1 have "scan_token cs = (tok, cs')" "tok \<noteq> end_of_input" by simp_all
    then have "length cs' < length cs" using scan_token_left(2) by blast
    then show ?thesis using None left(1) by simp
  next
    case (Some tok)
    obtain tok1 cs1 where 1: "scan_token cs = (tok1, cs1)" by fastforce
    with that Some have "tok \<noteq> end_of_input" "cs' = cs \<or> cs' = cs1"
      by (auto simp: parse_step_def parse_value_def parse_member_progress
          split: json_token.splits if_splits option.splits)
    with 1 have "tok \<noteq> end_of_input" "cs' = cs \<or> (\<exists>t. scan_token cs = (t, cs'))" by auto
    then have "length cs' \<le> length cs" using scan_token_left(3) by blast
    then show ?thesis using Some \<open>tok \<noteq> end_of_input\<close> by (simp add: parse_left_def)
  qed
qed

function sax_parse_internal :: "bool list \<Rightarrow> json_token option \<Rightarrow> u8 list \<Rightarrow> dom \<Rightarrow> parsed" where
  "sax_parse_internal states token cs d =
     (case parse_step states token cs d of
        Next_value states token cs d \<Rightarrow> sax_parse_internal states (Some token) cs d
      | Value_done states cs d \<Rightarrow> sax_parse_internal states None cs d
      | Stop r \<Rightarrow> r)"
  by pat_completeness auto
termination
  by (relation "measure (\<lambda>(_, t, cs, _). parse_left t cs)") (auto dest: parse_step_left)

declare sax_parse_internal.simps [simp del]

text \<open>\<open>stream >> j\<close>, where the stream holds these bytes; a file that is missing holds none.\<close>

definition read_json :: "u8 list \<Rightarrow> json \<Rightarrow> parsed" where
  "read_json cs j =
     (case scan_first cs of
        (token, cs) \<Rightarrow> sax_parse_internal [] (Some token) cs \<lparr>root = j, ref_stack = []\<rparr>)"

end
