(* ===== verification/JsonPrinter.thy ===== *)
theory JsonPrinter
  imports Json
begin

text \<open>
  Printing JSON (the class \<open>serializer\<close> of \<open>external/json\<close>), as \<open>operator<<\<close> uses it: invalid
  UTF-8 throws, the indentation is by spaces. The shortest decimal of a floating-point number is
  the parameter \<open>to_chars\<close>.
\<close>

section \<open>Integers\<close>

text \<open>Digits are counted four at a time, and written from the end two at a time.\<close>

fun count_digits_from :: "nat \<Rightarrow> nat \<Rightarrow> nat" where
  "count_digits_from n_digits x =
     (if x < 10 then n_digits
      else if x < 100 then n_digits + 1
      else if x < 1000 then n_digits + 2
      else if x < 10000 then n_digits + 3
      else count_digits_from (n_digits + 4) (x div 10000))"

declare count_digits_from.simps [simp del]

definition count_digits :: "nat \<Rightarrow> nat" where
  "count_digits x = count_digits_from 1 x"

definition digits_to_99 :: "(u8 \<times> u8) list" where
  "digits_to_99 = map (\<lambda>i. (of_nat (48 + i div 10), of_nat (48 + i mod 10))) [0..<100]"

fun write_digits :: "nat \<Rightarrow> nat \<Rightarrow> u8 list \<Rightarrow> u8 list" where
  "write_digits abs_value ptr buf =
     (if 100 \<le> abs_value
      then let (d1, d0) = digits_to_99 ! (abs_value mod 100)
           in write_digits (abs_value div 100) (ptr - 2) (buf[ptr - 1 := d0, ptr - 2 := d1])
      else if 10 \<le> abs_value
      then let (d1, d0) = digits_to_99 ! abs_value in buf[ptr - 1 := d0, ptr - 2 := d1]
      else buf[ptr - 1 := of_nat (48 + abs_value)])"

declare write_digits.simps [simp del]

text \<open>The smallest integer has no negation of its type: one is added before and after.\<close>

definition remove_sign :: "int \<Rightarrow> nat" where
  "remove_sign x = nat (- (x + 1)) + 1"

definition number_buffer :: "u8 list" where
  "number_buffer = replicate 64 0"

definition dump_integer :: "int \<Rightarrow> u8 list" where
  "dump_integer x =
     (if x = 0 then [48]
      else if x < 0
      then let abs_value = remove_sign x; n_chars = 1 + count_digits abs_value
           in take n_chars (write_digits abs_value n_chars (number_buffer[0 := 45]))
      else let abs_value = nat x; n_chars = count_digits abs_value
           in take n_chars (write_digits abs_value n_chars number_buffer))"

section \<open>Strings\<close>

text \<open>The automaton that decodes UTF-8: the classes of the bytes, then the transitions.\<close>

definition utf8d :: "nat list" where
  "utf8d =
     replicate 128 0 @ replicate 16 1 @ replicate 16 9 @ replicate 32 7
     @ replicate 2 8 @ replicate 30 2
     @ [10, 3, 3, 3, 3, 3, 3, 3, 3, 3, 3, 3, 3, 4, 3, 3]
     @ [11, 6, 6, 6, 5, 8, 8, 8, 8, 8, 8, 8, 8, 8, 8, 8]
     @ [0, 1, 2, 3, 5, 8, 7, 1, 1, 1, 4, 6, 1, 1, 1, 1]
     @ [1, 1, 1, 1, 1, 1, 1, 1, 1, 1, 1, 1, 1, 1, 1, 1, 1, 0, 1, 1, 1, 1, 1, 0, 1, 0, 1, 1, 1, 1, 1, 1]
     @ [1, 2, 1, 1, 1, 1, 1, 2, 1, 2, 1, 1, 1, 1, 1, 1, 1, 1, 1, 1, 1, 1, 1, 2, 1, 1, 1, 1, 1, 1, 1, 1]
     @ [1, 2, 1, 1, 1, 1, 1, 1, 1, 2, 1, 1, 1, 1, 1, 1, 1, 1, 1, 1, 1, 1, 1, 3, 1, 3, 1, 1, 1, 1, 1, 1]
     @ [1, 3, 1, 1, 1, 1, 1, 3, 1, 3, 1, 1, 1, 1, 1, 1, 1, 3, 1, 1, 1, 1, 1, 1, 1, 1, 1, 1, 1, 1, 1, 1]"

definition decode :: "nat \<Rightarrow> nat \<Rightarrow> u8 \<Rightarrow> nat \<times> nat" where
  "decode state codep byte =
     (let type = utf8d ! unat byte
      in (utf8d ! (256 + state * 16 + type),
          if state \<noteq> 0 then (unat byte AND 63) OR push_bit 6 codep else drop_bit type 255 AND unat byte))"

text \<open>\<open>\u%04x\<close>, in lower case.\<close>

definition hex_digit :: "nat \<Rightarrow> u8" where
  "hex_digit d = (if d < 10 then of_nat (48 + d) else of_nat (87 + d))"

definition hex_escape :: "nat \<Rightarrow> u8 list" where
  "hex_escape c = [92, 117, hex_digit (c div 4096 mod 16), hex_digit (c div 256 mod 16),
     hex_digit (c div 16 mod 16), hex_digit (c mod 16)]"

text \<open>What a code point adds to the buffer, and the room that takes: \<open>snprintf\<close> needs one byte more.\<close>

definition escape :: "bool \<Rightarrow> nat \<Rightarrow> u8 \<Rightarrow> u8 list \<times> nat" where
  "escape ensure_ascii codepoint byte =
     (if codepoint = 8 then ([92, 98], 2)
      else if codepoint = 9 then ([92, 116], 2)
      else if codepoint = 10 then ([92, 110], 2)
      else if codepoint = 12 then ([92, 102], 2)
      else if codepoint = 13 then ([92, 114], 2)
      else if codepoint = 34 then ([92, 34], 2)
      else if codepoint = 92 then ([92, 92], 2)
      else if codepoint \<le> 31 \<or> ensure_ascii \<and> 127 \<le> codepoint
      then (if codepoint \<le> 65535 then (hex_escape codepoint, 7)
            else (hex_escape (55232 + drop_bit 10 codepoint) @ hex_escape (56320 + (codepoint AND 1023)), 13))
      else ([byte], 1))"

text \<open>The buffer has 512 bytes. Writing past it is undefined; it is flushed when less than 13 are left.\<close>

definition put_chars :: "u8 list \<Rightarrow> nat \<Rightarrow> u8 list \<Rightarrow> u8 list res" where
  "put_chars cs room buf =
     (if length buf + room \<le> 512 then Inr (buf @ cs) else Inl (Undefined ''write past the string buffer''))"

definition flush_chars :: "u8 list \<times> u8 list \<Rightarrow> u8 list \<times> u8 list" where
  "flush_chars = (\<lambda>(out, buf). if 512 - length buf < 13 then (out @ buf, []) else (out, buf))"

fun escape_loop :: "bool \<Rightarrow> cstring \<Rightarrow> nat \<Rightarrow> nat \<Rightarrow> u8 list \<Rightarrow> u8 list \<Rightarrow> u8 list res" where
  "escape_loop ensure_ascii [] state codep out buf =
     (if state = 0 then Inr (out @ buf) else Inl (Type_error ''incomplete UTF-8 string''))"
| "escape_loop ensure_ascii (byte # s) state codep out buf =
     (case decode state codep byte of (state, codep) \<Rightarrow>
        if state = 0
        then (case escape ensure_ascii codep byte of (cs, room) \<Rightarrow>
                bind_res (put_chars cs room buf) (\<lambda>buf.
                  case flush_chars (out, buf) of (out, buf) \<Rightarrow> escape_loop ensure_ascii s state codep out buf))
        else if state = 1 then Inl (Type_error ''invalid UTF-8 byte'')
        else if ensure_ascii then escape_loop ensure_ascii s state codep out buf
        else bind_res (put_chars [byte] 1 buf) (escape_loop ensure_ascii s state codep out))"

definition dump_escaped :: "bool \<Rightarrow> cstring \<Rightarrow> u8 list res" where
  "dump_escaped ensure_ascii s = escape_loop ensure_ascii s 0 0 [] []"

section \<open>Values\<close>

text \<open>The string of spaces that indentation is written from, \<open>indent_string\<close>, is known by its size: 512
  at first, and doubled, once, when a level needs more. A zero byte stands behind it; reading past
  that is undefined. Indentations are of type \<open>unsigned int\<close>.\<close>

definition new_indent :: "nat \<Rightarrow> nat \<Rightarrow> nat" where
  "new_indent current step = (current + step) mod 2 ^ 32"

definition grow_indent :: "nat \<Rightarrow> nat \<Rightarrow> nat" where
  "grow_indent indent sz = (if sz < indent then 2 * sz else sz)"

definition write_indent :: "nat \<Rightarrow> nat \<Rightarrow> u8 list res" where
  "write_indent sz indent =
     (if indent \<le> sz then Inr (replicate indent 32)
      else if indent = sz + 1 then Inr (replicate sz 32 @ [0])
      else Inl (Undefined ''read past the indentation string''))"

text \<open>Characters are written as their codes: 34 is the quotation mark, 44 the comma, 58 the colon, 91
  and 93 the brackets, 92 the reverse solidus, 123 and 125 the braces. What is printed comes with the
  size of \<open>indent_string\<close> after it.\<close>

fun dump :: "(int \<Rightarrow> int \<Rightarrow> u8 list) \<Rightarrow> bool \<Rightarrow> bool \<Rightarrow> nat \<Rightarrow> nat \<Rightarrow> json \<Rightarrow> nat \<Rightarrow> (u8 list \<times> nat) res"
  and dump_members :: "(int \<Rightarrow> int \<Rightarrow> u8 list) \<Rightarrow> bool \<Rightarrow> bool \<Rightarrow> nat \<Rightarrow> nat \<Rightarrow> (string \<times> json) list \<Rightarrow> nat \<Rightarrow> (u8 list \<times> nat) res"
  and dump_elements :: "(int \<Rightarrow> int \<Rightarrow> u8 list) \<Rightarrow> bool \<Rightarrow> bool \<Rightarrow> nat \<Rightarrow> nat \<Rightarrow> json list \<Rightarrow> nat \<Rightarrow> (u8 list \<times> nat) res" where
  "dump to_chars pretty ensure_ascii step current (Json_object kvs) sz =
     (if kvs = [] then Inr ([123, 125], sz)
      else if pretty
      then let indent = new_indent current step in
           bind_res (dump_members to_chars pretty ensure_ascii step indent kvs (grow_indent indent sz)) (\<lambda>(out, sz).
           bind_res (write_indent sz current) (\<lambda>pre.
             Inr ([123, 10] @ out @ [10] @ pre @ [125], sz)))
      else bind_res (dump_members to_chars pretty ensure_ascii step current kvs sz) (\<lambda>(out, sz).
             Inr ([123] @ out @ [125], sz)))"
| "dump to_chars pretty ensure_ascii step current (Json_array js) sz =
     (if js = [] then Inr ([91, 93], sz)
      else if pretty
      then let indent = new_indent current step in
           bind_res (dump_elements to_chars pretty ensure_ascii step indent js (grow_indent indent sz)) (\<lambda>(out, sz).
           bind_res (write_indent sz current) (\<lambda>pre.
             Inr ([91, 10] @ out @ [10] @ pre @ [93], sz)))
      else bind_res (dump_elements to_chars pretty ensure_ascii step current js sz) (\<lambda>(out, sz).
             Inr ([91] @ out @ [93], sz)))"
| "dump to_chars pretty ensure_ascii step current (Json_string s) sz =
     bind_res (dump_escaped ensure_ascii s) (\<lambda>out. Inr ([34] @ out @ [34], sz))"
| "dump to_chars pretty ensure_ascii step current (Json_bool b) sz =
     Inr (if b then ascii ''true'' else ascii ''false'', sz)"
| "dump to_chars pretty ensure_ascii step current (Json_integer i) sz = Inr (dump_integer i, sz)"
| "dump to_chars pretty ensure_ascii step current (Json_number n) sz = Inr (dump_integer (int n), sz)"
| "dump to_chars pretty ensure_ascii step current (Json_float m e) sz = Inr (to_chars m e, sz)"
| "dump to_chars pretty ensure_ascii step current Json_null sz = Inr (ascii ''null'', sz)"
| "dump_members to_chars pretty ensure_ascii step indent [] sz = Inr ([], sz)"
| "dump_members to_chars pretty ensure_ascii step indent ((k, j) # kvs) sz =
     bind_res (if pretty then write_indent sz indent else Inr []) (\<lambda>pre.
     bind_res (dump_escaped ensure_ascii (ascii k)) (\<lambda>key.
     bind_res (dump to_chars pretty ensure_ascii step indent j sz) (\<lambda>(out, sz).
     bind_res (dump_members to_chars pretty ensure_ascii step indent kvs sz) (\<lambda>(rest, sz).
       Inr (pre @ [34] @ key @ (if pretty then [34, 58, 32] else [34, 58]) @ out
         @ (if kvs = [] then [] else if pretty then [44, 10] else [44]) @ rest, sz)))))"
| "dump_elements to_chars pretty ensure_ascii step indent [] sz = Inr ([], sz)"
| "dump_elements to_chars pretty ensure_ascii step indent (j # js) sz =
     bind_res (if pretty then write_indent sz indent else Inr []) (\<lambda>pre.
     bind_res (dump to_chars pretty ensure_ascii step indent j sz) (\<lambda>(out, sz).
     bind_res (dump_elements to_chars pretty ensure_ascii step indent js sz) (\<lambda>(rest, sz).
       Inr (pre @ out @ (if js = [] then [] else if pretty then [44, 10] else [44]) @ rest, sz))))"

text \<open>\<open>stream << std::setw(width) << j\<close>. The fill character of the stream is the space, as the program
  never sets it.\<close>

definition write_json :: "(int \<Rightarrow> int \<Rightarrow> u8 list) \<Rightarrow> int \<Rightarrow> json \<Rightarrow> u8 list res" where
  "write_json to_chars width j =
     (let pretty_print = 0 < width; indentation = (if pretty_print then width else 0)
      in bind_res (dump to_chars pretty_print False (nat (indentation mod 2 ^ 32)) 0 j 512) (\<lambda>(out, _). Inr out))"

text \<open>A level that needs more than twice what there is reads past the string.\<close>

lemma wide_indentation_undefined:
  "write_json tc 1100 (Json_object [(''a'', Json_number 1)]) = Inl (Undefined ''read past the indentation string'')"
  by (simp add: write_json_def new_indent_def grow_indent_def write_indent_def)

end
