(* ===== verification/JsonText.thy ===== *)
theory JsonText
  imports JsonPrinter JsonLexer
begin

text \<open>
  What the printer writes is what the scanner reads: decimals, and strings, for which the automaton
  of the printer accepts the byte sequences the scanner has ranges for. Both are compared with a
  definition of their own, \<open>decimal\<close> and \<open>utf8\<close>.
\<close>

section \<open>Decimals\<close>

fun decimal :: "nat \<Rightarrow> u8 list" where
  "decimal n = (if n < 10 then [of_nat (48 + n)] else decimal (n div 10) @ [of_nat (48 + n mod 10)])"

declare decimal.simps [simp del]

lemma decimal_100: "100 \<le> n \<Longrightarrow> decimal n = decimal (n div 100) @ [of_nat (48 + n mod 100 div 10), of_nat (48 + n mod 10)]"
proof -
  assume n: "100 \<le> n"
  have "n div 10 mod 10 = n mod 100 div 10" using mod_mult2_eq [of n 10 10] by simp
  moreover have "\<not> n div 10 < 10" using n by (simp add: div_less_iff_less_mult)
  ultimately show ?thesis
    using n by (simp add: decimal.simps [of n] decimal.simps [of "n div 10"] div_mult2_eq [symmetric])
qed

lemma length_decimal_pos: "0 < length (decimal n)"
  by (simp add: decimal.simps [of n])

lemma length_decimal_div: "10 \<le> n \<Longrightarrow> length (decimal n) = Suc (length (decimal (n div 10)))"
  by (simp add: decimal.simps [of n])

lemma length_decimal_le: "n < 10 ^ Suc k \<Longrightarrow> length (decimal n) \<le> Suc k"
proof (induction k arbitrary: n)
  case 0
  then show ?case by (simp add: decimal.simps)
next
  case (Suc k)
  show ?case
  proof (cases "n < 10")
    case True
    then show ?thesis by (simp add: decimal.simps)
  next
    case False
    have "n div 10 < 10 ^ Suc k" using Suc.prems by (simp add: less_mult_imp_div_less)
    from Suc.IH [OF this] show ?thesis using False by (simp add: length_decimal_div)
  qed
qed

lemma count_digits_from_decimal: "count_digits_from n x + 1 = n + length (decimal x)"
proof (induction n x rule: count_digits_from.induct)
  case (1 n x)
  show ?case
  proof (cases "x < 10000")
    case True
    then show ?thesis
      by (simp add: count_digits_from.simps [of n x] decimal.simps [of x] decimal.simps [of "x div 10"]
          decimal.simps [of "x div 100"] decimal.simps [of "x div 1000"] div_mult2_eq [symmetric] div_less_iff_less_mult)
  next
    case False
    have "length (decimal x) = 4 + length (decimal (x div 10000))"
      using False by (simp add: length_decimal_div div_mult2_eq [symmetric])
    then show ?thesis using 1 False by (simp add: count_digits_from.simps [of n x])
  qed
qed

lemma count_digits_decimal: "count_digits x = length (decimal x)"
  using count_digits_from_decimal [of 1 x] by (simp add: count_digits_def)

lemma two_updates:
  assumes "ptr + 2 \<le> length buf"
  shows "buf[Suc ptr := a, ptr := b] = take ptr buf @ b # a # drop (ptr + 2) buf"
proof -
  have "buf = take ptr buf @ buf ! ptr # buf ! Suc ptr # drop (ptr + 2) buf"
    using assms id_take_nth_drop [of ptr buf] Cons_nth_drop_Suc [of "Suc ptr" buf] by simp
  then obtain xs p q ys where "buf = xs @ p # q # ys" "length xs = ptr" using assms by (metis length_take min.absorb2 add_leD1)
  then show ?thesis by (simp add: list_update_append)
qed

lemma digits_to_99: "i < 100 \<Longrightarrow> digits_to_99 ! i = (of_nat (48 + i div 10), of_nat (48 + i mod 10))"
  by (simp add: digits_to_99_def)

lemma write_digits_decimal:
  "length (decimal x) \<le> ptr \<Longrightarrow> ptr \<le> length buf \<Longrightarrow>
     write_digits x ptr buf = take (ptr - length (decimal x)) buf @ decimal x @ drop ptr buf"
proof (induction x ptr buf rule: write_digits.induct)
  case (1 x ptr buf)
  consider "100 \<le> x" | "10 \<le> x" "x < 100" | "x < 10" by linarith
  then show ?case
  proof cases
    case 1
    then have l: "length (decimal x) = Suc (Suc (length (decimal (x div 100))))" by (simp add: decimal_100)
    then obtain p where p: "ptr = Suc (Suc p)" "length (decimal (x div 100)) \<le> p"
      using "1.prems"(1) by (cases ptr; cases "ptr - 1") auto
    let ?buf = "buf[Suc p := of_nat (48 + x mod 100 mod 10), p := of_nat (48 + x mod 100 div 10)]"
    have b: "?buf = take p buf @ of_nat (48 + x mod 100 div 10) # of_nat (48 + x mod 100 mod 10) # drop (p + 2) buf"
      by (rule two_updates) (use "1.prems"(2) p in simp)
    have "write_digits x ptr buf = write_digits (x div 100) p ?buf"
      using 1 p by (simp add: write_digits.simps [of x] digits_to_99)
    also have "\<dots> = take (p - length (decimal (x div 100))) ?buf @ decimal (x div 100) @ drop p ?buf"
      using "1.IH" [OF 1, of "(of_nat (48 + x mod 100 div 10), of_nat (48 + x mod 100 mod 10))"] p "1.prems"(2)
      by (simp add: digits_to_99)
    also have "\<dots> = take (ptr - length (decimal x)) buf @ decimal x @ drop ptr buf"
      using p l "1.prems"(2) 1 unfolding b by (simp add: decimal_100 mod_mod_cancel)
    finally show ?thesis .
  next
    case 2
    then have d: "decimal x = [of_nat (48 + x div 10), of_nat (48 + x mod 10)]"
      by (simp add: decimal.simps [of x] decimal.simps [of "x div 10"] div_less_iff_less_mult)
    then obtain p where p: "ptr = Suc (Suc p)" using "1.prems"(1) by (cases ptr; cases "ptr - 1") auto
    have "write_digits x ptr buf = buf[Suc p := of_nat (48 + x mod 10), p := of_nat (48 + x div 10)]"
      using 2 p by (simp add: write_digits.simps [of x] digits_to_99)
    then show ?thesis using "1.prems"(2) p d by (simp add: two_updates)
  next
    case 3
    then have d: "decimal x = [of_nat (48 + x)]" by (simp add: decimal.simps [of x])
    then obtain p where p: "ptr = Suc p" using "1.prems"(1) by (cases ptr) auto
    have "write_digits x ptr buf = buf[p := of_nat (48 + x)]"
      using 3 p by (simp add: write_digits.simps [of x])
    then show ?thesis using "1.prems"(2) p d by (simp add: upd_conv_take_nth_drop)
  qed
qed

text \<open>Integers of 64 bits, signed or not, fit the buffer and are printed in decimal.\<close>

lemma dump_integer_decimal:
  assumes "\<bar>x\<bar> < 2 ^ 64"
  shows "dump_integer x = (if x < 0 then [45] else []) @ decimal (nat \<bar>x\<bar>)"
proof -
  have n: "nat \<bar>x\<bar> < 10 ^ Suc 19" using assms by simp
  have l: "length (decimal (nat \<bar>x\<bar>)) \<le> 20" using length_decimal_le [OF n] by simp
  have u: "length (number_buffer[0 := 45]) = 64" "length number_buffer = 64"
    "take 1 (number_buffer[0 := 45]) = [45]" by (simp_all add: number_buffer_def numeral_eq_Suc)
  consider "x = 0" | "x < 0" | "0 < x" by linarith
  then show ?thesis
  proof cases
    case 1
    then show ?thesis by (simp add: dump_integer_def decimal.simps)
  next
    case 2
    then have "remove_sign x = nat \<bar>x\<bar>" by (simp add: remove_sign_def nat_eq_iff)
    then show ?thesis
      using 2 l u by (simp add: dump_integer_def Let_def count_digits_decimal write_digits_decimal)
  next
    case 3
    then show ?thesis
      using l u by (simp add: dump_integer_def Let_def count_digits_decimal write_digits_decimal)
  qed
qed

section \<open>Scanning decimals\<close>

text \<open>A number ends where no byte follows that would continue it.\<close>

definition ends_number :: "u8 list \<Rightarrow> bool" where
  "ends_number cs \<longleftrightarrow> cs = [] \<or> \<not> is_digit (hd cs) \<and> hd cs \<notin> {46, 69, 101}"

lemma unat_digit: "d < 10 \<Longrightarrow> unat (of_nat (48 + d) :: u8) = 48 + d"
  by (simp add: unat_of_nat del: of_nat_add)

lemma is_digit_of_nat: "d < 10 \<Longrightarrow> is_digit (of_nat (48 + d))"
  by (simp add: is_digit_def word_le_nat_alt unat_digit del: of_nat_add)

lemma decimal_digits: "list_all is_digit (decimal n)"
proof (induction n rule: decimal.induct)
  case (1 n)
  then show ?case by (simp add: decimal.simps [of n] is_digit_of_nat del: of_nat_add)
qed

lemma digits_value_snoc: "digits_value (cs @ [c]) = 10 * digits_value cs + (unat c - 48)"
  by (simp add: digits_value_def)

lemma digits_value_decimal [simp]: "digits_value (decimal n) = n"
proof (induction n rule: decimal.induct)
  case (1 n)
  have "digits_value [of_nat (48 + n)] = n" if "n < 10"
    using that by (simp add: digits_value_def unat_digit del: of_nat_add)
  then show ?case
    using 1 unat_digit [of "n mod 10"] by (simp add: decimal.simps [of n] digits_value_snoc del: of_nat_add)
qed

lemma decimal_Cons:
  assumes "0 < n"
  obtains c cs where "decimal n = c # cs" "is_digit c" "c \<noteq> 48" "c \<noteq> 45" "list_all is_digit cs"
proof -
  have "\<exists>c cs. decimal n = c # cs \<and> c \<noteq> 48" using assms
  proof (induction n rule: decimal.induct)
    case (1 n)
    have "(of_nat (48 + n) :: u8) \<noteq> 48" if "n < 10"
      using that 1(2) by (simp add: word_unat_eq_iff unat_digit del: of_nat_add)
    moreover have "\<exists>c cs. decimal n = c # cs \<and> c \<noteq> 48" if "\<not> n < 10"
    proof -
      have "0 < n div 10" using that by (simp add: div_greater_zero_iff)
      with 1(1) [OF that] obtain c cs where "decimal (n div 10) = c # cs" "c \<noteq> 48" by auto
      then show ?thesis using that by (simp add: decimal.simps [of n] del: of_nat_add)
    qed
    ultimately show ?case by (cases "n < 10") (simp_all add: decimal.simps [of n] del: of_nat_add)
  qed
  then obtain c cs where c: "decimal n = c # cs" "c \<noteq> 48" by blast
  then have "is_digit c" "list_all is_digit cs" using decimal_digits [of n] by simp_all
  moreover have "\<not> is_digit 45" by (simp add: is_digit_def)
  ultimately show thesis using that c by metis
qed

lemma scan_any1_digits:
  "list_all is_digit ds \<Longrightarrow> ends_number rest \<Longrightarrow>
     scan_number_any1 ty tb (ds @ rest) = (number_token ty (tb @ ds), rest)"
proof (induction ds arbitrary: tb)
  case Nil
  then show ?case by (cases rest) (auto simp: ends_number_def scan_number_done_def)
qed simp

lemma scan_zero: "ends_number rest \<Longrightarrow> scan_number_zero ty tb rest = (number_token ty tb, rest)"
  by (cases rest) (auto simp: ends_number_def scan_number_zero_def scan_number_done_def)

text \<open>A first byte of a value, or of anything else that is not white space.\<close>

lemma scan_token_spaces [simp]:
  "scan_token (replicate n 32 @ cs) = scan_token cs"
  "scan_token (32 # cs) = scan_token cs"
  "scan_token (10 # cs) = scan_token cs"
proof -
  show 1: "scan_token (32 # cs) = scan_token cs" "scan_token (10 # cs) = scan_token cs" for cs
    by (simp_all add: scan_token_def skip_whitespace_def is_space_def)
  show "scan_token (replicate n 32 @ cs) = scan_token cs"
    by (induction n) (simp_all add: 1)
qed

lemma is_digit_token:
  "is_digit c \<Longrightarrow> scan_token (c # cs) = scan_number c cs"
  "scan_token (45 # cs) = scan_number 45 cs"
  by (auto simp: scan_token_def skip_whitespace_def is_space_def is_digit_def word_le_nat_alt)

lemma scan_decimal:
  assumes "n < 2 ^ 64" "ends_number rest"
  shows "scan_token (decimal n @ rest) = (value_unsigned n, rest)"
proof (cases "n = 0")
  case True
  then show ?thesis
    using assms(2) by (simp add: decimal.simps is_digit_token is_digit_def scan_number_def scan_zero number_token_def
        digits_value_def)
next
  case False
  then obtain c cs where c: "decimal n = c # cs" "is_digit c" "c \<noteq> 48" "c \<noteq> 45" "list_all is_digit cs"
    by (rule decimal_Cons [OF neq0_conv [THEN iffD1]])
  then have "digits_value (c # cs) = n" using digits_value_decimal [of n] by simp
  then show ?thesis
    using c assms by (simp add: is_digit_token scan_number_def scan_any1_digits number_token_def)
qed

lemma scan_negative:
  assumes "0 < n" "n \<le> 2 ^ 63" "ends_number rest"
  shows "scan_token (45 # decimal n @ rest) = (value_integer (- int n), rest)"
proof -
  obtain c cs where c: "decimal n = c # cs" "is_digit c" "c \<noteq> 48" "c \<noteq> 45" "list_all is_digit cs"
    by (rule decimal_Cons [OF assms(1)])
  then have "digits_value (c # cs) = n" using digits_value_decimal [of n] by simp
  then show ?thesis
    using c assms by (simp add: is_digit_token scan_number_def scan_number_minus_def scan_any1_digits number_token_def)
qed

section \<open>Floating-point numbers\<close>

text \<open>The forms \<open>to_chars\<close> writes a floating-point number in: a sign, digits without a leading zero, a
  fraction, an exponent with its sign, and at least one of the two last.\<close>

definition exponent_text :: "u8 list \<Rightarrow> bool" where
  "exponent_text cs \<longleftrightarrow> 2 < length cs \<and> cs ! 0 = 101 \<and> cs ! 1 \<in> {43, 45} \<and> list_all is_digit (drop 2 cs)"

definition fraction_text :: "u8 list \<Rightarrow> bool" where
  "fraction_text cs \<longleftrightarrow>
     (if cs \<noteq> [] \<and> hd cs = 46
      then takeWhile is_digit (tl cs) \<noteq> []
        \<and> (dropWhile is_digit (tl cs) = [] \<or> exponent_text (dropWhile is_digit (tl cs)))
      else exponent_text cs)"

definition unsigned_text :: "u8 list \<Rightarrow> bool" where
  "unsigned_text cs \<longleftrightarrow>
     (takeWhile is_digit cs = [48] \<or> takeWhile is_digit cs \<noteq> [] \<and> hd cs \<noteq> 48) \<and> fraction_text (dropWhile is_digit cs)"

definition float_text :: "u8 list \<Rightarrow> bool" where
  "float_text cs \<longleftrightarrow> unsigned_text (if cs \<noteq> [] \<and> hd cs = 45 then tl cs else cs)"

lemma scan_any2_digits:
  "list_all is_digit ds \<Longrightarrow> ends_number rest \<Longrightarrow>
     scan_number_any2 tb (ds @ rest) = (number_token Floating (tb @ ds), rest)"
proof (induction ds arbitrary: tb)
  case Nil
  then show ?case by (cases rest) (auto simp: ends_number_def scan_number_done_def)
qed simp

lemma scan_exponent:
  assumes "exponent_text (101 # cs)" "ends_number rest"
  shows "scan_number_exponent tb (cs @ rest) = (number_token Floating (tb @ cs), rest)"
proof -
  obtain sg d ds where c: "cs = sg # d # ds" "sg = 43 \<or> sg = 45" "is_digit d" "list_all is_digit ds"
    using assms(1) by (cases cs; cases "tl cs") (auto simp: exponent_text_def)
  then show ?thesis
    by (simp add: scan_number_exponent_def scan_number_sign_def scan_any2_digits assms(2))
qed

lemma exponent_text_Cons: "exponent_text cs \<Longrightarrow> \<exists>ds. cs = 101 # ds"
  by (cases cs) (auto simp: exponent_text_def)

lemma scan_decimal2_digits:
  assumes "list_all is_digit ds" "cs = [] \<or> exponent_text cs" "ends_number rest"
  shows "scan_number_decimal2 tb (ds @ cs @ rest) = (number_token Floating (tb @ ds @ cs), rest)"
  using assms(1)
proof (induction ds arbitrary: tb)
  case Nil
  show ?case
  proof (cases "cs = []")
    case True
    then show ?thesis using assms(3) by (cases rest) (auto simp: ends_number_def scan_number_done_def)
  next
    case False
    then obtain es where "cs = 101 # es" using assms(2) exponent_text_Cons by blast
    then show ?thesis using assms(2,3) False by (simp add: is_digit_def scan_exponent)
  qed
qed simp

text \<open>After the digits before the point, in either state that reads them.\<close>

lemma scan_fraction:
  assumes "fraction_text cs" "ends_number rest"
  shows "scan_number_any1 ty tb (cs @ rest) = (number_token Floating (tb @ cs), rest)"
    and "scan_number_zero ty tb (cs @ rest) = (number_token Floating (tb @ cs), rest)"
proof -
  obtain c ds where c: "cs = c # ds"
    using assms(1) by (cases cs) (auto simp: fraction_text_def exponent_text_def)
  have "scan_number_decimal1 (tb @ [46]) (ds @ rest) = (number_token Floating (tb @ cs), rest)" if p: "c = 46"
  proof -
    let ?ds = "takeWhile is_digit ds" and ?es = "dropWhile is_digit ds"
    have d: "ds = ?ds @ ?es" "list_all is_digit ?ds" "?ds \<noteq> []" "?es = [] \<or> exponent_text ?es"
      using assms(1) c p by (auto simp: fraction_text_def list_all_iff dest: set_takeWhileD split: if_splits)
    then obtain d' ds' where d': "?ds = d' # ds'" by (cases ?ds) auto
    have "scan_number_decimal2 (tb @ [46, d']) (ds' @ ?es @ rest) = (number_token Floating ((tb @ [46, d']) @ ds' @ ?es), rest)"
      using d(2,4) d' by (intro scan_decimal2_digits assms(2)) simp_all
    moreover have "ds @ rest = d' # ds' @ ?es @ rest" "tb @ cs = (tb @ [46, d']) @ ds' @ ?es"
      using d(1) d' c p by (metis append_Cons append_assoc, metis append_Cons append_assoc append_Nil)
    ultimately show ?thesis using d(2) d' unfolding scan_number_decimal1_def by (simp only:) simp
  qed
  moreover have "c = 101" "scan_number_exponent (tb @ [101]) (ds @ rest) = (number_token Floating (tb @ cs), rest)" if "c \<noteq> 46"
  proof -
    show e: "c = 101" using assms(1) c that exponent_text_Cons by (auto simp: fraction_text_def)
    show "scan_number_exponent (tb @ [101]) (ds @ rest) = (number_token Floating (tb @ cs), rest)"
      using assms c that e scan_exponent [of ds rest "tb @ [101]"] by (simp add: fraction_text_def)
  qed
  ultimately show "scan_number_any1 ty tb (cs @ rest) = (number_token Floating (tb @ cs), rest)"
    "scan_number_zero ty tb (cs @ rest) = (number_token Floating (tb @ cs), rest)"
    using c by (cases "c = 46"; simp add: is_digit_def scan_number_zero_def)+
qed

lemma scan_whole:
  assumes "list_all is_digit ds" "fraction_text cs" "ends_number rest"
  shows "scan_number_any1 ty tb (ds @ cs @ rest) = (number_token Floating (tb @ ds @ cs), rest)"
  using assms(1)
proof (induction ds arbitrary: tb)
  case Nil
  then show ?case using scan_fraction(1) assms(2,3) by simp
qed simp

lemma unsigned_text_cases:
  assumes "unsigned_text cs"
  obtains fs where "cs = 48 # fs" "fraction_text fs"
  | c ds fs where "cs = c # ds @ fs" "is_digit c" "c \<noteq> 48" "list_all is_digit ds" "fraction_text fs"
proof -
  let ?ds = "takeWhile is_digit cs" and ?fs = "dropWhile is_digit cs"
  have d: "cs = ?ds @ ?fs" "list_all is_digit ?ds" "fraction_text ?fs" "?ds = [48] \<or> ?ds \<noteq> [] \<and> hd cs \<noteq> 48"
    using assms by (auto simp: unsigned_text_def list_all_iff dest: set_takeWhileD)
  show thesis
  proof (cases "?ds = [48]")
    case True
    then show ?thesis using that(1) [of ?fs] d(1,3) by (metis append_Cons append_Nil)
  next
    case False
    then obtain c ds where c: "?ds = c # ds" "hd cs \<noteq> 48" using d(4) by (cases ?ds) auto
    then have cs: "cs = c # ds @ ?fs" using d(1) by (metis append_Cons)
    then have "c \<noteq> 48" using c(2) by (metis list.sel(1))
    with that(2) [OF cs] c(1) d(2,3) show ?thesis by simp
  qed
qed

lemma scan_float:
  assumes "float_text cs" "ends_number rest"
  shows "scan_token (cs @ rest) = (value_float (strtod cs), rest)"
proof (cases "cs \<noteq> [] \<and> hd cs = 45")
  case True
  then obtain us where u: "cs = 45 # us" "unsigned_text us"
    using assms(1) by (cases cs) (auto simp: float_text_def)
  from u(2) show ?thesis
    by (cases rule: unsigned_text_cases)
      (auto simp: u(1) is_digit_token scan_number_def scan_number_minus_def scan_fraction scan_whole assms(2)
        number_token_def)
next
  case False
  then have "unsigned_text cs" using assms(1) unfolding float_text_def by (simp only: if_False)
  then show ?thesis
  proof (cases rule: unsigned_text_cases)
    case (1 fs)
    then show ?thesis
      by (simp add: is_digit_token is_digit_def scan_number_def scan_fraction assms(2) number_token_def)
  next
    case (2 c ds fs)
    moreover have "c \<noteq> 45" using 2(1) False by simp
    ultimately show ?thesis
      by (simp add: is_digit_token scan_number_def scan_whole assms(2) number_token_def)
  qed
qed

end
