(* ===== verification/Utf8.thy ===== *)
theory Utf8
  imports JsonPrinter JsonLexer
begin

text \<open>
  UTF-8 in the JSON library, which has it twice: as an automaton in the printer and as ranges of bytes
  in the scanner. \<open>utf8\<close> says what a well-formed string is, by the ranges of the Unicode standard.
  The printer writes exactly the well-formed strings, the scanner reads no others, and what is
  written is read back.
\<close>

section \<open>Well-formed strings\<close>

text \<open>The ranges of the bytes after a first byte.\<close>

definition continuations :: "u8 \<Rightarrow> (u8 \<times> u8) list option" where
  "continuations c =
     (if c \<le> 127 then Some []
      else if 194 \<le> c \<and> c \<le> 223 then Some [(128, 191)]
      else if c = 224 then Some [(160, 191), (128, 191)]
      else if 225 \<le> c \<and> c \<le> 236 \<or> c = 238 \<or> c = 239 then Some [(128, 191), (128, 191)]
      else if c = 237 then Some [(128, 159), (128, 191)]
      else if c = 240 then Some [(144, 191), (128, 191), (128, 191)]
      else if 241 \<le> c \<and> c \<le> 243 then Some [(128, 191), (128, 191), (128, 191)]
      else if c = 244 then Some [(128, 143), (128, 191), (128, 191)]
      else None)"

definition in_ranges :: "u8 list \<Rightarrow> (u8 \<times> u8) list \<Rightarrow> bool" where
  "in_ranges = list_all2 (\<lambda>c (low, high). low \<le> c \<and> c \<le> high)"

inductive utf8 :: "u8 list \<Rightarrow> bool" where
  Nil: "utf8 []"
| Cons: "continuations c = Some rs \<Longrightarrow> in_ranges cs rs \<Longrightarrow> utf8 s \<Longrightarrow> utf8 (c # cs @ s)"

lemma in_ranges_simps [simp]:
  "in_ranges [] rs \<longleftrightarrow> rs = []"
  "in_ranges cs [] \<longleftrightarrow> cs = []"
  "in_ranges (c # cs) ((l, h) # rs) \<longleftrightarrow> l \<le> c \<and> c \<le> h \<and> in_ranges cs rs"
  by (auto simp: in_ranges_def)

lemma utf8_append: "utf8 s \<Longrightarrow> utf8 t \<Longrightarrow> utf8 (s @ t)"
  by (induction s rule: utf8.induct) (auto intro: utf8.intros)

lemma utf8_char: "continuations c = Some rs \<Longrightarrow> in_ranges cs rs \<Longrightarrow> utf8 (c # cs)"
  using utf8.Cons [of c rs cs "[]"] utf8.Nil by simp

lemma utf8_ascii: "c \<le> 127 \<Longrightarrow> utf8 [c]"
  by (rule utf8_char [of c "[]"]) (simp_all add: continuations_def)

lemma continuations_cases:
  assumes "continuations c = Some rs"
  shows "c \<le> 127 \<and> rs = [] \<or> \<not> c \<le> 127 \<and> rs \<in> {[(128, 191)], [(160, 191), (128, 191)], [(128, 191), (128, 191)],
    [(128, 159), (128, 191)], [(144, 191), (128, 191), (128, 191)],
    [(128, 191), (128, 191), (128, 191)], [(128, 143), (128, 191), (128, 191)]}"
  using assms unfolding continuations_def by (auto split: if_splits)

section \<open>The automaton\<close>

text \<open>The ranges that a state of the automaton waits for.\<close>

definition expects :: "nat \<Rightarrow> (u8 \<times> u8) list option" where
  "expects state =
     (if state = 0 then Some []
      else if state = 2 then Some [(128, 191)]
      else if state = 3 then Some [(128, 191), (128, 191)]
      else if state = 4 then Some [(160, 191), (128, 191)]
      else if state = 5 then Some [(128, 159), (128, 191)]
      else if state = 6 then Some [(144, 191), (128, 191), (128, 191)]
      else if state = 7 then Some [(128, 191), (128, 191), (128, 191)]
      else if state = 8 then Some [(128, 143), (128, 191), (128, 191)]
      else None)"

definition byte_class :: "nat \<Rightarrow> nat" where
  "byte_class b =
     (if b < 128 then 0 else if b < 144 then 1 else if b < 160 then 9 else if b < 192 then 7
      else if b < 194 then 8 else if b < 224 then 2 else if b = 224 then 10 else if b = 237 then 4
      else if b < 240 then 3 else if b = 240 then 11 else if b < 244 then 6 else if b = 244 then 5 else 8)"

lemma utf8d_class:
  assumes "b < 256"
  shows "utf8d ! b = byte_class b"
proof (cases "b < 224")
  case True
  consider "b < 128" | "128 \<le> b" "b < 144" | "144 \<le> b" "b < 160" | "160 \<le> b" "b < 192"
    | "192 \<le> b" "b < 194" | "194 \<le> b" "b < 224"
    using True by linarith
  then show ?thesis by cases (simp_all add: utf8d_def byte_class_def nth_append, linarith+)
next
  case False
  have "\<forall>b \<in> set [224..<256]. utf8d ! b = byte_class b" by code_simp
  moreover have "b \<in> set [224..<256]" using False assms by (simp only: set_upt) simp
  ultimately show ?thesis by blast
qed

definition transitions :: "nat \<Rightarrow> nat list" where
  "transitions state = map (\<lambda>class. utf8d ! (256 + state * 16 + class)) [0..<12]"

lemma transitions:
  "transitions 0 = [0, 1, 2, 3, 5, 8, 7, 1, 1, 1, 4, 6]"
  "transitions 2 = [1, 0, 1, 1, 1, 1, 1, 0, 1, 0, 1, 1]"
  "transitions 3 = [1, 2, 1, 1, 1, 1, 1, 2, 1, 2, 1, 1]"
  "transitions 4 = [1, 1, 1, 1, 1, 1, 1, 2, 1, 1, 1, 1]"
  "transitions 5 = [1, 2, 1, 1, 1, 1, 1, 1, 1, 2, 1, 1]"
  "transitions 6 = [1, 1, 1, 1, 1, 1, 1, 3, 1, 3, 1, 1]"
  "transitions 7 = [1, 3, 1, 1, 1, 1, 1, 3, 1, 3, 1, 1]"
  "transitions 8 = [1, 3, 1, 1, 1, 1, 1, 1, 1, 1, 1, 1]"
  by code_simp+

lemma byte_class_less: "byte_class b < 12"
  by (simp add: byte_class_def)

lemma decode_state: "fst (decode state codep c) = transitions state ! byte_class (unat c)"
proof -
  have "unat c < 256" using unsigned_less [of c] by simp
  then show ?thesis
    using byte_class_less [of "unat c"] by (simp add: decode_def Let_def transitions_def utf8d_class)
qed

lemmas byte_ranges = continuations_def byte_class_def word_le_nat_alt word_unat_eq_iff

lemma decode_first:
  "case continuations c of
     None \<Rightarrow> fst (decode 0 codep c) = 1
   | Some rs \<Rightarrow> expects (fst (decode 0 codep c)) = Some rs"
proof -
  let ?n = "unat c"
  consider "?n \<le> 127" | "128 \<le> ?n" "?n \<le> 193" | "194 \<le> ?n" "?n \<le> 223" | "?n = 224"
    | "225 \<le> ?n" "?n \<le> 236" | "?n = 237" | "?n = 238" | "?n = 239" | "?n = 240"
    | "241 \<le> ?n" "?n \<le> 243" | "?n = 244" | "245 \<le> ?n"
    by linarith
  then show ?thesis
    unfolding decode_state transitions(1) by cases (simp_all add: byte_ranges expects_def)
qed

lemma transitions_class:
  "transitions 2 ! byte_class n = (if 128 \<le> n \<and> n \<le> 191 then 0 else 1)"
  "transitions 3 ! byte_class n = (if 128 \<le> n \<and> n \<le> 191 then 2 else 1)"
  "transitions 4 ! byte_class n = (if 160 \<le> n \<and> n \<le> 191 then 2 else 1)"
  "transitions 5 ! byte_class n = (if 128 \<le> n \<and> n \<le> 159 then 2 else 1)"
  "transitions 6 ! byte_class n = (if 144 \<le> n \<and> n \<le> 191 then 3 else 1)"
  "transitions 7 ! byte_class n = (if 128 \<le> n \<and> n \<le> 191 then 3 else 1)"
  "transitions 8 ! byte_class n = (if 128 \<le> n \<and> n \<le> 143 then 3 else 1)"
  unfolding transitions by (simp_all add: byte_class_def)

lemma decode_next:
  assumes "expects state = Some ((l, h) # rs)"
  shows "if l \<le> c \<and> c \<le> h then expects (fst (decode state codep c)) = Some rs else fst (decode state codep c) = 1"
proof -
  have "state \<in> {2, 3, 4, 5, 6, 7, 8}"
    using assms by (simp add: expects_def split: if_splits)
  then show ?thesis
    using assms unfolding decode_state
    by (elim insertE emptyE) (auto simp: transitions_class expects_def word_le_nat_alt)
qed

lemma expects_end: "expects state = Some rs \<Longrightarrow> (state = 0 \<longleftrightarrow> rs = []) \<and> state \<noteq> 1"
  by (auto simp: expects_def split: if_splits)

section \<open>Code points\<close>

lemma and_63: "(n :: nat) AND 63 = n mod 64"
  using take_bit_eq_mask [of 6 n] by (simp add: take_bit_eq_mod mask_eq_exp_minus_1)

lemma or_push_6: "(n mod 64) OR push_bit 6 m = n mod 64 + 64 * (m :: nat)"
proof -
  have "take_bit 6 n AND push_bit 6 m = 0"
    by (rule bit_eqI) (auto simp: bit_simps)
  from disjunctive_add_eq_or [OF this] show ?thesis
    by (simp add: take_bit_eq_mod push_bit_eq_mult mult.commute)
qed

lemma mod_between: "q * k \<le> n \<Longrightarrow> n < q * k + k \<Longrightarrow> n mod k = n - q * (k :: nat)"
  using mod_mult_self1 [of "n - q * k" q k] by (simp add: mod_less mult.commute less_diff_conv2)

text \<open>The code point of a sequence of several bytes is never one that the printer escapes.\<close>

definition codepoint_ok :: "nat \<Rightarrow> nat \<Rightarrow> bool" where
  "codepoint_ok state codep \<longleftrightarrow>
     (state = 2 \<longrightarrow> 2 \<le> codep) \<and> (state = 3 \<or> state = 5 \<or> state = 7 \<or> state = 8 \<longrightarrow> 1 \<le> codep)"

lemma decode_codepoint:
  "snd (decode state codep c) =
     (if state \<noteq> 0 then unat c mod 64 + 64 * codep else drop_bit (byte_class (unat c)) 255 AND unat c)"
proof -
  have "unat c < 256" using unsigned_less [of c] by simp
  then show ?thesis by (simp add: decode_def Let_def utf8d_class and_63 or_push_6)
qed

lemma low_masks:
  "(255 :: nat) AND n = n mod 256" "(63 :: nat) AND n = n mod 64" "(31 :: nat) AND n = n mod 32"
  "(15 :: nat) AND n = n mod 16" "(7 :: nat) AND n = n mod 8" "(3 :: nat) AND n = n mod 4"
  using take_bit_eq_mask [of 8 n] take_bit_eq_mask [of 6 n] take_bit_eq_mask [of 5 n]
    take_bit_eq_mask [of 4 n] take_bit_eq_mask [of 3 n] take_bit_eq_mask [of 2 n]
  by (simp_all add: take_bit_eq_mod mask_eq_exp_minus_1 and.commute)

lemma decode_first_codepoint:
  assumes "continuations c = Some rs"
  shows "if c \<le> 127 then decode 0 codep c = (0, unat c)
    else codepoint_ok (fst (decode 0 codep c)) (snd (decode 0 codep c))"
proof -
  let ?n = "unat c"
  consider "?n \<le> 127" | "128 \<le> ?n" "?n \<le> 193" | "194 \<le> ?n" "?n \<le> 223" | "?n = 224"
    | "225 \<le> ?n" "?n \<le> 236" | "?n = 237" | "?n = 238" | "?n = 239" | "?n = 240"
    | "241 \<le> ?n" "?n \<le> 243" | "?n = 244" | "245 \<le> ?n"
    by linarith
  moreover have "192 \<le> ?n \<Longrightarrow> ?n \<le> 255 \<Longrightarrow> ?n mod 64 = ?n - 192" "224 \<le> ?n \<Longrightarrow> ?n \<le> 255 \<Longrightarrow> ?n mod 32 = ?n - 224"
    "240 \<le> ?n \<Longrightarrow> ?n \<le> 243 \<Longrightarrow> ?n mod 4 = ?n - 240"
    using mod_between [of 3 64 ?n] mod_between [of 7 32 ?n] mod_between [of 60 4 ?n] by simp_all
  ultimately show ?thesis
    using assms unfolding prod_eq_iff decode_state transitions(1) decode_codepoint
    by cases (simp_all add: byte_ranges codepoint_ok_def low_masks drop_bit_eq_div)
qed

lemma decode_next_codepoint:
  assumes "expects state = Some ((l, h) # rs)" "l \<le> c" "c \<le> h" "codepoint_ok state codep"
  shows "if rs = [] then 128 \<le> snd (decode state codep c)
    else codepoint_ok (fst (decode state codep c)) (snd (decode state codep c))"
proof -
  have "state \<in> {2, 3, 4, 5, 6, 7, 8}"
    using assms by (simp add: expects_def split: if_splits)
  moreover have "128 \<le> unat c \<Longrightarrow> unat c \<le> 191 \<Longrightarrow> unat c mod 64 = unat c - 128"
    using mod_between [of 2 64 "unat c"] by simp
  ultimately show ?thesis
    using assms unfolding decode_state decode_codepoint
    by (elim insertE emptyE) (auto simp: transitions_class expects_def word_le_nat_alt codepoint_ok_def)
qed

section \<open>Printing\<close>

definition escaped_byte :: "u8 \<Rightarrow> u8 list" where
  "escaped_byte c = (if c \<le> 127 then fst (escape False (unat c) c) else [c])"

definition escaped :: "cstring \<Rightarrow> u8 list" where
  "escaped s = concat (map escaped_byte s)"

lemma escaped_simps [simp]:
  "escaped [] = []" "escaped (c # s) = escaped_byte c @ escaped s" "escaped (s @ t) = escaped s @ escaped t"
  by (simp_all add: escaped_def)

lemma in_ranges_escaped:
  "continuations c = Some rs \<Longrightarrow> in_ranges cs rs \<Longrightarrow> escaped cs = cs"
proof -
  have "c \<in> set cs \<Longrightarrow> \<not> c \<le> 127" if "in_ranges cs rs" "\<forall>(l, h) \<in> set rs. \<not> l \<le> 127" for c cs rs
    using that unfolding in_ranges_def
    by (induction cs rs rule: list_all2_induct) (auto intro: order_trans)
  moreover assume "continuations c = Some rs" "in_ranges cs rs"
  moreover from this(1) have "\<forall>(l, h) \<in> set rs. \<not> l \<le> 127" using continuations_cases [of c rs] by auto
  ultimately have "\<forall>c \<in> set cs. \<not> c \<le> 127" by blast
  then show "escaped cs = cs" by (induction cs) (simp_all add: escaped_byte_def)
qed

lemma flush_chars:
  assumes "flush_chars (out, buf) = (out', buf')"
  shows "out' @ buf' = out @ buf" and "length buf' \<le> 499"
  using assms by (auto simp: flush_chars_def split: if_splits)

lemma escape_room: "snd (escape False codep c) \<le> 13" "length (fst (escape False codep c)) \<le> snd (escape False codep c)"
  by (simp_all add: escape_def hex_escape_def)

lemma escape_plain: "128 \<le> codep \<Longrightarrow> escape False codep c = ([c], 1)"
  by (simp add: escape_def)

text \<open>The bytes after the first, then the buffer is flushed when it is nearly full.\<close>

declare escape_loop.simps(2) [simp del]

lemma escape_loop_rest:
  assumes "expects state = Some rs" "rs \<noteq> []" "in_ranges cs rs" "codepoint_ok state codep" "length buf + length cs \<le> 512"
  shows "\<exists>codep' out' buf'. escape_loop False (cs @ s) state codep out buf = escape_loop False s 0 codep' out' buf'
    \<and> out' @ buf' = out @ buf @ cs \<and> length buf' \<le> 499"
  using assms
proof (induction rs arbitrary: cs state codep buf)
  case (Cons r rs)
  obtain l h where r: "r = (l, h)" by fastforce
  with Cons.prems(3) obtain c cs' where c: "cs = c # cs'" "l \<le> c" "c \<le> h" "in_ranges cs' rs"
    by (cases cs) auto
  obtain state' codep' where d: "decode state codep c = (state', codep')" by fastforce
  have s: "expects state' = Some rs" using decode_next [of state l h rs c codep] Cons.prems(1) r c d by simp
  have cp: "if rs = [] then 128 \<le> codep' else codepoint_ok state' codep'"
    using decode_next_codepoint [of state l h rs c codep] Cons.prems(1,4) r c d by (cases "rs = []") simp_all
  show ?case
  proof (cases "rs = []")
    case True
    then have z: "state' = 0" using s by (simp add: expects_def split: if_splits)
    obtain out' buf' where f: "flush_chars (out, buf @ [c]) = (out', buf')" by fastforce
    have "escape_loop False (cs @ s) state codep out buf = escape_loop False s 0 codep' out' buf'"
      using c d z cp True f Cons.prems(5) by (simp add: escape_loop.simps escape_plain put_chars_def)
    moreover have "out' @ buf' = out @ buf @ cs" using flush_chars(1) [OF f] c True by simp
    ultimately show ?thesis using flush_chars(2) [OF f] by blast
  next
    case False
    then have "state' \<noteq> 0" "state' \<noteq> 1" using expects_end [OF s] by auto
    then have "escape_loop False (cs @ s) state codep out buf = escape_loop False (cs' @ s) state' codep' out (buf @ [c])"
      using c d Cons.prems(5) by (simp add: escape_loop.simps put_chars_def)
    moreover have "\<exists>codep'' out' buf'. escape_loop False (cs' @ s) state' codep' out (buf @ [c])
        = escape_loop False s 0 codep'' out' buf' \<and> out' @ buf' = out @ (buf @ [c]) @ cs' \<and> length buf' \<le> 499"
      by (rule Cons.IH) (use s False c cp Cons.prems(5) in simp_all)
    ultimately show ?thesis using c by (metis append.assoc append_Cons append_Nil)
  qed
qed simp

lemma escape_loop_char:
  assumes "continuations c = Some rs" "in_ranges cs rs" "length buf \<le> 499"
  shows "\<exists>codep' out' buf'. escape_loop False (c # cs @ s) 0 codep out buf = escape_loop False s 0 codep' out' buf'
    \<and> out' @ buf' = out @ buf @ escaped (c # cs) \<and> length buf' \<le> 499"
proof (cases "c \<le> 127")
  case True
  then have rs: "cs = []" using assms(1,2) by (simp add: continuations_def)
  obtain esc room where e: "escape False (unat c) c = (esc, room)" by fastforce
  obtain out' buf' where f: "flush_chars (out, buf @ esc) = (out', buf')" by fastforce
  have "decode 0 codep c = (0, unat c)" using decode_first_codepoint [OF assms(1)] True by simp
  moreover have "length buf + room \<le> 512" using escape_room(1) [where codep = "unat c" and c = c] e assms(3) by simp
  ultimately have "escape_loop False (c # cs @ s) 0 codep out buf = escape_loop False s 0 (unat c) out' buf'"
    using rs e f by (simp add: escape_loop.simps put_chars_def)
  moreover have "escaped (c # cs) = esc" using True rs e by (simp add: escaped_byte_def)
  moreover have "out' @ buf' = out @ buf @ esc" using flush_chars(1) [OF f] by simp
  ultimately show ?thesis using flush_chars(2) [OF f] by metis
next
  case False
  obtain state codep' where d: "decode 0 codep c = (state, codep')" by fastforce
  have s: "expects state = Some rs" using decode_first [where c = c and codep = codep] assms(1) d by simp
  have ne: "rs \<noteq> []" "length rs \<le> 3" using continuations_cases [OF assms(1)] False by auto
  then have "state \<noteq> 0" "state \<noteq> 1" using expects_end [OF s] by auto
  then have 1: "escape_loop False (c # cs @ s) 0 codep out buf = escape_loop False (cs @ s) state codep' out (buf @ [c])"
    using d assms(3) by (simp add: escape_loop.simps put_chars_def)
  have "length cs = length rs" using assms(2) by (simp add: in_ranges_def list_all2_lengthD)
  then have "\<exists>codep'' out' buf'. escape_loop False (cs @ s) state codep' out (buf @ [c])
      = escape_loop False s 0 codep'' out' buf' \<and> out' @ buf' = out @ (buf @ [c]) @ cs \<and> length buf' \<le> 499"
    using decode_first_codepoint [OF assms(1), of codep] False d assms(2,3) ne s
    by (intro escape_loop_rest) auto
  moreover have "escaped (c # cs) = c # cs"
    using False in_ranges_escaped [OF assms(1,2)] by (simp add: escaped_byte_def)
  ultimately show ?thesis using 1 by (metis append.assoc append_Cons append_Nil)
qed

lemma escape_loop_utf8:
  "utf8 s \<Longrightarrow> length buf \<le> 499 \<Longrightarrow> escape_loop False s 0 codep out buf = Inr (out @ buf @ escaped s)"
proof (induction s arbitrary: codep out buf rule: utf8.induct)
  case (Cons c rs cs s)
  obtain codep' out' buf' where 1: "escape_loop False (c # cs @ s) 0 codep out buf = escape_loop False s 0 codep' out' buf'"
    "out' @ buf' = out @ buf @ escaped (c # cs)" "length buf' \<le> 499"
    using escape_loop_char [OF Cons.hyps(1,2) Cons.prems] by blast
  then have "escape_loop False (c # cs @ s) 0 codep out buf = Inr ((out' @ buf') @ escaped s)"
    using Cons.IH by simp
  then show ?case using 1(2) by simp
qed simp

lemma escape_loop_accepts:
  assumes "escape_loop False s state codep out buf = Inr printed" "expects state = Some rs"
  shows "\<exists>cs s'. s = cs @ s' \<and> in_ranges cs rs \<and> utf8 s'"
  using assms
proof (induction s arbitrary: state codep out buf rs)
  case Nil
  then show ?case using utf8.Nil expects_end [of state rs] by (simp split: if_splits)
next
  case (Cons c s)
  obtain state' codep' where d: "decode state codep c = (state', codep')" by fastforce
  have n: "state' \<noteq> 1" using Cons.prems(1) d by (auto simp: escape_loop.simps)
  obtain out' buf' where e: "escape_loop False s state' codep' out' buf' = Inr printed"
    using Cons.prems(1) d n
    by (auto simp: escape_loop.simps bind_res_Inr_iff split_beta split: if_splits)
  show ?case
  proof (cases rs)
    case Nil
    then have "state = 0" using expects_end [OF Cons.prems(2)] by simp
    then obtain rs' where r: "continuations c = Some rs'" "expects state' = Some rs'"
      using decode_first [where c = c and codep = codep] d n by (cases "continuations c") auto
    obtain cs s' where "s = cs @ s'" "in_ranges cs rs'" "utf8 s'" using Cons.IH [OF e r(2)] by blast
    then have "utf8 (c # s)" using utf8.Cons r(1) by simp
    then show ?thesis using Nil by auto
  next
    case (Cons r rs')
    obtain l h where lh: "r = (l, h)" by fastforce
    have r: "l \<le> c" "c \<le> h" "expects state' = Some rs'"
      using decode_next [of state l h rs' c codep] Cons.prems(2) Cons lh d n by (auto split: if_splits)
    obtain cs s' where "s = cs @ s'" "in_ranges cs rs'" "utf8 s'" using Cons.IH [OF e r(3)] by blast
    then show ?thesis using Cons lh r by (intro exI [of _ "c # cs"] exI [of _ s']) simp
  qed
qed

text \<open>A string is printed exactly when it is well-formed.\<close>

lemma dump_escaped_utf8: "dump_escaped False s = Inr printed \<longleftrightarrow> utf8 s \<and> printed = escaped s"
proof
  assume p: "dump_escaped False s = Inr printed"
  then have "utf8 s" using escape_loop_accepts [of s 0 0 "[]" "[]" printed "[]"]
    by (auto simp: dump_escaped_def expects_def)
  then show "utf8 s \<and> printed = escaped s" using p escape_loop_utf8 [of s "[]" 0 "[]"]
    by (simp add: dump_escaped_def)
qed (simp add: dump_escaped_def escape_loop_utf8)

section \<open>Scanning\<close>

lemma scan_char_ranges:
  assumes "32 \<le> c" "c \<noteq> 92"
  shows "scan_char c cs = (case continuations c of None \<Rightarrow> None | Some rs \<Rightarrow> next_byte_in_range rs [c] cs)"
proof -
  have "\<not> c \<le> 31" using assms(1) by (simp add: word_le_nat_alt)
  then show ?thesis using assms(2) by (auto simp: scan_char_def continuations_def)
qed

lemma next_byte_in_range_iff:
  "next_byte_in_range rs added cs = Some (bs, rest) \<longleftrightarrow> (\<exists>ts. cs = ts @ rest \<and> in_ranges ts rs \<and> bs = added @ ts)"
proof (induction rs added cs rule: next_byte_in_range.induct)
  case (2 l h rs added)
  then show ?case by (auto simp: in_ranges_def list_all2_Cons2)
next
  case (3 l h rs added c cs)
  then show ?case by (auto simp: in_ranges_def list_all2_Cons2 Cons_eq_append_conv)
qed auto

text \<open>What the printer writes for a byte of ASCII is read back as that byte.\<close>

lemma small_bytes:
  assumes "(c :: u8) \<le> 31"
  shows "c \<in> set (map of_nat [0..<32])"
proof -
  have "c = of_nat (unat c)" "unat c \<in> set [0..<32]" using assms by (simp_all add: word_le_nat_alt)
  then show ?thesis by (metis image_eqI set_map)
qed

lemma scan_escaped_control:
  assumes "c \<le> 31"
  shows "\<exists>es. escaped_byte c = 92 # es \<and> scan_escape (es @ cs) = Some ([c], cs)"
proof -
  have "c \<in> set (map of_nat [0..<32])" by (rule small_bytes [OF assms])
  then show ?thesis
    by (simp add: upt_rec, elim disjE)
      (simp_all add: escaped_byte_def escape_def hex_escape_def hex_digit_def scan_escape_def scan_unicode_def
        hex_value_def codepoint_bytes_def)
qed

lemma scan_char_escaped:
  assumes "continuations c = Some rs" "in_ranges cs rs"
  shows "\<exists>e es. escaped (c # cs) = e # es \<and> e \<noteq> 34 \<and> scan_char e (es @ rest) = Some (c # cs, rest)"
proof -
  consider "c \<le> 31" | "c = 34 \<or> c = 92" | "32 \<le> c" "c \<noteq> 34" "c \<noteq> 92"
    by (force simp: word_le_nat_alt)
  then show ?thesis
  proof cases
    case 1
    then have "cs = []" using assms by (auto simp: continuations_def word_le_nat_alt)
    moreover obtain es where "escaped_byte c = 92 # es" "scan_escape (es @ rest) = Some ([c], rest)"
      using scan_escaped_control [OF 1] by blast
    ultimately show ?thesis by (simp add: scan_char_def)
  next
    case 2
    then have "cs = []" using assms by (auto simp: continuations_def)
    then have "escaped (c # cs) = [92, c]" using 2 by (elim disjE) (simp_all add: escaped_byte_def escape_def)
    moreover have "scan_char 92 (c # rest) = Some ([c], rest)"
      using 2 by (elim disjE) (simp_all add: scan_char_def scan_escape_def)
    ultimately show ?thesis using \<open>cs = []\<close> by simp
  next
    case 3
    then have "unat c \<noteq> 34" "unat c \<noteq> 92" "32 \<le> unat c" by (auto simp: word_unat_eq_iff word_le_nat_alt)
    then have "escaped_byte c = [c]" by (simp add: escaped_byte_def escape_def)
    moreover have "scan_char c (cs @ rest) = Some (c # cs, rest)"
      using 3 assms by (simp add: scan_char_ranges next_byte_in_range_iff)
    ultimately show ?thesis using 3 in_ranges_escaped [OF assms] by simp
  qed
qed

lemma scan_string_escaped:
  "utf8 s \<Longrightarrow> scan_string tb (escaped s @ 34 # rest) = (value_string (tb @ s), rest)"
proof (induction s arbitrary: tb rule: utf8.induct)
  case (Cons c rs cs s)
  obtain e es where "escaped (c # cs) = e # es" "e \<noteq> 34"
    "scan_char e (es @ escaped s @ 34 # rest) = Some (c # cs, escaped s @ 34 # rest)"
    using scan_char_escaped [OF Cons.hyps(1,2)] by blast
  moreover from this(1) have "escaped (c # cs @ s) @ 34 # rest = e # (es @ escaped s @ 34 # rest)"
    by (metis append_Cons append_assoc escaped_simps(3))
  ultimately show ?case using Cons.IH [of "tb @ c # cs"] by (simp del: escaped_simps)
qed simp

text \<open>The scanner reads no other strings.\<close>

lemma or_low: "d < 2 ^ k \<Longrightarrow> push_bit k m OR d = push_bit k m + (d :: nat)"
proof -
  assume "d < 2 ^ k"
  then have "push_bit k m AND take_bit k d = 0" by (intro bit_eqI) (auto simp: bit_simps)
  with \<open>d < 2 ^ k\<close> show ?thesis
    using disjunctive_add_eq_or [of "push_bit k m" d] by (simp add: take_bit_nat_eq_self)
qed

lemma or_lead:
  "d < 64 \<Longrightarrow> 128 OR d = 128 + (d :: nat)" "d < 64 \<Longrightarrow> 192 OR d = 192 + (d :: nat)"
  "d < 32 \<Longrightarrow> 224 OR d = 224 + (d :: nat)" "d < 16 \<Longrightarrow> 240 OR d = 240 + (d :: nat)"
  using or_low [of d 6 2] or_low [of d 6 3] or_low [of d 5 7] or_low [of d 4 15]
  by (simp_all add: push_bit_eq_mult)

lemma unat_byte: "n < 256 \<Longrightarrow> unat (of_nat n :: u8) = n"
  by (simp add: unat_of_nat)

lemma continuations_of_nat:
  "n < 256 \<Longrightarrow> continuations (of_nat n) =
     (if n \<le> 127 then Some []
      else if 194 \<le> n \<and> n \<le> 223 then Some [(128, 191)]
      else if n = 224 then Some [(160, 191), (128, 191)]
      else if 225 \<le> n \<and> n \<le> 236 \<or> n = 238 \<or> n = 239 then Some [(128, 191), (128, 191)]
      else if n = 237 then Some [(128, 159), (128, 191)]
      else if n = 240 then Some [(144, 191), (128, 191), (128, 191)]
      else if 241 \<le> n \<and> n \<le> 243 then Some [(128, 191), (128, 191), (128, 191)]
      else if n = 244 then Some [(128, 143), (128, 191), (128, 191)]
      else None)"
  by (simp add: continuations_def word_le_nat_alt word_unat_eq_iff unat_byte)

lemma codepoint_bytes_utf8:
  assumes "n < 1114112" "\<not> (55296 \<le> n \<and> n \<le> 57343)"
  shows "utf8 (codepoint_bytes n)"
proof -
  define m1 where "m1 = n div 64"
  define m2 where "m2 = m1 div 64"
  define a where "a = m2 div 64"
  have drop: "drop_bit 6 n = m1" "drop_bit 12 n = m2" "drop_bit 18 n = a"
    by (simp_all add: drop_bit_eq_div m1_def m2_def a_def div_mult2_eq [symmetric])
  have parts: "n = 64 * m1 + n mod 64" "m1 = 64 * m2 + m1 mod 64" "m2 = 64 * a + m2 mod 64"
    "n mod 64 < 64" "m1 mod 64 < 64" "m2 mod 64 < 64"
    by (simp_all add: m1_def m2_def a_def)
  then have le: "n mod 64 \<le> 63" "m1 mod 64 \<le> 63" "m2 mod 64 \<le> 63" by linarith+
  consider "n < 128" | "128 \<le> n" "n \<le> 2047" | "2048 \<le> n" "n \<le> 65535" | "65536 \<le> n" by linarith
  then show ?thesis
  proof cases
    case 1
    then show ?thesis by (simp add: codepoint_bytes_def utf8_ascii word_le_nat_alt unat_byte)
  next
    case 2
    then have m: "2 \<le> m1" "m1 < 32" using parts by linarith+
    have "codepoint_bytes n = [of_nat (192 + m1), of_nat (128 + n mod 64)]"
      using 2 m(1-2) by (simp add: codepoint_bytes_def drop and_63 or_lead del: of_nat_add)
    moreover have "utf8 [of_nat (192 + m1), of_nat (128 + n mod 64)]"
    proof (rule utf8_char)
      show "continuations (of_nat (192 + m1)) = Some [(128, 191)]"
        using m by (simp add: continuations_of_nat del: of_nat_add)
      show "in_ranges [of_nat (128 + n mod 64)] [(128, 191)]"
        using m by (simp add: le word_le_nat_alt unat_byte del: of_nat_add) linarith?
    qed
    ultimately show ?thesis by simp
  next
    case 3
    then have m: "m2 < 16" "m2 = 0 \<Longrightarrow> 32 \<le> m1 mod 64" "m2 = 13 \<Longrightarrow> m1 mod 64 < 32"
      using parts assms(2) by linarith+
    have "codepoint_bytes n = [of_nat (224 + m2), of_nat (128 + m1 mod 64), of_nat (128 + n mod 64)]"
      using 3 m(1) by (simp add: codepoint_bytes_def drop and_63 or_lead del: of_nat_add)
    moreover have "utf8 [of_nat (224 + m2), of_nat (128 + m1 mod 64), of_nat (128 + n mod 64)]"
    proof (rule utf8_char)
      show "continuations (of_nat (224 + m2)) = Some (if m2 = 0 then [(160, 191), (128, 191)] else if m2 = 13 then [(128, 159), (128, 191)]
        else [(128, 191), (128, 191)])"
        using m by (simp add: continuations_of_nat del: of_nat_add)
      show "in_ranges [of_nat (128 + m1 mod 64), of_nat (128 + n mod 64)] (if m2 = 0 then [(160, 191), (128, 191)] else if m2 = 13 then [(128, 159), (128, 191)]
        else [(128, 191), (128, 191)])"
        using m by (simp add: le word_le_nat_alt unat_byte del: of_nat_add) linarith?
    qed
    ultimately show ?thesis by simp
  next
    case 4
    then have m: "a \<le> 4" "a = 0 \<Longrightarrow> 16 \<le> m2 mod 64" "a = 4 \<Longrightarrow> m2 mod 64 < 16"
      using parts assms(1) by linarith+
    have "codepoint_bytes n = [of_nat (240 + a), of_nat (128 + m2 mod 64), of_nat (128 + m1 mod 64), of_nat (128 + n mod 64)]"
      using 4 m(1) by (simp add: codepoint_bytes_def drop and_63 or_lead del: of_nat_add)
    moreover have "utf8 [of_nat (240 + a), of_nat (128 + m2 mod 64), of_nat (128 + m1 mod 64), of_nat (128 + n mod 64)]"
    proof (rule utf8_char)
      show "continuations (of_nat (240 + a)) = Some (if a = 0 then [(144, 191), (128, 191), (128, 191)] else if a = 4 then [(128, 143), (128, 191), (128, 191)]
        else [(128, 191), (128, 191), (128, 191)])"
        using m by (simp add: continuations_of_nat del: of_nat_add)
      show "in_ranges [of_nat (128 + m2 mod 64), of_nat (128 + m1 mod 64), of_nat (128 + n mod 64)] (if a = 0 then [(144, 191), (128, 191), (128, 191)] else if a = 4 then [(128, 143), (128, 191), (128, 191)]
        else [(128, 191), (128, 191), (128, 191)])"
        using m by (simp add: le word_le_nat_alt unat_byte del: of_nat_add) linarith?
    qed
    ultimately show ?thesis by simp
  qed
qed

lemma hex_value_less: "hex_value c = Some d \<Longrightarrow> d < 16"
  by (auto simp: hex_value_def word_le_nat_alt split: if_splits)

lemma get_codepoint_step:
  "get_codepoint (f # fs) n cs = Some (m, rest) \<Longrightarrow> \<exists>d cs'. d < 16 \<and> get_codepoint fs (n + d * 2 ^ f) cs' = Some (m, rest)"
  by (cases cs) (auto simp: push_bit_eq_mult split: option.splits dest: hex_value_less)

lemma get_codepoint_less: "get_codepoint [12, 8, 4, 0] 0 cs = Some (n, rest) \<Longrightarrow> n < 65536"
  by (fastforce dest!: get_codepoint_step)

lemma scan_unicode_utf8:
  assumes "scan_unicode cs = Some (bs, rest)"
  shows "utf8 bs"
proof -
  obtain n cs1 where n: "get_codepoint [12, 8, 4, 0] 0 cs = Some (n, cs1)"
    using assms by (auto simp: scan_unicode_def split: option.splits)
  show ?thesis
  proof (cases "55296 \<le> n \<and> n \<le> 56319")
    case True
    then obtain m cs2 cs3 where m: "get_codepoint [12, 8, 4, 0] 0 cs2 = Some (m, cs3)" "56320 \<le> m" "m \<le> 57343"
      and b: "bs = codepoint_bytes (push_bit 10 n + m - 56613888)"
      using assms n by (auto simp: scan_unicode_def split: option.splits list.splits if_splits)
    have "65536 \<le> push_bit 10 n + m - 56613888" "push_bit 10 n + m - 56613888 < 1114112"
      unfolding push_bit_eq_mult using True m(2,3) by simp_all linarith+
    then show ?thesis unfolding b by (intro codepoint_bytes_utf8) linarith+
  next
    case False
    then have b: "bs = codepoint_bytes n" "\<not> (56320 \<le> n \<and> n \<le> 57343)"
      using assms n by (auto simp: scan_unicode_def split: if_splits)
    show ?thesis unfolding b(1)
      by (rule codepoint_bytes_utf8) (use get_codepoint_less [OF n] False b(2) in linarith)+
  qed
qed

lemma scan_char_utf8:
  assumes "scan_char c cs = Some (bs, rest)"
  shows "utf8 bs"
proof (cases "c = 92")
  case True
  then have "scan_escape cs = Some (bs, rest)" using assms by (simp add: scan_char_def)
  then show ?thesis
    by (auto simp: scan_escape_def split: list.splits if_splits intro: utf8_ascii scan_unicode_utf8)
next
  case False
  moreover have "32 \<le> c"
    using assms False by (force simp: scan_char_def word_le_nat_alt split: if_splits)
  ultimately obtain rs where rs: "continuations c = Some rs" "next_byte_in_range rs [c] cs = Some (bs, rest)"
    using assms by (auto simp: scan_char_ranges split: option.splits)
  then show ?thesis by (auto simp: next_byte_in_range_iff intro: utf8_char)
qed

lemma scan_string_utf8: "scan_string tb cs = (value_string s, rest) \<Longrightarrow> utf8 tb \<Longrightarrow> utf8 s"
proof (induction tb cs rule: scan_string.induct)
  case (2 tb c cs)
  show ?case
  proof (cases "c = 34")
    case False
    then obtain bs cs' where b: "scan_char c cs = Some (bs, cs')" "scan_string (tb @ bs) cs' = (value_string s, rest)"
      using "2.prems"(1) by (auto split: option.splits)
    then show ?thesis
      using "2.IH" [OF False b(1) refl b(2)] "2.prems"(2) scan_char_utf8 [OF b(1)] by (simp add: utf8_append)
  qed (use "2.prems" in simp)
qed simp

end
