(* ===== verification/JsonRoundtrip.thy ===== *)
theory JsonRoundtrip
  imports JsonParser JsonText Utf8
begin

text \<open>
  A document that is printed and read back is the same document, but for the type of its integers:
  what is not negative is read as unsigned. What the parser builds can be printed; and what it
  leaves when it fails is told by the first token.
\<close>

section \<open>Documents\<close>

text \<open>Integers within their types, strings and keys well-formed, keys in order.\<close>

fun json_ok :: "json \<Rightarrow> bool" where
  "json_ok (Json_integer i) \<longleftrightarrow> - (2 ^ 63) \<le> i \<and> i < 2 ^ 63"
| "json_ok (Json_number n) \<longleftrightarrow> n < 2 ^ 64"
| "json_ok (Json_string s) \<longleftrightarrow> utf8 s"
| "json_ok (Json_array js) \<longleftrightarrow> list_all json_ok js"
| "json_ok (Json_object kvs) \<longleftrightarrow> sorted_keys kvs \<and> list_all (\<lambda>(k, j). utf8 (ascii k) \<and> json_ok j) kvs"
| "json_ok _ \<longleftrightarrow> True"

text \<open>What is asked of \<open>to_chars\<close>, for the floating-point numbers of a document: that it writes a number
  with a fraction or an exponent, which has the value it was given.\<close>

fun floats_print :: "(int \<Rightarrow> int \<Rightarrow> u8 list) \<Rightarrow> json \<Rightarrow> bool" where
  "floats_print tc (Json_float m e) \<longleftrightarrow> float_text (tc m e) \<and> strtod (tc m e) = Some (m, e)"
| "floats_print tc (Json_array js) \<longleftrightarrow> list_all (floats_print tc) js"
| "floats_print tc (Json_object kvs) \<longleftrightarrow> list_all (\<lambda>(_, j). floats_print tc j) kvs"
| "floats_print tc _ \<longleftrightarrow> True"

fun as_read :: "json \<Rightarrow> json" where
  "as_read (Json_integer i) = (if 0 \<le> i then Json_number (nat i) else Json_integer i)"
| "as_read (Json_array js) = Json_array (map as_read js)"
| "as_read (Json_object kvs) = Json_object (map (\<lambda>(k, j). (k, as_read j)) kvs)"
| "as_read j = j"

lemma key_of_ascii [simp]: "map (\<lambda>b. char_of (unat b)) (ascii k) = k"
proof -
  have "char_of (unat (of_char c :: u8)) = c" for c
  proof -
    have "unat (of_nat (of_char c :: nat) :: u8) = of_char c" by (simp add: unat_of_nat)
    then show ?thesis by (simp add: of_nat_of_char)
  qed
  then show ?thesis by (simp add: ascii_def comp_def)
qed

section \<open>Reading a value\<close>

definition resume :: "progress \<Rightarrow> parsed" where
  "resume p =
     (case p of
        Next_value states token cs d \<Rightarrow> sax_parse_internal states (Some token) cs d
      | Value_done states cs d \<Rightarrow> sax_parse_internal states None cs d
      | Stop r \<Rightarrow> r)"

lemma resume_Next [simp]: "resume (Next_value states token cs d) = resume (parse_value states token cs d)"
  by (subst resume_def) (simp add: sax_parse_internal.simps parse_step_def resume_def)

lemma resume_Done: "resume (Value_done states cs d) = resume (evaluate_state states cs d)"
  by (subst resume_def) (simp add: sax_parse_internal.simps parse_step_def resume_def)

lemma resume_Stop [simp]: "resume (Stop r) = r"
  by (simp add: resume_def)

lemma scan_structure [simp]:
  "scan_token (91 # cs) = (begin_array, cs)" "scan_token (93 # cs) = (end_array, cs)"
  "scan_token (123 # cs) = (begin_object, cs)" "scan_token (125 # cs) = (end_object, cs)"
  "scan_token (58 # cs) = (name_separator, cs)" "scan_token (44 # cs) = (value_separator, cs)"
  "scan_token (34 # cs) = scan_string [] cs"
  by (simp_all add: scan_token_def skip_whitespace_def is_space_def)

lemma scan_literals:
  "scan_token (ascii ''true'' @ cs) = (literal_true, cs)"
  "scan_token (ascii ''false'' @ cs) = (literal_false, cs)"
  "scan_token (ascii ''null'' @ cs) = (literal_null, cs)"
  by (simp_all add: ascii_def scan_token_def skip_whitespace_def is_space_def)

text \<open>A value is read back when the parser, put on its text, comes to the end of it with the value
  handled.\<close>

definition reads_back :: "u8 list \<Rightarrow> json \<Rightarrow> bool" where
  "reads_back out j \<longleftrightarrow>
     (\<forall>rest states d. ends_number rest \<longrightarrow>
       (\<exists>token cs. scan_token (out @ rest) = (token, cs) \<and> token \<noteq> end_array
         \<and> resume (parse_value states token cs d) = resume (Value_done states rest (handle_value j d))))"

lemma reads_back_token:
  assumes "\<And>rest. ends_number rest \<Longrightarrow> scan_token (out @ rest) = (token, rest)" "token \<noteq> end_array"
    and "\<And>states cs d. parse_value states token cs d = Value_done states cs (handle_value j d)"
  shows "reads_back out j"
  using assms by (simp add: reads_back_def)

lemma reads_back_scalars:
  "reads_back (ascii ''null'') Json_null"
  "reads_back (if b then ascii ''true'' else ascii ''false'') (Json_bool b)"
  "utf8 s \<Longrightarrow> reads_back ([34] @ escaped s @ [34]) (Json_string s)"
  "n < 2 ^ 64 \<Longrightarrow> reads_back (decimal n) (Json_number n)"
  "0 < n \<Longrightarrow> n \<le> 2 ^ 63 \<Longrightarrow> reads_back (45 # decimal n) (Json_integer (- int n))"
proof -
  show "reads_back (ascii ''null'') Json_null"
    by (rule reads_back_token [of _ literal_null]) (simp_all add: scan_literals parse_value_def)
  show "reads_back (if b then ascii ''true'' else ascii ''false'') (Json_bool b)"
    by (rule reads_back_token [of _ "if b then literal_true else literal_false"])
      (simp_all add: scan_literals parse_value_def)
  show "reads_back ([34] @ escaped s @ [34]) (Json_string s)" if "utf8 s"
    by (rule reads_back_token [of _ "value_string s"]) (simp_all add: scan_string_escaped that parse_value_def)
  show "reads_back (decimal n) (Json_number n)" if "n < 2 ^ 64"
    by (rule reads_back_token [of _ "value_unsigned n"]) (use that in \<open>simp_all add: scan_decimal parse_value_def\<close>)
  show "reads_back (45 # decimal n) (Json_integer (- int n))" if "0 < n" "n \<le> 2 ^ 63"
    by (rule reads_back_token [of _ "value_integer (- int n)"]) (use that in \<open>simp_all add: scan_negative parse_value_def\<close>)
qed

lemma reads_back_integer:
  assumes "json_ok (Json_integer i)"
  shows "reads_back (dump_integer i) (as_read (Json_integer i))"
  using assms reads_back_scalars(4) [of "nat i"] reads_back_scalars(5) [of "nat (- i)"]
  by (auto simp: dump_integer_decimal)

lemma reads_back_number: "n < 2 ^ 64 \<Longrightarrow> reads_back (dump_integer (int n)) (Json_number n)"
  using reads_back_scalars(4) by (simp add: dump_integer_decimal)

lemma reads_back_float: "floats_print tc (Json_float m e) \<Longrightarrow> reads_back (tc m e) (Json_float m e)"
  by (rule reads_back_token [of _ "value_float (Some (m, e))"]) (simp_all add: scan_float parse_value_def)

section \<open>Reading arrays and objects\<close>

text \<open>The same for the elements of an array, and for the members of an object, up to the bracket or
  brace that closes them.\<close>

definition reads_back_elements :: "u8 list \<Rightarrow> json list \<Rightarrow> bool" where
  "reads_back_elements out js \<longleftrightarrow>
     (\<forall>tail rest states d xs. scan_token tail = (end_array, rest) \<longrightarrow> ends_number tail \<longrightarrow>
       (\<exists>token cs. scan_token (out @ tail) = (token, cs) \<and> token \<noteq> end_array
         \<and> resume (parse_value (True # states) token cs (d\<lparr>ref_stack := Open_array xs # ref_stack d\<rparr>))
           = resume (Value_done states rest (handle_value (Json_array (xs @ js)) d))))"

definition reads_back_members :: "u8 list \<Rightarrow> (string \<times> json) list \<Rightarrow> bool" where
  "reads_back_members out kvs \<longleftrightarrow>
     (\<forall>tail rest states d xs key. scan_token tail = (end_object, rest) \<longrightarrow> ends_number tail \<longrightarrow>
       sorted_keys (xs @ kvs) \<longrightarrow>
       (\<exists>token cs. scan_token (out @ tail) = (token, cs) \<and> token \<noteq> end_object
         \<and> resume (parse_member (False # states) token cs (d\<lparr>ref_stack := Open_object xs key # ref_stack d\<rparr>))
           = resume (Value_done states rest (handle_value (Json_object (xs @ kvs)) d))))"

text \<open>White space before a token is skipped.\<close>

definition skipped :: "u8 list \<Rightarrow> bool" where
  "skipped ws \<longleftrightarrow> list_all is_space ws"

lemma scan_skipped: "skipped ws \<Longrightarrow> scan_token (ws @ cs) = scan_token cs"
  by (induction ws) (simp_all add: skipped_def scan_token_def skip_whitespace_def)

lemma skipped_ends: "skipped ws \<Longrightarrow> ends_number cs \<Longrightarrow> ends_number (ws @ cs)"
  by (cases ws) (auto simp: skipped_def ends_number_def is_space_def is_digit_def)

lemma skipped_simps [simp]:
  "skipped []" "skipped (replicate n 32)" "skipped (10 # ws) \<longleftrightarrow> skipped ws" "skipped (32 # ws) \<longleftrightarrow> skipped ws"
  by (auto simp: skipped_def is_space_def list_all_iff)

lemma closing_ends [simp]:
  "ends_number (44 # cs)" "ends_number (93 # cs)" "ends_number (125 # cs)" "ends_number []"
  by (simp_all add: ends_number_def is_digit_def)

lemma dom_frame [simp]:
  "handle_value j (d\<lparr>ref_stack := v # vs\<rparr>) = d\<lparr>ref_stack := insert_value j v # vs\<rparr>"
  "end_container (d\<lparr>ref_stack := v # ref_stack d\<rparr>) = handle_value (container v) d"
  by (simp_all add: handle_value_def end_container_def split: list.split)

lemma reads_back_last_element:
  assumes "reads_back out j" "skipped ws"
  shows "reads_back_elements (ws @ out) [j]"
  unfolding reads_back_elements_def
proof (intro allI impI)
  fix tail rest states xs and d :: dom
  assume t: "scan_token tail = (end_array, rest)" "ends_number tail"
  let ?d = "d\<lparr>ref_stack := Open_array xs # ref_stack d\<rparr>"
  obtain token cs where "scan_token (out @ tail) = (token, cs)" "token \<noteq> end_array"
    "resume (parse_value (True # states) token cs ?d) = resume (Value_done (True # states) tail (handle_value j ?d))"
    using assms(1) t(2) unfolding reads_back_def by blast
  then show "\<exists>token cs. scan_token ((ws @ out) @ tail) = (token, cs) \<and> token \<noteq> end_array
      \<and> resume (parse_value (True # states) token cs ?d)
        = resume (Value_done states rest (handle_value (Json_array (xs @ [j])) d))"
    using t(1) by (simp add: scan_skipped [OF assms(2)] resume_Done [of "True # states"] evaluate_state_def)
qed

lemma reads_back_element:
  assumes "reads_back out j" "reads_back_elements outs js" "skipped ws" "skipped ws'"
  shows "reads_back_elements (ws @ out @ [44] @ ws' @ outs) (j # js)"
  unfolding reads_back_elements_def
proof (intro allI impI)
  fix tail rest states xs and d :: dom
  assume t: "scan_token tail = (end_array, rest)" "ends_number tail"
  let ?d = "d\<lparr>ref_stack := Open_array xs # ref_stack d\<rparr>"
  let ?d' = "d\<lparr>ref_stack := Open_array (xs @ [j]) # ref_stack d\<rparr>"
  let ?rest = "44 # ws' @ outs @ tail"
  have "ends_number ?rest" by simp
  then obtain token cs where v: "scan_token (out @ ?rest) = (token, cs)" "token \<noteq> end_array"
    "resume (parse_value (True # states) token cs ?d) = resume (Value_done (True # states) ?rest (handle_value j ?d))"
    using assms(1) unfolding reads_back_def by blast
  obtain token' cs' where e: "scan_token (outs @ tail) = (token', cs')"
    "resume (parse_value (True # states) token' cs' ?d')
      = resume (Value_done states rest (handle_value (Json_array ((xs @ [j]) @ js)) d))"
    using assms(2) t unfolding reads_back_elements_def by blast
  from v e show "\<exists>token cs. scan_token ((ws @ out @ [44] @ ws' @ outs) @ tail) = (token, cs) \<and> token \<noteq> end_array
      \<and> resume (parse_value (True # states) token cs ?d)
        = resume (Value_done states rest (handle_value (Json_array (xs @ j # js)) d))"
    by (simp add: scan_skipped [OF assms(3)] scan_skipped [OF assms(4)] resume_Done [of "True # states"]
        evaluate_state_def)
qed

lemma reads_back_array:
  assumes "reads_back_elements out js" "skipped ws" "skipped ws'"
  shows "reads_back ([91] @ ws @ out @ ws' @ [93]) (Json_array js)"
  unfolding reads_back_def
proof (intro allI impI)
  fix rest states and d :: dom
  have "scan_token (ws' @ 93 # rest) = (end_array, rest)" "ends_number (ws' @ 93 # rest)"
    by (simp_all add: scan_skipped [OF assms(3)] skipped_ends [OF assms(3)])
  then obtain token cs where "scan_token (out @ ws' @ 93 # rest) = (token, cs)" "token \<noteq> end_array"
    "resume (parse_value (True # states) token cs (d\<lparr>ref_stack := Open_array [] # ref_stack d\<rparr>))
      = resume (Value_done states rest (handle_value (Json_array ([] @ js)) d))"
    using assms(1) unfolding reads_back_elements_def by blast
  then show "\<exists>token cs. scan_token (([91] @ ws @ out @ ws' @ [93]) @ rest) = (token, cs) \<and> token \<noteq> end_array
      \<and> resume (parse_value states token cs d) = resume (Value_done states rest (handle_value (Json_array js) d))"
    by (simp add: parse_value_def [of states begin_array] scan_skipped [OF assms(2)] start_array_def)
qed

text \<open>A key in its place: null until the value is there.\<close>

lemma dom_key_last:
  assumes "sorted_keys (xs @ (k, j) # kvs)"
  shows "dom_key (ascii k) (d\<lparr>ref_stack := Open_object xs key # vs\<rparr>) = d\<lparr>ref_stack := Open_object (xs @ [(k, Json_null)]) k # vs\<rparr>"
    and "object_put k j (xs @ [(k, Json_null)]) = xs @ [(k, j)]"
proof -
  have l: "\<forall>k' \<in> fst ` set xs. key_less k' k" using assms by (auto simp: sorted_wrt_append)
  then have "map_of xs k = None" by (metis key_less_irrefl map_of_eq_None_iff)
  then show "dom_key (ascii k) (d\<lparr>ref_stack := Open_object xs key # vs\<rparr>) = d\<lparr>ref_stack := Open_object (xs @ [(k, Json_null)]) k # vs\<rparr>"
    using object_put_last [OF l] by (simp add: dom_key_def Let_def)
  show "object_put k j (xs @ [(k, Json_null)]) = xs @ [(k, j)]"
    using object_put_twice [of k j Json_null xs] by (simp add: object_put_last [OF l])
qed

lemma scan_key: "utf8 s \<Longrightarrow> scan_token (34 # escaped s @ 34 # cs) = (value_string s, cs)"
  by (simp add: scan_string_escaped)

lemma reads_back_last_member:
  assumes "reads_back out j" "utf8 (ascii k)" "skipped ws" "skipped ws'"
  shows "reads_back_members (ws @ [34] @ escaped (ascii k) @ [34, 58] @ ws' @ out) [(k, j)]"
  unfolding reads_back_members_def
proof (intro allI impI)
  fix tail rest states xs key and d :: dom
  assume t: "scan_token tail = (end_object, rest)" "ends_number tail" and s: "sorted_keys (xs @ [(k, j)])"
  let ?d = "d\<lparr>ref_stack := Open_object xs key # ref_stack d\<rparr>"
  let ?d' = "d\<lparr>ref_stack := Open_object (xs @ [(k, Json_null)]) k # ref_stack d\<rparr>"
  obtain token cs where "scan_token (out @ tail) = (token, cs)"
    "resume (parse_value (False # states) token cs ?d') = resume (Value_done (False # states) tail (handle_value j ?d'))"
    using assms(1) t(2) unfolding reads_back_def by blast
  then show "\<exists>token cs. scan_token ((ws @ [34] @ escaped (ascii k) @ [34, 58] @ ws' @ out) @ tail) = (token, cs)
      \<and> token \<noteq> end_object
      \<and> resume (parse_member (False # states) token cs ?d)
        = resume (Value_done states rest (handle_value (Json_object (xs @ [(k, j)])) d))"
    using t(1) by (simp add: scan_skipped [OF assms(3)] scan_skipped [OF assms(4)] scan_key [OF assms(2), simplified]
        parse_member_def dom_key_last [OF s] resume_Done [of "False # states"] evaluate_state_def)
qed

lemma reads_back_member:
  assumes "reads_back out j" "utf8 (ascii k)" "reads_back_members outs kvs" "skipped ws" "skipped ws'" "skipped ws''"
  shows "reads_back_members (ws @ [34] @ escaped (ascii k) @ [34, 58] @ ws' @ out @ [44] @ ws'' @ outs) ((k, j) # kvs)"
  unfolding reads_back_members_def
proof (intro allI impI)
  fix tail rest states xs key and d :: dom
  assume t: "scan_token tail = (end_object, rest)" "ends_number tail" and s: "sorted_keys (xs @ (k, j) # kvs)"
  let ?d = "d\<lparr>ref_stack := Open_object xs key # ref_stack d\<rparr>"
  let ?d' = "d\<lparr>ref_stack := Open_object (xs @ [(k, Json_null)]) k # ref_stack d\<rparr>"
  let ?d'' = "d\<lparr>ref_stack := Open_object (xs @ [(k, j)]) k # ref_stack d\<rparr>"
  let ?rest = "44 # ws'' @ outs @ tail"
  have "ends_number ?rest" by simp
  then obtain token cs where v: "scan_token (out @ ?rest) = (token, cs)"
    "resume (parse_value (False # states) token cs ?d') = resume (Value_done (False # states) ?rest (handle_value j ?d'))"
    using assms(1) unfolding reads_back_def by blast
  have "sorted_keys ((xs @ [(k, j)]) @ kvs)" using s by simp
  then obtain token' cs' where e: "scan_token (outs @ tail) = (token', cs')"
    "resume (parse_member (False # states) token' cs' ?d'')
      = resume (Value_done states rest (handle_value (Json_object ((xs @ [(k, j)]) @ kvs)) d))"
    using assms(3) t unfolding reads_back_members_def by blast
  from v e show "\<exists>token cs. scan_token ((ws @ [34] @ escaped (ascii k) @ [34, 58] @ ws' @ out @ [44] @ ws'' @ outs) @ tail) = (token, cs)
      \<and> token \<noteq> end_object
      \<and> resume (parse_member (False # states) token cs ?d)
        = resume (Value_done states rest (handle_value (Json_object (xs @ (k, j) # kvs)) d))"
    by (simp add: scan_skipped [OF assms(4)] scan_skipped [OF assms(5)] scan_skipped [OF assms(6)]
        scan_key [OF assms(2), simplified] parse_member_def [of "False # states" "value_string (ascii k)"]
        dom_key_last [OF s] resume_Done [of "False # states"] evaluate_state_def)
qed

lemma reads_back_object:
  assumes "reads_back_members out kvs" "sorted_keys kvs" "skipped ws" "skipped ws'"
  shows "reads_back ([123] @ ws @ out @ ws' @ [125]) (Json_object kvs)"
  unfolding reads_back_def
proof (intro allI impI)
  fix rest states and d :: dom
  have "scan_token (ws' @ 125 # rest) = (end_object, rest)" "ends_number (ws' @ 125 # rest)"
    by (simp_all add: scan_skipped [OF assms(4)] skipped_ends [OF assms(4)])
  moreover have "sorted_keys ([] @ kvs)" using assms(2) by simp
  ultimately obtain token cs where "scan_token (out @ ws' @ 125 # rest) = (token, cs)" "token \<noteq> end_object"
    "resume (parse_member (False # states) token cs (d\<lparr>ref_stack := Open_object [] [] # ref_stack d\<rparr>))
      = resume (Value_done states rest (handle_value (Json_object ([] @ kvs)) d))"
    using assms(1) unfolding reads_back_members_def by blast
  then show "\<exists>token cs. scan_token (([123] @ ws @ out @ ws' @ [125]) @ rest) = (token, cs) \<and> token \<noteq> end_array
      \<and> resume (parse_value states token cs d) = resume (Value_done states rest (handle_value (Json_object kvs) d))"
    by (simp add: parse_value_def [of states begin_object] scan_skipped [OF assms(3)] start_object_def)
qed

section \<open>Printing and reading\<close>

lemma reads_back_empty: "reads_back [123, 125] (Json_object [])" "reads_back [91, 93] (Json_array [])"
  by (simp_all add: reads_back_def parse_value_def start_object_def start_array_def)

text \<open>The string of spaces is never shorter than the indentation, as long as no level adds more than
  there is at first.\<close>

definition indent_ok :: "nat \<Rightarrow> nat \<Rightarrow> nat \<Rightarrow> bool" where
  "indent_ok step indent sz \<longleftrightarrow> step \<le> 512 \<and> 512 \<le> sz \<and> indent \<le> sz"

lemma indent_ok_grow: "indent_ok step indent sz \<Longrightarrow> indent_ok step (new_indent indent step) (grow_indent (new_indent indent step) sz)"
proof -
  have "new_indent indent step \<le> indent + step" unfolding new_indent_def by (rule mod_less_eq_dividend)
  then show "indent_ok step indent sz \<Longrightarrow> ?thesis" by (simp add: indent_ok_def grow_indent_def)
qed

lemma indent_ok_mono: "indent_ok step indent sz \<Longrightarrow> sz \<le> sz' \<Longrightarrow> indent_ok step indent sz'"
  by (simp add: indent_ok_def)

lemma write_indent_ok: "indent_ok step indent sz \<Longrightarrow> write_indent sz indent = Inr (replicate indent 32)"
  by (simp add: indent_ok_def write_indent_def)

lemma grow_indent_le: "sz \<le> grow_indent indent sz"
  by (simp add: grow_indent_def)

lemma dump_grows:
  "dump tc p a step ind j sz = Inr (out, sz') \<Longrightarrow> sz \<le> sz'"
  "dump_members tc p a step ind kvs sz = Inr (out, sz') \<Longrightarrow> sz \<le> sz'"
  "dump_elements tc p a step ind js sz = Inr (out, sz') \<Longrightarrow> sz \<le> sz'"
proof (induction tc p a step ind j sz and tc p a step ind kvs sz and tc p a step ind js sz
    arbitrary: out sz' and out sz' and out sz' rule: dump_dump_members_dump_elements.induct)
  case (1 tc p a step ind kvs sz)
  then show ?case
    using grow_indent_le [of sz "new_indent ind step"]
    by (fastforce simp: bind_res_Inr_iff Let_def split: if_splits)
next
  case (2 tc p a step ind js sz)
  then show ?case
    using grow_indent_le [of sz "new_indent ind step"]
    by (fastforce simp: bind_res_Inr_iff Let_def split: if_splits)
qed (fastforce simp: bind_res_Inr_iff)+

lemma dump_closes:
  "dump_members tc p a step (new_indent ind step) kvs (grow_indent (new_indent ind step) sz) = Inr (out, sz') \<Longrightarrow>
     indent_ok step ind sz \<Longrightarrow> write_indent sz' ind = Inr (replicate ind 32)"
  "dump_elements tc p a step (new_indent ind step) js (grow_indent (new_indent ind step) sz) = Inr (out, sz') \<Longrightarrow>
     indent_ok step ind sz \<Longrightarrow> write_indent sz' ind = Inr (replicate ind 32)"
  using dump_grows(2,3) grow_indent_le order_trans indent_ok_mono write_indent_ok by metis+

lemma dump_ok:
  "json_ok j \<Longrightarrow> a = False \<Longrightarrow> indent_ok step ind sz \<Longrightarrow> \<exists>r. dump tc p a step ind j sz = Inr r"
  "list_all (\<lambda>(k, j). utf8 (ascii k) \<and> json_ok j) kvs \<Longrightarrow> a = False \<Longrightarrow> indent_ok step ind sz \<Longrightarrow>
     \<exists>r. dump_members tc p a step ind kvs sz = Inr r"
  "list_all json_ok js \<Longrightarrow> a = False \<Longrightarrow> indent_ok step ind sz \<Longrightarrow> \<exists>r. dump_elements tc p a step ind js sz = Inr r"
proof (induction tc p a step ind j sz and tc p a step ind kvs sz and tc p a step ind js sz
    rule: dump_dump_members_dump_elements.induct)
  case (1 tc p a step ind kvs sz)
  show ?case
  proof (cases "kvs = [] \<or> \<not> p")
    case False
    let ?ind = "new_indent ind step" and ?sz = "grow_indent (new_indent ind step) sz"
    obtain out sz' where m: "dump_members tc p a step ?ind kvs ?sz = Inr (out, sz')"
      using 1 False indent_ok_grow by fastforce
    then show ?thesis using False dump_closes(1) [OF m "1.prems"(3)] by simp
  qed (use 1 in fastforce)
next
  case (2 tc p a step ind js sz)
  show ?case
  proof (cases "js = [] \<or> \<not> p")
    case False
    let ?ind = "new_indent ind step" and ?sz = "grow_indent (new_indent ind step) sz"
    obtain out sz' where m: "dump_elements tc p a step ?ind js ?sz = Inr (out, sz')"
      using 2 False indent_ok_grow by fastforce
    then show ?thesis using False dump_closes(2) [OF m "2.prems"(3)] by simp
  qed (use 2 in fastforce)
next
  case (10 tc p a step ind k j kvs sz)
  obtain out sz' where m: "dump tc p a step ind j sz = Inr (out, sz')"
    using 10 by (fastforce simp: write_indent_ok dump_escaped_utf8)
  then have "indent_ok step ind sz'" using dump_grows(1) "10.prems"(3) indent_ok_mono by blast
  then obtain r where "dump_members tc p a step ind kvs sz' = Inr r"
    using 10 m by (fastforce simp: write_indent_ok dump_escaped_utf8)
  moreover have "dump_escaped a (ascii k) = Inr (escaped (ascii k))" using "10.prems"(1,2) by (simp add: dump_escaped_utf8)
  ultimately show ?case using m "10.prems"(3) by (cases r) (simp add: write_indent_ok)
next
  case (12 tc p a step ind j js sz)
  obtain out sz' where m: "dump tc p a step ind j sz = Inr (out, sz')"
    using 12 by (fastforce simp: write_indent_ok)
  then have "indent_ok step ind sz'" using dump_grows(1) "12.prems"(3) indent_ok_mono by blast
  then obtain r where "dump_elements tc p a step ind js sz' = Inr r"
    using 12 m by (fastforce simp: write_indent_ok)
  then show ?case using m "12.prems" by (cases r) (simp add: write_indent_ok)
qed (auto simp: dump_escaped_utf8 bind_res_Inr_iff)

lemma reads_back_dump:
  "dump tc p a step ind j sz = Inr (out, sz') \<Longrightarrow> a = False \<Longrightarrow> indent_ok step ind sz \<Longrightarrow>
     json_ok j \<Longrightarrow> floats_print tc j \<Longrightarrow> reads_back out (as_read j)"
  "dump_members tc p a step ind kvs sz = Inr (out, sz') \<Longrightarrow> a = False \<Longrightarrow> indent_ok step ind sz \<Longrightarrow> kvs \<noteq> [] \<Longrightarrow>
     list_all (\<lambda>(k, j). utf8 (ascii k) \<and> json_ok j) kvs \<Longrightarrow> list_all (\<lambda>(_, j). floats_print tc j) kvs \<Longrightarrow>
     reads_back_members out (map (\<lambda>(k, j). (k, as_read j)) kvs)"
  "dump_elements tc p a step ind js sz = Inr (out, sz') \<Longrightarrow> a = False \<Longrightarrow> indent_ok step ind sz \<Longrightarrow> js \<noteq> [] \<Longrightarrow>
     list_all json_ok js \<Longrightarrow> list_all (floats_print tc) js \<Longrightarrow> reads_back_elements out (map as_read js)"
proof (induction tc p a step ind j sz and tc p a step ind kvs sz and tc p a step ind js sz
    arbitrary: out sz' and out sz' and out sz' rule: dump_dump_members_dump_elements.induct)
  case (1 tc p a step ind kvs sz)
  let ?kvs = "map (\<lambda>(k, j). (k, as_read j)) kvs"
  have sorted: "sorted_keys ?kvs" using "1.prems"(4) by (simp add: split_def comp_def)
  show ?case
  proof (cases "kvs = []")
    case True
    then show ?thesis using "1.prems" reads_back_empty(1) by simp
  next
    case False
    let ?ind = "if p then new_indent ind step else ind" and ?sz = "if p then grow_indent (new_indent ind step) sz else sz"
    let ?ws = "if p then [10] else []" and ?ws' = "if p then 10 # replicate ind 32 else []"
    obtain ms where m: "dump_members tc p a step ?ind kvs ?sz = Inr (ms, sz')" "out = [123] @ ?ws @ ms @ ?ws' @ [125]"
      using "1.prems"(1) False dump_closes(1) [OF _ "1.prems"(3)] by (cases p) (auto simp: bind_res_Inr_iff Let_def)
    have "reads_back_members ms ?kvs"
      using "1.IH" "1.prems"(2-5) False m(1) indent_ok_grow by (cases p) simp_all
    from reads_back_object [OF this sorted, of ?ws ?ws'] show ?thesis using m(2) by simp
  qed
next
  case (2 tc p a step ind js sz)
  show ?case
  proof (cases "js = []")
    case True
    then show ?thesis using "2.prems" reads_back_empty(2) by simp
  next
    case False
    let ?ind = "if p then new_indent ind step else ind" and ?sz = "if p then grow_indent (new_indent ind step) sz else sz"
    let ?ws = "if p then [10] else []" and ?ws' = "if p then 10 # replicate ind 32 else []"
    obtain es where m: "dump_elements tc p a step ?ind js ?sz = Inr (es, sz')" "out = [91] @ ?ws @ es @ ?ws' @ [93]"
      using "2.prems"(1) False dump_closes(2) [OF _ "2.prems"(3)] by (cases p) (auto simp: bind_res_Inr_iff Let_def)
    have "reads_back_elements es (map as_read js)"
      using "2.IH" "2.prems"(2-5) False m(1) indent_ok_grow by (cases p) simp_all
    from reads_back_array [OF this, of ?ws ?ws'] show ?thesis using m(2) by simp
  qed
next
  case (10 tc p a step ind k j kvs sz)
  let ?ws = "if p then replicate ind 32 else []" and ?ws' = "if p then [32] else []" and ?ws'' = "if p then [10] else []"
  obtain v sz1 ms where m: "dump tc p a step ind j sz = Inr (v, sz1)" "dump_members tc p a step ind kvs sz1 = Inr (ms, sz')"
    and u: "utf8 (ascii k)"
    and out: "out = ?ws @ [34] @ escaped (ascii k) @ [34, 58] @ ?ws' @ v @ (if kvs = [] then [] else [44] @ ?ws'') @ ms"
    using "10.prems"(1-3) by (cases p) (auto simp: bind_res_Inr_iff dump_escaped_utf8 write_indent_ok)
  have i: "indent_ok step ind sz1" using dump_grows(1) [OF m(1)] "10.prems"(3) indent_ok_mono by blast
  have v: "reads_back v (as_read j)"
    using "10.IH"(1) "10.prems"(2,3,5,6) u m(1) by (cases p) (simp_all add: dump_escaped_utf8 write_indent_ok)
  show ?case
  proof (cases "kvs = []")
    case True
    then show ?thesis using reads_back_last_member [OF v u, of ?ws ?ws'] m(2) out by simp
  next
    case False
    then have "reads_back_members ms (map (\<lambda>(k, j). (k, as_read j)) kvs)"
      using "10.IH"(2) "10.prems"(2,3,5,6) u m i by (cases p) (simp_all add: dump_escaped_utf8 write_indent_ok)
    from reads_back_member [OF v u this, of ?ws ?ws' ?ws''] show ?thesis using False out by simp
  qed
next
  case (12 tc p a step ind j js sz)
  let ?ws = "if p then replicate ind 32 else []" and ?ws' = "if p then [10] else []"
  obtain v sz1 es where m: "dump tc p a step ind j sz = Inr (v, sz1)" "dump_elements tc p a step ind js sz1 = Inr (es, sz')"
    and out: "out = ?ws @ v @ (if js = [] then [] else [44] @ ?ws') @ es"
    using "12.prems"(1,3) by (cases p) (auto simp: bind_res_Inr_iff write_indent_ok)
  have i: "indent_ok step ind sz1" using dump_grows(1) [OF m(1)] "12.prems"(3) indent_ok_mono by blast
  have v: "reads_back v (as_read j)"
    using "12.IH"(1) "12.prems"(2,3,5,6) m(1) by (cases p) (simp_all add: write_indent_ok)
  show ?case
  proof (cases "js = []")
    case True
    then show ?thesis using reads_back_last_element [OF v, of ?ws] m(2) out by simp
  next
    case False
    then have "reads_back_elements es (map as_read js)"
      using "12.IH"(2) "12.prems"(2,3,5,6) m i by (cases p) (simp_all add: write_indent_ok)
    from reads_back_element [OF v this, of ?ws ?ws'] show ?thesis using False out by simp
  qed
qed (simp_all add: dump_escaped_utf8 bind_res_Inr_iff reads_back_scalars reads_back_scalars(3) [simplified]
    reads_back_integer reads_back_number reads_back_float [simplified] del: as_read.simps(1))

lemma read_json_value:
  assumes "reads_back out j" "ends_number rest"
  shows "read_json (out @ rest) j0 = Parsed j"
proof -
  let ?d = "\<lparr>root = j0, ref_stack = []\<rparr>"
  obtain token cs where t: "scan_token (out @ rest) = (token, cs)"
    "resume (parse_value [] token cs ?d) = resume (Value_done [] rest (handle_value j ?d))"
    using assms unfolding reads_back_def by blast
  then have r: "resume (parse_value [] token cs ?d) = Parsed j"
    by (simp add: resume_Done evaluate_state_def handle_value_def document_def)
  have "\<not> (\<exists>c. out @ rest = 239 # c)"
  proof
    assume "\<exists>c. out @ rest = 239 # c"
    then have "token = parse_error"
      using t(1) by (auto simp: scan_token_def skip_whitespace_def is_space_def is_digit_def)
    then show False using r by (simp add: parse_value_def)
  qed
  then have "scan_first (out @ rest) = (token, cs)"
    using t(1) by (auto simp: scan_first_def skip_bom_def split: list.split option.splits if_splits)
  then show ?thesis using r by (simp add: read_json_def sax_parse_internal.simps [of "[]" "Some token"] parse_step_def resume_def)
qed

lemma indentation_ok: "width \<le> 512 \<Longrightarrow> indent_ok (nat ((if 0 < width then width else 0) mod 2 ^ 32)) 0 512"
  by (simp add: indent_ok_def nat_le_iff)

lemma write_json_ok:
  assumes "json_ok j" "width \<le> 512"
  shows "\<exists>out. write_json tc width j = Inr out"
  using dump_ok(1) [OF assms(1) refl indentation_ok [OF assms(2)], of tc "0 < width"]
  by (auto simp: write_json_def Let_def bind_res_Inr_iff)

lemma read_json_written:
  assumes "write_json tc width j = Inr out" "json_ok j" "floats_print tc j" "width \<le> 512" "ends_number rest"
  shows "read_json (out @ rest) j0 = Parsed (as_read j)"
proof -
  obtain sz where "dump tc (0 < width) False (nat ((if 0 < width then width else 0) mod 2 ^ 32)) 0 j 512 = Inr (out, sz)"
    using assms(1) by (auto simp: write_json_def Let_def bind_res_Inr_iff)
  from reads_back_dump(1) [OF this refl indentation_ok [OF assms(4)] assms(2,3)] assms(5)
  show ?thesis by (rule read_json_value)
qed

text \<open>Property C13. A document is printed, with an indentation of up to 512 a level, and read back as
  the same document, whatever was in the variable before and whatever follows that does not continue
  a number; only integers that are not negative are unsigned afterwards. Its integers must fit their
  types, its strings and keys be well-formed UTF-8, and its keys be in order, as those of a map are;
  and its floating-point numbers, if it has any, be printed by \<open>to_chars\<close> as numbers of the same value.\<close>

theorem json_roundtrip:
  assumes "json_ok j" "floats_print tc j" "width \<le> 512" "ends_number rest"
  shows "\<exists>out. write_json tc width j = Inr out \<and> read_json (out @ rest) j0 = Parsed (as_read j)"
  using write_json_ok [OF assms(1,3)] read_json_written [OF _ assms] by blast

text \<open>One and a half is \<open>3 \<sqdot> 2\<^sup>5\<^sup>1 \<sqdot> 2\<^sup>-\<^sup>5\<^sup>2\<close>.\<close>

definition sample_document :: json where
  "sample_document = Json_object
    [(''a'', Json_array [Json_integer (- 7), Json_integer 12, Json_null, Json_object [], Json_float (3 * 2 ^ 51) (- 52)]),
     (''b'', Json_string [34, 10, 195, 169, 240, 159, 152, 128])]"

definition sample_float :: "int \<Rightarrow> int \<Rightarrow> u8 list" where
  "sample_float m e = ascii ''1.5''"

lemma sample_float_ok: "floats_print sample_float (Json_float (3 * 2 ^ 51) (- 52))"
  by (simp add: sample_float_def ascii_def float_text_def unsigned_text_def fraction_text_def is_digit_def
      strtod_def decimal_value_def exponent_value_def digits_value_def nearest_double_def scaled_def bit_length.simps)

lemma sample_document_ok: "json_ok sample_document" "floats_print sample_float sample_document"
proof -
  have "utf8 ([34] @ [10] @ [195, 169] @ [240, 159, 152, 128])"
    by (intro utf8_append utf8_ascii) (auto intro!: utf8_char simp: continuations_def)
  moreover have "utf8 (ascii ''a'')" "utf8 (ascii ''b'')" by (simp_all add: ascii_def utf8_ascii)
  ultimately show "json_ok sample_document" by (simp add: sample_document_def)
  show "floats_print sample_float sample_document"
    using sample_float_ok by (simp add: sample_document_def)
qed

theorem json_roundtrip_witness:
  "\<exists>out. write_json sample_float 4 sample_document = Inr out
    \<and> read_json (out @ [10]) Json_null = Parsed (as_read sample_document)"
  using json_roundtrip [OF sample_document_ok, of 4 "[10]" Json_null]
  by (simp add: ends_number_def is_digit_def)

end
