(* ===== verification/JsonReads.thy ===== *)
theory JsonReads
  imports JsonRoundtrip
begin

text \<open>
  Whatever text is read: a document that is parsed is well-formed, so it can be printed and read
  back; a parse error leaves what its first token tells.
\<close>

section \<open>Tokens\<close>

fun token_ok :: "json_token \<Rightarrow> bool" where
  "token_ok (value_string s) \<longleftrightarrow> utf8 s"
| "token_ok (value_unsigned n) \<longleftrightarrow> n < 2 ^ 64"
| "token_ok (value_integer i) \<longleftrightarrow> - (2 ^ 63) \<le> i \<and> i < 2 ^ 63"
| "token_ok _ \<longleftrightarrow> True"

lemma number_token_ok: "token_ok (number_token ty tb)"
  by (simp add: number_token_def Let_def split: number_type.split)

lemma scan_numbers_ok:
  "token_ok (fst (scan_number_any2 tb cs))"
  "token_ok (fst (scan_number_decimal2 tb cs))"
  "token_ok (fst (scan_number_any1 ty tb cs))"
proof -
  show any2: "token_ok (fst (scan_number_any2 tb cs))" for tb cs
    by (induction tb cs rule: scan_number_any2.induct) (simp_all add: scan_number_done_def number_token_ok)
  have exponent: "token_ok (fst (scan_number_exponent tb cs))" for tb cs
    by (auto simp: scan_number_exponent_def scan_number_sign_def any2 split: list.split)
  show decimal2: "token_ok (fst (scan_number_decimal2 tb cs))" for tb cs
    by (induction tb cs rule: scan_number_decimal2.induct)
      (simp_all add: scan_number_done_def number_token_ok exponent)
  show "token_ok (fst (scan_number_any1 ty tb cs))"
    by (induction ty tb cs rule: scan_number_any1.induct)
      (auto simp: scan_number_done_def number_token_ok exponent scan_number_decimal1_def decimal2 split: list.split)
qed

lemma scan_number_ok: "token_ok (fst (scan_number c cs))"
  by (auto simp: scan_number_def scan_number_minus_def scan_number_zero_def scan_number_exponent_def
      scan_number_sign_def scan_number_decimal1_def scan_number_done_def number_token_ok scan_numbers_ok
      split: list.split)

lemma scan_string_kind: "scan_string tb cs = (t, rest) \<Longrightarrow> t = parse_error \<or> (\<exists>s. t = value_string s)"
  by (induction tb cs rule: scan_string.induct) (auto split: if_splits option.splits)

lemma scan_string_ok: "token_ok (fst (scan_string [] cs))"
proof -
  obtain t rest where t: "scan_string [] cs = (t, rest)" by fastforce
  then show ?thesis using scan_string_kind [OF t] scan_string_utf8 [of "[]" cs] utf8.Nil by auto
qed

lemma scan_literal_kind: "fst (scan_literal ls t cs) \<in> {t, parse_error}"
  by (induction ls t cs rule: scan_literal.induct) auto

lemma scan_literal_ok: "token_ok t \<Longrightarrow> token_ok (fst (scan_literal ls t cs))"
  using scan_literal_kind [of ls t cs] by auto

lemma scan_token_ok: "token_ok (fst (scan_token cs))"
  by (auto simp: scan_token_def scan_string_ok scan_number_ok scan_literal_ok split: list.split)

lemma scan_first_ok: "token_ok (fst (scan_first cs))"
  by (simp add: scan_first_def scan_token_ok split: option.split)

section \<open>The document under construction\<close>

fun open_ok :: "open_value \<Rightarrow> bool" where
  "open_ok (Open_array js) \<longleftrightarrow> json_ok (Json_array js)"
| "open_ok (Open_object kvs key) \<longleftrightarrow> json_ok (Json_object kvs) \<and> utf8 (ascii key)"

definition dom_ok :: "bool list \<Rightarrow> dom \<Rightarrow> bool" where
  "dom_ok states d \<longleftrightarrow> length states = length (ref_stack d) \<and> list_all open_ok (ref_stack d)"

lemma ascii_of_key [simp]: "ascii (map (\<lambda>b. char_of (unat b)) s) = s"
proof -
  have "of_char (char_of (unat b)) = b" for b :: u8
  proof -
    have "unat b < 256" using unsigned_less [of b] by simp
    then have "(of_char (char_of (unat b)) :: nat) = unat b" by simp
    then have "of_nat (of_char (char_of (unat b))) = b" by (metis word_unat_eq_iff unat_byte \<open>unat b < 256\<close>)
    then show ?thesis unfolding of_nat_of_char .
  qed
  then show ?thesis by (simp add: ascii_def comp_def)
qed

lemma list_all_object_put: "list_all P kvs \<Longrightarrow> P (k, v) \<Longrightarrow> list_all P (object_put k v kvs)"
  by (induction k v kvs rule: object_put.induct) auto

lemma object_put_ok: "json_ok (Json_object kvs) \<Longrightarrow> utf8 (ascii k) \<Longrightarrow> json_ok j \<Longrightarrow> json_ok (Json_object (object_put k j kvs))"
  by (simp add: sorted_object_put list_all_object_put)

lemma open_value_ok: "open_ok v \<Longrightarrow> json_ok (container v)" "open_ok v \<Longrightarrow> json_ok j \<Longrightarrow> open_ok (insert_value j v)"
  by (cases v; simp add: sorted_object_put list_all_object_put)+

lemma handle_value_ok:
  assumes "dom_ok states d" "json_ok j"
  shows "dom_ok states (handle_value j d)" "states = [] \<Longrightarrow> json_ok (root (handle_value j d))"
  using assms by (auto simp: dom_ok_def handle_value_def open_value_ok split: list.splits)

lemma start_ok: "dom_ok states d \<Longrightarrow> dom_ok (b # states) (start_array d)" "dom_ok states d \<Longrightarrow> dom_ok (b # states) (start_object d)"
  using utf8.Nil by (simp_all add: dom_ok_def start_array_def start_object_def ascii_def)

lemma dom_key_ok: "dom_ok states d \<Longrightarrow> utf8 s \<Longrightarrow> dom_ok states (dom_key s d)"
  using object_put_ok [of _ "map (\<lambda>b. char_of (unat b)) s" Json_null]
  by (auto simp: dom_ok_def dom_key_def Let_def split: list.split open_value.split)

lemma end_container_ok:
  assumes "dom_ok (b # states) d"
  shows "dom_ok states (end_container d)" "states = [] \<Longrightarrow> json_ok (root (end_container d))"
proof -
  obtain v vs where v: "ref_stack d = v # vs" "dom_ok states (d\<lparr>ref_stack := vs\<rparr>)" "json_ok (container v)"
    using assms by (cases "ref_stack d") (auto simp: dom_ok_def open_value_ok)
  show "dom_ok states (end_container d)" "states = [] \<Longrightarrow> json_ok (root (end_container d))"
    using handle_value_ok [OF v(2,3)] v(1) by (simp_all add: end_container_def)
qed

section \<open>The parser keeps it\<close>

definition progress_ok :: "progress \<Rightarrow> bool" where
  "progress_ok p =
     (case p of
        Next_value states token cs d \<Rightarrow> token_ok token \<and> dom_ok states d
      | Value_done states cs d \<Rightarrow> dom_ok states d \<and> (states = [] \<longrightarrow> json_ok (root d))
      | Stop (Parsed j) \<Rightarrow> json_ok j
      | Stop _ \<Rightarrow> True)"

lemma progress_ok_simps [simp]:
  "progress_ok (Next_value states token cs d) \<longleftrightarrow> token_ok token \<and> dom_ok states d"
  "progress_ok (Value_done states cs d) \<longleftrightarrow> dom_ok states d \<and> (states = [] \<longrightarrow> json_ok (root d))"
  "progress_ok (Stop (Parsed j)) \<longleftrightarrow> json_ok j"
  "progress_ok (Stop (Parse_error j))" "progress_ok (Stop (Number_overflow j))"
  by (simp_all add: progress_ok_def)

lemma token_of_scan: "scan_token cs = (t, rest) \<Longrightarrow> token_ok t"
  using scan_token_ok [of cs] by simp

lemma parse_member_ok:
  assumes "token_ok token" "dom_ok states d"
  shows "progress_ok (parse_member states token cs d)"
  using assms by (auto simp: parse_member_def dom_key_ok token_of_scan split: json_token.split prod.split)

lemma parse_value_ok:
  assumes "token_ok token" "dom_ok states d"
  shows "progress_ok (parse_value states token cs d)"
  using assms
  by (auto simp: parse_value_def handle_value_ok start_ok token_of_scan
      intro!: parse_member_ok handle_value_ok end_container_ok start_ok
      split: json_token.split option.split prod.split)

lemma evaluate_state_ok:
  assumes "dom_ok states d" "states = [] \<Longrightarrow> json_ok (root d)"
  shows "progress_ok (evaluate_state states cs d)"
proof (cases states)
  case Nil
  then show ?thesis using assms by (simp add: evaluate_state_def document_def dom_ok_def)
next
  case (Cons b outer)
  have "dom_ok outer (end_container d)" "outer = [] \<Longrightarrow> json_ok (root (end_container d))"
    using end_container_ok assms(1) Cons by blast+
  then show ?thesis
    using assms(1) Cons by (auto simp: evaluate_state_def token_of_scan intro!: parse_member_ok split: prod.split)
qed

lemma sax_parse_ok:
  assumes "dom_ok states d" "case token of Some t \<Rightarrow> token_ok t | None \<Rightarrow> states = [] \<longrightarrow> json_ok (root d)"
  shows "progress_ok (Stop (sax_parse_internal states token cs d))"
  using assms
proof (induction states token cs d rule: sax_parse_internal.induct)
  case (1 states token cs d)
  have "progress_ok (parse_step states token cs d)"
    using "1.prems" by (cases token) (simp_all add: parse_step_def evaluate_state_ok parse_value_ok)
  then show ?case
    using 1 by (cases "parse_step states token cs d") (simp_all add: sax_parse_internal.simps [of states token cs d])
qed

lemma read_json_ok: "read_json cs j0 = Parsed j \<Longrightarrow> json_ok j"
  using sax_parse_ok [of "[]" "\<lparr>root = j0, ref_stack = []\<rparr>" "Some (fst (scan_first cs))" "snd (scan_first cs)"]
  by (simp add: read_json_def split_beta dom_ok_def scan_first_ok)

text \<open>Property C23. Whatever text is parsed, the document is well-formed: its integers fit their
  types, its strings are UTF-8, and its keys are in order without repetition. So it can be printed
  again, with an indentation of up to 512 a level; and the text that is printed is read as the same
  document, if \<open>to_chars\<close> prints its floating-point numbers, when it has any, as numbers of the same
  value.\<close>

theorem parsed_documents_printable:
  assumes "read_json cs j0 = Parsed j" "width \<le> 512"
  shows "json_ok j
    \<and> (\<exists>out. write_json tc width j = Inr out
        \<and> (floats_print tc j \<longrightarrow> read_json (out @ [10]) j1 = Parsed (as_read j)))"
proof -
  note j = read_json_ok [OF assms(1)]
  then obtain out where "write_json tc width j = Inr out" using write_json_ok assms(2) by blast
  moreover have "ends_number [10]" by (simp add: ends_number_def is_digit_def)
  ultimately have "floats_print tc j \<Longrightarrow> read_json (out @ [10]) j1 = Parsed (as_read j)"
    using read_json_written j assms(2) by blast
  then show ?thesis using j \<open>write_json tc width j = Inr out\<close> by blast
qed

lemma sample_text: "read_json (ascii ''[1.5, -0]x'') j0 = Parsed (Json_array [Json_float (3 * 2 ^ 51) (- 52), Json_integer 0])"
proof -
  have "strtod (ascii ''1.5'') = Some (3 * 2 ^ 51, - 52)"
    using sample_float_ok by (simp add: sample_float_def)
  then show ?thesis
    by (simp add: read_json_def scan_first_def skip_bom_def ascii_def scan_token_def skip_whitespace_def is_space_def
      is_digit_def sax_parse_internal.simps parse_step_def parse_value_def evaluate_state_def start_array_def
      scan_number_def scan_number_minus_def scan_number_zero_def scan_number_done_def number_token_def digits_value_def
      scan_number_decimal1_def handle_value_def end_container_def document_def)
qed

theorem parsed_documents_printable_witness:
  "\<exists>out. write_json sample_float 0 (Json_array [Json_float (3 * 2 ^ 51) (- 52), Json_integer 0]) = Inr out
    \<and> read_json (out @ [10]) Json_null = Parsed (Json_array [Json_float (3 * 2 ^ 51) (- 52), Json_number 0])"
  using parsed_documents_printable [OF sample_text, where tc = sample_float and width = 0 and ?j1.0 = Json_null]
    sample_float_ok by simp

section \<open>What a failure leaves\<close>

text \<open>The outermost container is the first in the text, and it stays of its kind.\<close>

fun is_array :: "open_value \<Rightarrow> bool" where
  "is_array (Open_array _) = True"
| "is_array (Open_object _ _) = False"

definition of_kind :: "bool \<Rightarrow> json \<Rightarrow> bool" where
  "of_kind arr j \<longleftrightarrow> (case j of Json_array _ \<Rightarrow> arr | Json_object _ \<Rightarrow> \<not> arr | _ \<Rightarrow> False)"

definition outermost :: "bool \<Rightarrow> bool list \<Rightarrow> dom \<Rightarrow> bool" where
  "outermost arr states d \<longleftrightarrow>
     length states = length (ref_stack d) \<and> (states \<noteq> [] \<longrightarrow> is_array (last (ref_stack d)) = arr)"

lemma container_kind: "of_kind (is_array v) (container v)" "is_array (insert_value j v) = is_array v"
  by (cases v; simp add: of_kind_def)+

lemma document_kind:
  assumes "outermost arr states d" "states \<noteq> []"
  shows "of_kind arr (document d)"
proof -
  have "of_kind (is_array (last (v # vs))) (fold (\<lambda>v j. container (insert_value j v)) vs (container v'))"
    if "is_array v' = is_array v" for v v' vs
    using that
  proof (induction vs arbitrary: v v')
    case Nil
    then show ?case using container_kind(1) [of v'] by simp
  next
    case (Cons w vs)
    have "of_kind (is_array (last (w # vs))) (fold (\<lambda>v j. container (insert_value j v)) vs
        (container (insert_value (container v') w)))"
      by (rule Cons.IH) (simp add: container_kind)
    then show ?case by simp
  qed
  moreover obtain v vs where "ref_stack d = v # vs"
    using assms by (cases "ref_stack d") (auto simp: outermost_def)
  ultimately show ?thesis using assms by (auto simp: document_def outermost_def)
qed

lemma outermost_value: "outermost arr states d \<Longrightarrow> outermost arr states (handle_value j d)"
  by (auto simp: outermost_def handle_value_def container_kind split: list.split)

lemma outermost_key: "outermost arr states d \<Longrightarrow> outermost arr states (dom_key s d)"
  by (auto simp: outermost_def dom_key_def Let_def split: list.split open_value.split)

lemma outermost_start:
  "outermost arr states d \<Longrightarrow> states \<noteq> [] \<Longrightarrow> outermost arr (b # states) (start_array d)"
  "outermost arr states d \<Longrightarrow> states \<noteq> [] \<Longrightarrow> outermost arr (b # states) (start_object d)"
  by (auto simp: outermost_def start_array_def start_object_def)

lemma outermost_end: "outermost arr (b # states) d \<Longrightarrow> outermost arr states (end_container d)"
  by (cases "ref_stack d")
    (auto simp: outermost_def end_container_def handle_value_def container_kind split: list.split)

definition leaves :: "bool \<Rightarrow> progress \<Rightarrow> bool" where
  "leaves arr p =
     (case p of
        Next_value states token cs d \<Rightarrow> outermost arr states d \<and> states \<noteq> []
      | Value_done states cs d \<Rightarrow> outermost arr states d
      | Stop (Parsed j) \<Rightarrow> True
      | Stop (Parse_error j) \<Rightarrow> of_kind arr j
      | Stop (Number_overflow j) \<Rightarrow> of_kind arr j)"

lemma leaves_simps [simp]:
  "leaves arr (Next_value states token cs d) \<longleftrightarrow> outermost arr states d \<and> states \<noteq> []"
  "leaves arr (Value_done states cs d) \<longleftrightarrow> outermost arr states d"
  "leaves arr (Stop (Parsed j))" "leaves arr (Stop (Parse_error j)) \<longleftrightarrow> of_kind arr j"
  "leaves arr (Stop (Number_overflow j)) \<longleftrightarrow> of_kind arr j"
  by (simp_all add: leaves_def)

lemma parse_member_leaves:
  "outermost arr states d \<Longrightarrow> states \<noteq> [] \<Longrightarrow> leaves arr (parse_member states token cs d)"
  by (auto simp: parse_member_def intro!: outermost_key document_kind split: json_token.split prod.split)

lemma parse_value_leaves:
  assumes "outermost arr states d" "states \<noteq> []"
  shows "leaves arr (parse_value states token cs d)"
  using assms
  by (auto simp: parse_value_def outermost_value outermost_start document_kind
      intro!: parse_member_leaves outermost_end outermost_start
      split: json_token.split option.split prod.split)

lemma evaluate_state_leaves: "outermost arr states d \<Longrightarrow> leaves arr (evaluate_state states cs d)"
  by (auto simp: evaluate_state_def document_kind intro!: parse_member_leaves outermost_end split: list.split prod.split)

lemma sax_parse_leaves:
  assumes "outermost arr states d" "token \<noteq> None \<Longrightarrow> states \<noteq> []"
  shows "leaves arr (Stop (sax_parse_internal states token cs d))"
  using assms
proof (induction states token cs d rule: sax_parse_internal.induct)
  case (1 states token cs d)
  have "leaves arr (parse_step states token cs d)"
    using "1.prems" by (cases token) (simp_all add: parse_step_def evaluate_state_leaves parse_value_leaves)
  then show ?case
    using 1 by (cases "parse_step states token cs d") (simp_all add: sax_parse_internal.simps [of states token cs d])
qed

definition left_by :: "json_token \<Rightarrow> json \<Rightarrow> json \<Rightarrow> bool" where
  "left_by first j0 j \<longleftrightarrow>
     (if first = begin_array then \<exists>js. j = Json_array js
      else if first = begin_object then \<exists>kvs. j = Json_object kvs
      else j = j0)"

lemma of_kind_iff: "of_kind arr j \<longleftrightarrow> (if arr then \<exists>js. j = Json_array js else \<exists>kvs. j = Json_object kvs)"
  by (cases j) (auto simp: of_kind_def)

lemma leaves_first:
  assumes "leaves arr p" "resume p = Parse_error j \<or> resume p = Number_overflow j"
  shows "of_kind arr j"
proof -
  have "leaves arr (Stop (resume p))"
  proof (cases p)
    case (Next_value states token cs d)
    then show ?thesis using assms(1) sax_parse_leaves [of arr states d "Some token" cs] by (simp add: resume_def)
  next
    case (Value_done states cs d)
    then show ?thesis using assms(1) sax_parse_leaves [of arr states d None cs] by (simp add: resume_def)
  qed (use assms(1) in simp)
  then show ?thesis using assms(2) by auto
qed

text \<open>Reading fails with an exception, and the variable is left as the first token has it: an array or
  an object when one had begun, otherwise what it was before.\<close>

lemma read_json_leaves:
  assumes "read_json cs j0 = Parse_error j \<or> read_json cs j0 = Number_overflow j"
  shows "left_by (fst (scan_first cs)) j0 j"
proof -
  let ?d = "\<lparr>root = j0, ref_stack = []\<rparr>"
  obtain token rest where t: "scan_first cs = (token, rest)" by fastforce
  then have r: "read_json cs j0 = resume (parse_value [] token rest ?d)"
    by (simp add: read_json_def sax_parse_internal.simps [of "[]" "Some token"] parse_step_def resume_def)
  have o: "outermost True [True] (start_array ?d)" "outermost False [False] (start_object ?d)"
    "outermost True [] (end_container (start_array ?d))" "outermost False [] (end_container (start_object ?d))"
    by (simp_all add: outermost_def start_array_def start_object_def end_container_def handle_value_def)
  show ?thesis
  proof (cases "token = begin_array \<or> token = begin_object")
    case True
    then have "leaves (token = begin_array) (parse_value [] token rest ?d)"
      using o by (auto simp: parse_value_def intro!: parse_member_leaves split: prod.split)
    then have "of_kind (token = begin_array) j" using leaves_first r assms by metis
    then show ?thesis using True t by (auto simp: left_by_def of_kind_iff split: if_splits)
  next
    case False
    then have "j = j0"
      using assms unfolding r
      by (auto simp: parse_value_def resume_Done evaluate_state_def document_def split: json_token.splits option.splits)
    then show ?thesis using False t by (simp add: left_by_def)
  qed
qed

end
