(* ===== verification/Config.thy ===== *)
theory Config
  imports Sessions Players JsonReads "HOL-Library.AList"
begin

text \<open>
  Configuration (\<open>manager/configmanager.h\<close>, \<open>manager/configmanager.cpp\<close>): the manager of the
  configuration, the default configuration, and the messages that send variables to a client. A
  file is the bytes it holds; the text is read and printed by the library modelled in \<open>JsonParser\<close>
  and \<open>JsonPrinter\<close>.
\<close>

section \<open>The configuration manager\<close>

record config_manager =
  config_path :: string
  json_config :: json
  cache_config :: "u32 \<rightharpoonup> json"

definition new_config_manager :: "string \<Rightarrow> config_manager" where
  "new_config_manager path = \<lparr>config_path = path, json_config = Json_null, cache_config = Map.empty\<rparr>"

abbreviation json_text :: "string \<Rightarrow> json" where
  "json_text s \<equiv> Json_string (ascii s)"

definition grab_keys :: "nat list" where
  "grab_keys =
    [175, 9857, 5907, 4981, 113430, 5558, 0, 2534, 6120, 52303, 129045, 45253, 64569, 92184,
     135106, 3940, 3909, 2447, 150, 7416, 266, 15, 119620, 153189, 493, 436]"

definition grab_private_exponent :: string where
  "grab_private_exponent =
    ''95776340111155337321344029627634178888626101791582245228586750697996713454019354'' @
    ''71657707757755815697617799447983776098969135643897487964729306417755551818756732'' @
    ''76597933314314211532039319149338585268573964280522669265078606031667050843028457'' @
    ''40310178306001400777670591958466653637275131498866778592148380588481''"

definition grab_modulus :: string where
  "grab_modulus =
    ''11955533126099553049462732219165481661315547661260381710307968992599540226345789'' @
    ''58908291480934141353424208072878200324174584287634965656059701639366968114855005'' @
    ''53506743979521465489801746973392901885588777462023165252483988431877411021816445'' @
    ''058706597607453280166045122971960003629860919338852061972113876035333''"

definition login_private_exponent :: string where
  "login_private_exponent =
    ''90587072701551327129007891668787349509347630408215045082807628285770049664232156'' @
    ''77675565419850541295658628998130643314650330841106735868011720673209160808841845'' @
    ''82205804790811113606564468043975607524553678626203705374610503342244481670713677'' @
    ''43407184852057833323917170323302797356352672118595769338616589092625''"

definition login_modulus :: string where
  "login_modulus =
    ''10287663727111612473233850066363964311350446478933924949039931265967477203931487'' @
    ''59041768092674750337723677078828737732917860144752221786549324422541257316227815'' @
    ''24413208523465520758537060408541610254619166907142593731337618490879831401461945'' @
    ''679478046811438574041131738117063340726565226753787565780501845348613''"

definition default_settings :: "(string \<times> string \<times> json) list" where
  "default_settings =
    [(''server'', ''name'', json_text ''OpenRS''),
     (''server'', ''url'', json_text []),
     (''server'', ''source_url'', json_text []),
     (''database'', ''mode'', json_text ''sqlite''),
     (''database'', ''filename'', json_text ''database.db''),
     (''logging'', ''level'', Json_integer 0),
     (''game'', ''starting_location'', Json_array (map (\<lambda>n. Json_integer (int n)) [3087, 3496, 0])),
     (''network'', ''ip_address'', json_text ''0.0.0.0''),
     (''network'', ''port'', Json_integer 43594),
     (''grab'', ''keys'', Json_array (map (\<lambda>n. Json_integer (int n)) grab_keys)),
     (''grab'', ''private_exponent'', json_text grab_private_exponent),
     (''grab'', ''modulus'', json_text grab_modulus),
     (''login'', ''private_exponent'', json_text login_private_exponent),
     (''login'', ''modulus'', json_text login_modulus)]"

fun json_set_all :: "(string \<times> string \<times> json) list \<Rightarrow> json \<Rightarrow> json res" where
  "json_set_all [] j = Inr j"
| "json_set_all ((a, b, v) # rest) j = bind_res (json_set a b v j) (json_set_all rest)"

text \<open>The old value is cleared first. The files written are returned with what they now hold.\<close>

definition GenerateDefaultConfig :: "(int \<Rightarrow> int \<Rightarrow> u8 list) \<Rightarrow> config_manager
    \<Rightarrow> (config_manager \<times> (string \<times> u8 list) list) res" where
  "GenerateDefaultConfig to_chars cm =
     bind_res (json_set_all default_settings (json_clear (json_config cm))) (\<lambda>j.
     bind_res (write_json to_chars 4 j) (\<lambda>text.
       Inr (cm\<lparr>json_config := j\<rparr>, [(config_path cm, text @ [10])])))"

text \<open>A file that is missing reads as an empty one. Only a \<open>parse_error\<close> is caught; the library throws
  an \<open>out_of_range\<close> of its own for a number that overflows.\<close>

definition file_text :: "(string \<Rightarrow> u8 list option) \<Rightarrow> string \<Rightarrow> u8 list" where
  "file_text files path = (case files path of None \<Rightarrow> [] | Some cs \<Rightarrow> cs)"

definition Init_config :: "(int \<Rightarrow> int \<Rightarrow> u8 list) \<Rightarrow> (string \<Rightarrow> u8 list option) \<Rightarrow> config_manager
    \<Rightarrow> (bool \<times> config_manager \<times> (string \<times> u8 list) list) res" where
  "Init_config to_chars files cm =
     (case read_json (file_text files (config_path cm)) (json_config cm) of
        Parse_error j \<Rightarrow>
          bind_res (GenerateDefaultConfig to_chars (cm\<lparr>json_config := j\<rparr>)) (\<lambda>(cm, written). Inr (True, cm, written))
      | Number_overflow j \<Rightarrow> Inl Out_of_range
      | Parsed j \<Rightarrow> Inr (True, cm\<lparr>json_config := j\<rparr>, []))"

definition InitCacheConfig :: "(string \<Rightarrow> u8 list option) \<Rightarrow> u32 \<Rightarrow> string \<Rightarrow> config_manager
    \<Rightarrow> (bool \<times> config_manager) res" where
  "InitCacheConfig files kVersion kPath cm =
     (let old = (case cache_config cm kVersion of None \<Rightarrow> Json_null | Some j \<Rightarrow> j)
      in case read_json (file_text files kPath) old of
           Parse_error j \<Rightarrow> Inr (False, cm\<lparr>cache_config := (cache_config cm)(kVersion \<mapsto> j)\<rparr>)
         | Number_overflow j \<Rightarrow> Inl Out_of_range
         | Parsed j \<Rightarrow> Inr (True, cm\<lparr>cache_config := (cache_config cm)(kVersion \<mapsto> j)\<rparr>))"

text \<open>\<open>operator[]\<close> returns a copy of the section. A reference to it is constant, and so is the access
  through that; \<open>(*ConfigManager::get())[a][b]\<close> writes to the copy. Then \<open>cache_config().at(kVersion)\<close>.\<close>

definition setting :: "string \<Rightarrow> string \<Rightarrow> config_manager \<Rightarrow> json res" where
  "setting a b cm = bind_res (json_at (json_config cm) a) (\<lambda>j. json_at j b)"

definition setting_of_copy :: "string \<Rightarrow> string \<Rightarrow> config_manager \<Rightarrow> json res" where
  "setting_of_copy a b cm = bind_res (json_at (json_config cm) a) (\<lambda>j. json_item j b)"

definition cache_config_at :: "u32 \<Rightarrow> config_manager \<Rightarrow> json res" where
  "cache_config_at kVersion cm =
     (case cache_config cm kVersion of Some j \<Rightarrow> Inr j | None \<Rightarrow> Inl Out_of_range)"

section \<open>Variables\<close>

datatype ConfigGlobal = kCombatMode | Global_823

fun global_id :: "ConfigGlobal \<Rightarrow> u16" where
  "global_id kCombatMode = 616" | "global_id Global_823 = 823"

datatype ConfigFile = kHitPoints

fun file_id :: "ConfigFile \<Rightarrow> u16" where
  "file_id kHitPoints = 7198"

datatype ClientConfig = Config_281 | kClanStatus | kAssistStatus | kFilterStatus | Config_1159
  | Config_1160 | kFriendChatStatus

fun config_id :: "ClientConfig \<Rightarrow> u16" where
  "config_id Config_281 = 281"
| "config_id kClanStatus = 1054"
| "config_id kAssistStatus = 1055"
| "config_id kFilterStatus = 1056"
| "config_id Config_1159 = 1159"
| "config_id Config_1160 = 1160"
| "config_id kFriendChatStatus = 2159"

text \<open>A buffer that is built by a sequence of writes.\<close>

definition built :: "(buffer \<Rightarrow> buffer) list \<Rightarrow> buffer" where
  "built writes = fold (\<lambda>f b. f b) writes empty_buffer"

definition SendGameBarStagesOther :: "session \<Rightarrow> session" where
  "SendGameBarStagesOther =
     Send (make_packet kConfigGameBarOther (built [put_shifted_neg_le (0 :: u8), put_data (0 :: u8)]))"

definition SendGameBarStagesPrivate :: "session \<Rightarrow> session" where
  "SendGameBarStagesPrivate = Send (make_packet kConfigGameBarPrivate (built [put_data (0 :: u8)]))"

definition SendConfig1 :: "ClientConfig \<Rightarrow> u8 \<Rightarrow> session \<Rightarrow> session" where
  "SendConfig1 kId kValue =
     Send (make_packet kConfig1 (built [put_shifted_pos_le (config_id kId), put_shifted_pos_le kValue]))"

definition SendConfig2 :: "ClientConfig \<Rightarrow> u32 \<Rightarrow> session \<Rightarrow> session" where
  "SendConfig2 kId kValue =
     Send (make_packet kConfig2 (built [put_shifted_pos_be (config_id kId), put_data_le kValue]))"

definition SendGlobalConfig1 :: "ConfigGlobal \<Rightarrow> u8 \<Rightarrow> session \<Rightarrow> session" where
  "SendGlobalConfig1 kId kValue =
     Send (make_packet kConfigGlobal1 (built [put_data (- kValue), put_shifted_pos_be (global_id kId)]))"

definition SendGlobalConfig2 :: "ConfigGlobal \<Rightarrow> u32 \<Rightarrow> session \<Rightarrow> session" where
  "SendGlobalConfig2 kId kValue =
     Send (make_packet kConfigGlobal2 (built [put_shifted_pos_be (global_id kId), put_data kValue]))"

definition SendFileConfig1 :: "ConfigFile \<Rightarrow> u8 \<Rightarrow> session \<Rightarrow> session" where
  "SendFileConfig1 kId kValue =
     Send (make_packet kConfigFile1 (built [put_shifted_pos_be (file_id kId), put_data (- kValue)]))"

definition SendFileConfig2 :: "ConfigFile \<Rightarrow> u8 \<Rightarrow> session \<Rightarrow> session" where
  "SendFileConfig2 kId kValue =
     Send (make_packet kConfigFile2 (built [put_data_vbe (ucast kValue :: u32), put_shifted_pos_be (file_id kId)]))"

text \<open>The choice between a byte and an integer. \<open>SendFileConfig\<close> takes a byte, so that its first
  case cannot be.\<close>

definition SendConfig :: "ClientConfig \<Rightarrow> u32 \<Rightarrow> session \<Rightarrow> session" where
  "SendConfig kId kValue =
     (if 255 < kValue then SendConfig2 kId kValue else SendConfig1 kId (ucast kValue))"

definition SendGlobalConfig :: "ConfigGlobal \<Rightarrow> u32 \<Rightarrow> session \<Rightarrow> session" where
  "SendGlobalConfig kId kValue =
     (if 255 < kValue then SendGlobalConfig2 kId kValue else SendGlobalConfig1 kId (ucast kValue))"

definition SendFileConfig :: "ConfigFile \<Rightarrow> u8 \<Rightarrow> session \<Rightarrow> session" where
  "SendFileConfig kId kValue =
     (if 255 < kValue then SendFileConfig2 kId kValue else SendFileConfig1 kId kValue)"

definition SendGameBarStages :: "session \<Rightarrow> session" where
  "SendGameBarStages = in_order
    [SendConfig kClanStatus 0, SendConfig kAssistStatus 0, SendConfig kFilterStatus 0,
     SendConfig kFriendChatStatus 0, SendGameBarStagesOther, SendGameBarStagesPrivate]"

section \<open>Properties\<close>

text \<open>What the server reads of its configuration: the entries must be there, with these types.\<close>

definition config_typed :: "config_manager \<Rightarrow> bool" where
  "config_typed cm \<longleftrightarrow>
     list_all (\<lambda>(a, b). \<exists>s. bind_res (setting a b cm) json_string = Inr s)
       [(''database'', ''mode''), (''database'', ''filename''),
        (''grab'', ''private_exponent''), (''grab'', ''modulus''),
        (''login'', ''private_exponent''), (''login'', ''modulus'')]
     \<and> list_all (\<lambda>(a, b). \<exists>s. bind_res (setting_of_copy a b cm) json_string = Inr s)
       [(''server'', ''name''), (''server'', ''source_url'')]
     \<and> (\<exists>ks. bind_res (setting ''grab'' ''keys'' cm) json_u32s = Inr ks)
     \<and> (\<exists>x y z rest. bind_res (setting_of_copy ''game'' ''starting_location'' cm) json_u32s = Inr (x # y # z # rest))"

definition default_config :: json where
  "default_config = (case json_set_all default_settings Json_null of Inr j \<Rightarrow> j | Inl _ \<Rightarrow> Json_null)"

lemma default_settings_written:
  "json_set_all default_settings Json_null = Inr default_config"
  "json_set_all default_settings (Json_object []) = Inr default_config"
  unfolding default_config_def by (simp_all add: default_settings_def json_ops)

lemma default_setting:
  "json_config cm = default_config \<Longrightarrow> list_all (\<lambda>(a, b, v). setting a b cm = Inr v) default_settings"
  unfolding default_config_def by (simp add: default_settings_def setting_def json_ops)

lemma setting_copied: "setting a b cm = Inr v \<Longrightarrow> setting_of_copy a b cm = Inr v"
  by (cases "json_at (json_config cm) a")
    (auto simp: setting_def setting_of_copy_def json_at_def json_item_def split: json.splits option.splits)

lemma default_typed:
  assumes "json_config cm = default_config"
  shows "config_typed cm"
proof -
  have d: "list_all (\<lambda>(a, b, v). setting a b cm = Inr v) default_settings"
    by (rule default_setting [OF assms])
  then have "list_all (\<lambda>(a, b, v). setting_of_copy a b cm = Inr v) default_settings"
    by (rule list.pred_mono_strong) (auto intro: setting_copied)
  with d show ?thesis
    unfolding config_typed_def by (simp add: default_settings_def json_string_def json_u32s_def json_u32_def)
qed

section \<open>The second start\<close>

text \<open>The server reads strings and lists of integers; they are the same in a document that has been
  written and read back.\<close>

lemma as_read_views: "json_string (as_read j) = json_string j" "json_u32s (as_read j) = json_u32s j"
proof -
  have u: "json_u32 (as_read j) = json_u32 j" for j by (cases j) (simp_all add: json_u32_def)
  have "json_numbers (map as_read js) = json_numbers js" for js by (induction js) (simp_all add: u)
  then show "json_u32s (as_read j) = json_u32s j" by (cases j) (simp_all add: json_u32s_def)
  show "json_string (as_read j) = json_string j" by (cases j) (simp_all add: json_string_def)
qed

lemma map_of_as_read: "map_of (map (\<lambda>(k, j). (k, as_read j)) kvs) key = map_option as_read (map_of kvs key)"
  by (induction kvs) auto

lemma json_at_as_read: "json_at (as_read j) key = (case json_at j key of Inl e \<Rightarrow> Inl e | Inr v \<Rightarrow> Inr (as_read v))"
  by (cases j) (simp_all add: json_at_def map_of_as_read split: option.split)

lemma json_item_as_read: "json_item (as_read j) key = (case json_item j key of Inl e \<Rightarrow> Inl e | Inr v \<Rightarrow> Inr (as_read v))"
  by (cases j) (simp_all add: json_item_def map_of_as_read split: option.split)

definition same_settings :: "config_manager \<Rightarrow> config_manager \<Rightarrow> bool" where
  "same_settings cm cm' \<longleftrightarrow> (\<forall>a b.
     bind_res (setting a b cm') json_string = bind_res (setting a b cm) json_string
     \<and> bind_res (setting a b cm') json_u32s = bind_res (setting a b cm) json_u32s
     \<and> bind_res (setting_of_copy a b cm') json_string = bind_res (setting_of_copy a b cm) json_string
     \<and> bind_res (setting_of_copy a b cm') json_u32s = bind_res (setting_of_copy a b cm) json_u32s)"

lemma same_settings_as_read:
  assumes "json_config cm' = as_read (json_config cm)"
  shows "same_settings cm cm'"
proof -
  have "setting a b cm' = (case setting a b cm of Inl e \<Rightarrow> Inl e | Inr v \<Rightarrow> Inr (as_read v))"
    "setting_of_copy a b cm' = (case setting_of_copy a b cm of Inl e \<Rightarrow> Inl e | Inr v \<Rightarrow> Inr (as_read v))" for a b
    by (cases "json_at (json_config cm) a";
        simp add: setting_def setting_of_copy_def assms json_at_as_read json_item_as_read)+
  then show ?thesis
    unfolding same_settings_def by (auto simp: as_read_views split: sum.splits)
qed

lemma same_settings_typed: "same_settings cm cm' \<Longrightarrow> config_typed cm \<Longrightarrow> config_typed cm'"
  by (simp add: config_typed_def same_settings_def)

lemma utf8_ascii_string: "list_all (\<lambda>c. (of_char c :: nat) < 128) cs \<Longrightarrow> utf8 (ascii cs)"
proof (induction cs)
  case (Cons c cs)
  have "unat (of_char c :: u8) = of_char c"
    using unat_byte [of "of_char c"] by (simp add: of_nat_of_char)
  then have "utf8 [of_char c]" using Cons.prems by (intro utf8_ascii) (simp add: word_le_nat_alt)
  then show ?case using utf8_append [of "[of_char c]" "ascii cs"] Cons by (simp add: ascii_def)
qed (simp add: ascii_def utf8.Nil)

lemma default_config_ok: "json_ok default_config" "floats_print tc default_config"
proof -
  have "list_all (\<lambda>s. list_all (\<lambda>c. (of_char c :: nat) < 128) s)
    [grab_private_exponent, grab_modulus, login_private_exponent, login_modulus]"
    by code_simp
  then have long: "utf8 (ascii grab_private_exponent)" "utf8 (ascii grab_modulus)"
    "utf8 (ascii login_private_exponent)" "utf8 (ascii login_modulus)"
    by (simp_all add: utf8_ascii_string)
  show "json_ok default_config"
    unfolding default_config_def
    by (simp add: default_settings_def json_ops long utf8_ascii_string grab_keys_def)
  show "floats_print tc default_config"
    unfolding default_config_def by (simp add: default_settings_def json_ops list_all_iff)
qed

text \<open>The text of the default configuration.\<close>

definition default_text :: "(int \<Rightarrow> int \<Rightarrow> u8 list) \<Rightarrow> u8 list" where
  "default_text to_chars = (case write_json to_chars 4 default_config of Inr out \<Rightarrow> out @ [10] | Inl _ \<Rightarrow> [])"

lemma default_text:
  "write_json tc 4 default_config = Inr out \<Longrightarrow> default_text tc = out @ [10]"
  "\<exists>out. write_json tc 4 default_config = Inr out"
  "read_json (default_text tc) j0 = Parsed (as_read default_config)"
proof -
  obtain cs where w: "write_json tc 4 default_config = Inr cs" using write_json_ok default_config_ok(1) by fastforce
  have "ends_number [10]" by (simp add: ends_number_def is_digit_def)
  then have "read_json (cs @ [10]) j0 = Parsed (as_read default_config)"
    using read_json_written [OF w default_config_ok] by simp
  with w show "write_json tc 4 default_config = Inr out \<Longrightarrow> default_text tc = out @ [10]"
    "\<exists>out. write_json tc 4 default_config = Inr out"
    "read_json (default_text tc) j0 = Parsed (as_read default_config)"
    by (simp_all add: default_text_def)
qed

lemma GenerateDefaultConfig_default:
  assumes "json_clear (json_config cm) = Json_null \<or> json_clear (json_config cm) = Json_object []"
  shows "GenerateDefaultConfig tc cm = Inr (cm\<lparr>json_config := default_config\<rparr>, [(config_path cm, default_text tc)])"
proof -
  obtain out where "write_json tc 4 default_config = Inr out" using default_text(2) by blast
  moreover have "json_set_all default_settings (json_clear (json_config cm)) = Inr default_config"
    using assms default_settings_written by auto
  ultimately show ?thesis using default_text(1) by (simp add: GenerateDefaultConfig_def)
qed

lemma Init_default:
  assumes "read_json (file_text files (config_path cm)) Json_null = Parse_error j" "json_config cm = Json_null"
    and "fst (scan_first (file_text files (config_path cm))) \<noteq> begin_array"
  shows "Init_config tc files cm
    = Inr (True, cm\<lparr>json_config := default_config\<rparr>, [(config_path cm, default_text tc)])"
proof -
  have "left_by (fst (scan_first (file_text files (config_path cm)))) Json_null j"
    using read_json_leaves assms(1) by blast
  then have "json_clear j = Json_null \<or> json_clear j = Json_object []"
    using assms(3) by (auto simp: left_by_def split: if_splits)
  then show ?thesis
    using assms(1,2) GenerateDefaultConfig_default [of "cm\<lparr>json_config := j\<rparr>" tc] by (simp add: Init_config_def)
qed

lemma Init_array:
  assumes "read_json (file_text files (config_path cm)) Json_null = Parse_error j" "json_config cm = Json_null"
    and "fst (scan_first (file_text files (config_path cm))) = begin_array"
  shows "Init_config tc files cm = Inl (Type_error ''cannot use operator[] with a string argument'')"
proof -
  have "left_by (fst (scan_first (file_text files (config_path cm)))) Json_null j"
    using read_json_leaves assms(1) by blast
  then obtain js where "j = Json_array js" using assms(3) by (auto simp: left_by_def)
  then show ?thesis
    using assms(1,2) by (simp add: Init_config_def GenerateDefaultConfig_def default_settings_def json_ops)
qed

text \<open>Property C17. A server whose configuration file is missing or is not JSON starts from the default
  configuration and writes it out: each entry is found under its two keys, and every entry the
  server reads is there with the type it is read at. The next start reads the file that was written,
  writes nothing, and finds the same settings. It is different when the broken text begins like an
  array: what the parser leaves is cleared but keeps its type, and the exception of the first
  assignment is not caught.\<close>

theorem default_config_survives:
  assumes "read_json (file_text files (config_path cm)) Json_null = Parse_error j" "json_config cm = Json_null"
  shows "case Init_config tc files cm of
      Inr (ok, cm', written) \<Rightarrow> fst (scan_first (file_text files (config_path cm))) \<noteq> begin_array \<and> ok
        \<and> list_all (\<lambda>(a, b, v). setting a b cm' = Inr v) default_settings \<and> config_typed cm'
        \<and> (\<exists>out cm''. written = [(config_path cm, out)]
            \<and> Init_config tc (files(config_path cm \<mapsto> out)) cm = Inr (True, cm'', [])
            \<and> same_settings cm' cm'' \<and> config_typed cm'')
    | Inl e \<Rightarrow> fst (scan_first (file_text files (config_path cm))) = begin_array
        \<and> e = Type_error ''cannot use operator[] with a string argument''"
proof (cases "fst (scan_first (file_text files (config_path cm))) = begin_array")
  case True
  then show ?thesis using Init_array [OF assms True] by simp
next
  case False
  let ?cm = "cm\<lparr>json_config := default_config\<rparr>" and ?cm' = "cm\<lparr>json_config := as_read default_config\<rparr>"
  have 1: "list_all (\<lambda>(a, b, v). setting a b ?cm = Inr v) default_settings" "config_typed ?cm"
    by (rule default_setting default_typed, simp)+
  have 2: "Init_config tc (files(config_path cm \<mapsto> default_text tc)) cm = Inr (True, ?cm', [])"
    by (simp add: Init_config_def file_text_def default_text(3))
  have "same_settings ?cm ?cm'" by (rule same_settings_as_read) simp
  then show ?thesis using 1 2 False Init_default [OF assms False] same_settings_typed by auto
qed

theorem default_config_survives_witness:
  "Init_config (\<lambda>_ _. []) (\<lambda>_. Some (ascii ''[1, what'')) (new_config_manager ''config.json'')
     = Inl (Type_error ''cannot use operator[] with a string argument'')
   \<and> (\<exists>cm' out cm''. Init_config (\<lambda>_ _. []) (\<lambda>_. None) (new_config_manager ''config.json'') = Inr (True, cm', [(''config.json'', out)])
     \<and> Init_config (\<lambda>_ _. []) [''config.json'' \<mapsto> out] (new_config_manager ''config.json'') = Inr (True, cm'', [])
     \<and> same_settings cm' cm'')"
proof -
  let ?cm = "new_config_manager ''config.json''"
  have f: "fst (scan_first (ascii ''[1, what'')) = begin_array" "fst (scan_first []) = end_of_input"
    by (simp_all add: scan_first_def skip_bom_def scan_token_def skip_whitespace_def is_space_def ascii_def)
  have "read_json (ascii ''[1, what'') Json_null = Parse_error (Json_array [Json_number 1])"
    by (simp add: read_json_def scan_first_def skip_bom_def ascii_def scan_token_def skip_whitespace_def is_space_def
        is_digit_def sax_parse_internal.simps parse_step_def parse_value_def evaluate_state_def start_array_def
        scan_number_def scan_number_done_def number_token_def digits_value_def handle_value_def document_def)
  moreover have "read_json [] Json_null = Parse_error Json_null"
    by (simp add: read_json_def scan_first_def skip_bom_def scan_token_def skip_whitespace_def sax_parse_internal.simps
        parse_step_def parse_value_def document_def)
  ultimately show ?thesis
    using default_config_survives [of "\<lambda>_. Some (ascii ''[1, what'')" ?cm "Json_array [Json_number 1]" "\<lambda>_ _. []"]
      default_config_survives [of "\<lambda>_. None" ?cm Json_null "\<lambda>_ _. []"] f
    by (auto simp: file_text_def new_config_manager_def split: sum.splits)
qed

end
