(* ===== verification/Interfaces.thy ===== *)
theory Interfaces
  imports Config
begin

text \<open>
  The interface manager (\<open>manager/interfacemanager.h\<close>, \<open>manager/interfacemanager.cpp\<close>): the
  messages that set up the windows of a client. The identifiers are enumerations whose codes go
  into the messages; some enumerators share a code.
\<close>

section \<open>Identifiers\<close>

datatype PaneID = Pane_Fixed | Pane_Resizable | Pane_Unknown

fun pane_id :: "PaneID \<Rightarrow> u16" where
  "pane_id Pane_Fixed = 548"
| "pane_id Pane_Resizable = 746"
| "pane_id Pane_Unknown = 752"

datatype PaneType = Pane_type_None

fun pane_type :: "PaneType \<Rightarrow> u8" where
  "pane_type Pane_type_None = 0"

datatype TabID = Tab_Overlay | Tab_9 | Tab_OverlayFixed | Tab_TimerFixed | Tab_15 | Tab_21
  | Tab_22 | Tab_23 | Tab_25 | Tab_Timer | Tab_37 | Tab_CombatStyles | Tab_TaskSystem
  | Tab_Skills | Tab_Quests | Tab_Dungeon | Tab_Inventory | Tab_Equipment | Tab_PrayerBook
  | Tab_SqueelOfFortune | Tab_120 | Tab_121 | Tab_122 | Tab_Settings | Tab_Emotes | Tab_Music
  | Tab_Notes | Tab_Logout | Tab_151 | Tab_152 | Tab_153 | Tab_155 | Tab_161
  | Tab_CombatStylesFixed | Tab_TaskSystemFixed | Tab_SkillsFixed | Tab_QuestsFixed
  | Tab_DungeonFixed | Tab_InventoryFixed | Tab_EquipmentFixed | Tab_PrayerBookFixed
  | Tab_SqueelOfFortuneFixed | Tab_FriendsListFixed | Tab_181 | Tab_182 | Tab_SettingsFixed
  | Tab_EmotesFixed | Tab_MusicFixed | Tab_NotesFixed | Tab_LogoutFixed | Tab_195 | Tab_196
  | Tab_197 | Tab_198

fun tab_id :: "TabID \<Rightarrow> u16" where
  "tab_id Tab_Overlay = 1"
| "tab_id Tab_9 = 9"
| "tab_id Tab_OverlayFixed = 11"
| "tab_id Tab_TimerFixed = 11"
| "tab_id Tab_15 = 15"
| "tab_id Tab_21 = 21"
| "tab_id Tab_22 = 22"
| "tab_id Tab_23 = 23"
| "tab_id Tab_25 = 25"
| "tab_id Tab_Timer = 26"
| "tab_id Tab_37 = 37"
| "tab_id Tab_CombatStyles = 111"
| "tab_id Tab_TaskSystem = 112"
| "tab_id Tab_Skills = 113"
| "tab_id Tab_Quests = 114"
| "tab_id Tab_Dungeon = 114"
| "tab_id Tab_Inventory = 115"
| "tab_id Tab_Equipment = 116"
| "tab_id Tab_PrayerBook = 117"
| "tab_id Tab_SqueelOfFortune = 119"
| "tab_id Tab_120 = 120"
| "tab_id Tab_121 = 121"
| "tab_id Tab_122 = 122"
| "tab_id Tab_Settings = 123"
| "tab_id Tab_Emotes = 124"
| "tab_id Tab_Music = 125"
| "tab_id Tab_Notes = 126"
| "tab_id Tab_Logout = 129"
| "tab_id Tab_151 = 151"
| "tab_id Tab_152 = 152"
| "tab_id Tab_153 = 153"
| "tab_id Tab_155 = 155"
| "tab_id Tab_161 = 161"
| "tab_id Tab_CombatStylesFixed = 171"
| "tab_id Tab_TaskSystemFixed = 172"
| "tab_id Tab_SkillsFixed = 173"
| "tab_id Tab_QuestsFixed = 174"
| "tab_id Tab_DungeonFixed = 174"
| "tab_id Tab_InventoryFixed = 175"
| "tab_id Tab_EquipmentFixed = 176"
| "tab_id Tab_PrayerBookFixed = 177"
| "tab_id Tab_SqueelOfFortuneFixed = 179"
| "tab_id Tab_FriendsListFixed = 180"
| "tab_id Tab_181 = 181"
| "tab_id Tab_182 = 182"
| "tab_id Tab_SettingsFixed = 183"
| "tab_id Tab_EmotesFixed = 184"
| "tab_id Tab_MusicFixed = 185"
| "tab_id Tab_NotesFixed = 186"
| "tab_id Tab_LogoutFixed = 189"
| "tab_id Tab_195 = 195"
| "tab_id Tab_196 = 196"
| "tab_id Tab_197 = 197"
| "tab_id Tab_198 = 198"

datatype InterfaceID = Interface_Notes | Interface_137 | Interface_167 | Interface_Logout
  | Interface_Music | Interface_Settings | Interface_PrayerBook | Interface_Skills
  | Interface_Equipment | Interface_FriendsList | Interface_Emotes | Interface_Inventory
  | Interface_745 | Interface_747 | Interface_748 | Interface_749 | Interface_750
  | Interface_751 | Interface_752 | Interface_754 | Interface_CombatStyles | Interface_Dungeon
  | Interface_1109 | Interface_1110 | Interface_SqueelOfFortune | Interface_TaskSystem
  | Interface_Quests | Interface_Timer

fun interface_id :: "InterfaceID \<Rightarrow> u16" where
  "interface_id Interface_Notes = 34"
| "interface_id Interface_137 = 137"
| "interface_id Interface_167 = 167"
| "interface_id Interface_Logout = 182"
| "interface_id Interface_Music = 187"
| "interface_id Interface_Settings = 261"
| "interface_id Interface_PrayerBook = 271"
| "interface_id Interface_Skills = 320"
| "interface_id Interface_Equipment = 387"
| "interface_id Interface_FriendsList = 550"
| "interface_id Interface_Emotes = 590"
| "interface_id Interface_Inventory = 679"
| "interface_id Interface_745 = 745"
| "interface_id Interface_747 = 747"
| "interface_id Interface_748 = 748"
| "interface_id Interface_749 = 749"
| "interface_id Interface_750 = 750"
| "interface_id Interface_751 = 751"
| "interface_id Interface_752 = 752"
| "interface_id Interface_754 = 754"
| "interface_id Interface_CombatStyles = 884"
| "interface_id Interface_Dungeon = 939"
| "interface_id Interface_1109 = 1109"
| "interface_id Interface_1110 = 1110"
| "interface_id Interface_SqueelOfFortune = 1139"
| "interface_id Interface_TaskSystem = 3002"
| "interface_id Interface_Quests = 3002"
| "interface_id Interface_Timer = 3039"

datatype ComponentID = Component_1 | Component_5 | Component_6 | Component_7 | Component_8
  | Component_9 | Component_10 | Component_12

fun component_id :: "ComponentID \<Rightarrow> u16" where
  "component_id Component_1 = 1"
| "component_id Component_5 = 5"
| "component_id Component_6 = 6"
| "component_id Component_7 = 7"
| "component_id Component_8 = 8"
| "component_id Component_9 = 9"
| "component_id Component_10 = 10"
| "component_id Component_12 = 12"

datatype EmoteID = Emote_Notes

fun emote_id :: "EmoteID \<Rightarrow> u32" where
  "emote_id Emote_Notes = 34"

section \<open>Messages\<close>

text \<open>An identifier and a component in one word.\<close>

definition joined :: "u16 \<Rightarrow> u16 \<Rightarrow> u32" where
  "joined hi lo = push_bit 16 (ucast hi) OR ucast lo"

definition SendTab :: "PaneID \<Rightarrow> TabID \<Rightarrow> InterfaceID \<Rightarrow> bool \<Rightarrow> session \<Rightarrow> session" where
  "SendTab kWindowId kTabId kInterfaceId kNoClipped =
     Send (make_packet kInterfaceTab (built
       [put_data_be (interface_id kInterfaceId),
        put_data (0 :: u32), put_data (0 :: u32),
        put_data_vbe (joined (pane_id kWindowId) (tab_id kTabId)),
        put_data (if kNoClipped then 1 else 0 :: u8),
        put_data (0 :: u32), put_data (0 :: u32)]))"

definition SendInterfaceComponentText ::
  "InterfaceID \<Rightarrow> ComponentID \<Rightarrow> cstring \<Rightarrow> session \<Rightarrow> session" where
  "SendInterfaceComponentText kInterfaceId kComponentId kText =
     Send (make_packet kInterfaceComponentText (built
       [put_string kText,
        put_data_be (joined (interface_id kInterfaceId) (component_id kComponentId))]))"

definition SendInterfaceComponentSettings ::
  "InterfaceID \<Rightarrow> ComponentID \<Rightarrow> u16 \<Rightarrow> u16 \<Rightarrow> u32 \<Rightarrow> session \<Rightarrow> session" where
  "SendInterfaceComponentSettings kInterfaceId kComponentId kFromSlot kToSlot kSettingsHash =
     Send (make_packet kInterfaceComponentSetting (built
       [put_data_vbe kSettingsHash,
        put_data_be (joined (interface_id kInterfaceId) (component_id kComponentId)),
        put_shifted_pos_be kFromSlot, put_data_le kToSlot]))"

definition SendHideInterfaceComponent ::
  "InterfaceID \<Rightarrow> ComponentID \<Rightarrow> bool \<Rightarrow> session \<Rightarrow> session" where
  "SendHideInterfaceComponent kInterfaceId kComponentId kHidden =
     Send (make_packet kInterfaceHide (built
       [put_data_vbe (joined (interface_id kInterfaceId) (component_id kComponentId)),
        put_data (if kHidden then 1 else 0 :: u8)]))"

definition SendInterfaceComponentAnimation ::
  "InterfaceID \<Rightarrow> ComponentID \<Rightarrow> EmoteID \<Rightarrow> session \<Rightarrow> session" where
  "SendInterfaceComponentAnimation kInterfaceId kComponentId kEmote =
     Send (make_packet kInterfaceComponentAnimation (built
       [put_data_vbe (emote_id kEmote),
        put_data_be (joined (interface_id kInterfaceId) (component_id kComponentId))]))"

definition SendPlayerOption :: "cstring \<Rightarrow> u8 \<Rightarrow> bool \<Rightarrow> u16 \<Rightarrow> session \<Rightarrow> session" where
  "SendPlayerOption kOption kSlot kTop kCursor =
     Send (make_packet kPlayerOption (built
       [put_shifted_pos_be kSlot, put_string kOption, put_shifted_pos_le kCursor,
        put_data (- (if kTop then 1 else 0) :: u8)]))"

definition SendWindowPane :: "PaneID \<Rightarrow> PaneType \<Rightarrow> session \<Rightarrow> session" where
  "SendWindowPane kId kType =
     Send (make_packet kInterfaceWindowPane (built
       [put_shifted_neg_be (pane_type kType), put_shifted_pos_be (pane_id kId),
        put_bytes (replicate 16 0)]))"

section \<open>Tabs\<close>

definition IsResizable :: "player \<Rightarrow> bool" where
  "IsResizable p \<longleftrightarrow> display_mode p = mode_code Resizable \<or> display_mode p = mode_code Unknown3_mode"

text \<open>\<open>settings_hash |= 2 << kSlot\<close>: the shift is on \<open>int\<close>; the slots used are 0 and 1.\<close>

definition SendUnlockInterfaceComponentOptionsSlot ::
  "InterfaceID \<Rightarrow> ComponentID \<Rightarrow> u16 \<Rightarrow> u16 \<Rightarrow> u8 list \<Rightarrow> session \<Rightarrow> session" where
  "SendUnlockInterfaceComponentOptionsSlot kInterfaceId kComponentId kFromSlot kToSlot kSlots =
     SendInterfaceComponentSettings kInterfaceId kComponentId kFromSlot kToSlot
       (fold (\<lambda>kSlot settings_hash. settings_hash OR push_bit (unat kSlot) 2) kSlots 0)"

definition SendTabFor :: "player \<Rightarrow> TabID \<Rightarrow> TabID \<Rightarrow> InterfaceID \<Rightarrow> session \<Rightarrow> session" where
  "SendTabFor p kTabIdResizable kTabIdFixed kInterfaceId =
     SendTab (if IsResizable p then Pane_Resizable else Pane_Fixed)
       (if IsResizable p then kTabIdResizable else kTabIdFixed) kInterfaceId True"

definition SendOverlay :: "player \<Rightarrow> InterfaceID \<Rightarrow> session \<Rightarrow> session" where
  "SendOverlay p kInterfaceId = SendTabFor p Tab_Overlay Tab_OverlayFixed kInterfaceId"

definition SendTabCombatStyles :: "player \<Rightarrow> session \<Rightarrow> session" where
  "SendTabCombatStyles p = in_order
    [SendTabFor p Tab_CombatStyles Tab_CombatStylesFixed Interface_CombatStyles,
     SendInterfaceComponentText Interface_CombatStyles Component_1
       (ascii (''Combat lvl: '' @ to_string (unat GetCombatLevel)))]"

definition SendTabTaskSystem :: "player \<Rightarrow> session \<Rightarrow> session" where
  "SendTabTaskSystem p = SendTabFor p Tab_TaskSystem Tab_TaskSystemFixed Interface_TaskSystem"

definition SendTabSkills :: "player \<Rightarrow> session \<Rightarrow> session" where
  "SendTabSkills p = SendTabFor p Tab_Skills Tab_SkillsFixed Interface_Skills"

definition SendTabSettings :: "player \<Rightarrow> session \<Rightarrow> session" where
  "SendTabSettings p = SendTabFor p Tab_Settings Tab_SettingsFixed Interface_Settings"

definition SendTabPrayerBook :: "player \<Rightarrow> session \<Rightarrow> session" where
  "SendTabPrayerBook p = SendTabFor p Tab_PrayerBook Tab_PrayerBookFixed Interface_PrayerBook"

definition SendTabEmotes :: "player \<Rightarrow> session \<Rightarrow> session" where
  "SendTabEmotes p = SendTabFor p Tab_Emotes Tab_EmotesFixed Interface_Emotes"

definition SendTabQuests :: "player \<Rightarrow> session \<Rightarrow> session" where
  "SendTabQuests p = SendTabFor p Tab_Quests Tab_QuestsFixed Interface_Quests"

definition SendTabDungeon :: "player \<Rightarrow> session \<Rightarrow> session" where
  "SendTabDungeon p = SendTabFor p Tab_Dungeon Tab_DungeonFixed Interface_Dungeon"

definition SendTabInventory :: "player \<Rightarrow> session \<Rightarrow> session" where
  "SendTabInventory p = SendTabFor p Tab_Inventory Tab_InventoryFixed Interface_Inventory"

definition SendTabEquipment :: "player \<Rightarrow> session \<Rightarrow> session" where
  "SendTabEquipment p = SendTabFor p Tab_Equipment Tab_EquipmentFixed Interface_Equipment"

definition SendTabSqueelOfFortune :: "player \<Rightarrow> session \<Rightarrow> session" where
  "SendTabSqueelOfFortune p = in_order
    [SendTabFor p Tab_SqueelOfFortune Tab_SqueelOfFortuneFixed Interface_SqueelOfFortune,
     SendHideInterfaceComponent Interface_SqueelOfFortune Component_8 True,
     SendHideInterfaceComponent Interface_SqueelOfFortune Component_12 True]"

definition SendTabTimer :: "player \<Rightarrow> session \<Rightarrow> session" where
  "SendTabTimer p = SendTabFor p Tab_Timer Tab_TimerFixed Interface_Timer"

definition SendUnlockAttackStyleButtons :: "session \<Rightarrow> session" where
  "SendUnlockAttackStyleButtons = in_order
    (map (\<lambda>c. SendUnlockInterfaceComponentOptionsSlot Interface_CombatStyles c (- 1) 0 [0])
      [Component_7, Component_8, Component_9, Component_10])"

definition SendUnlockEmotesBook :: "session \<Rightarrow> session" where
  "SendUnlockEmotesBook =
     SendUnlockInterfaceComponentOptionsSlot Interface_Emotes Component_8 0 118 [0, 1]"

section \<open>The interfaces of a player\<close>

abbreviation fixed_tab :: "TabID \<Rightarrow> InterfaceID \<Rightarrow> session \<Rightarrow> session" where
  "fixed_tab t i \<equiv> SendTab Pane_Fixed t i True"

abbreviation resizable_tab :: "TabID \<Rightarrow> InterfaceID \<Rightarrow> session \<Rightarrow> session" where
  "resizable_tab t i \<equiv> SendTab Pane_Resizable t i True"

definition SendFixedInterfaces :: "player \<Rightarrow> session \<Rightarrow> session" where
  "SendFixedInterfaces p = in_order
    [fixed_tab Tab_161 Interface_752, fixed_tab Tab_37 Interface_751, fixed_tab Tab_23 Interface_745,
     fixed_tab Tab_25 Interface_754, fixed_tab Tab_155 Interface_747, fixed_tab Tab_151 Interface_748,
     fixed_tab Tab_152 Interface_749, fixed_tab Tab_153 Interface_750,
     SendTab Pane_Unknown Tab_9 Interface_137 True, fixed_tab Tab_9 Interface_167,
     SendTabPrayerBook p, SendTabEquipment p, SendTabInventory p, SendTabQuests p,
     SendTabSqueelOfFortune p, fixed_tab Tab_181 Interface_1109, fixed_tab Tab_182 Interface_1110,
     fixed_tab Tab_FriendsListFixed Interface_FriendsList, fixed_tab Tab_MusicFixed Interface_Music,
     fixed_tab Tab_NotesFixed Interface_Notes, fixed_tab Tab_LogoutFixed Interface_Logout,
     SendTabSkills p, SendTabEmotes p, SendTabSettings p, SendTabTaskSystem p, SendTabCombatStyles p]"

definition SendResizableInterfaces :: "player \<Rightarrow> session \<Rightarrow> session" where
  "SendResizableInterfaces p = in_order
    [resizable_tab Tab_21 Interface_752, resizable_tab Tab_22 Interface_751,
     resizable_tab Tab_15 Interface_745, resizable_tab Tab_25 Interface_754,
     resizable_tab Tab_195 Interface_748, resizable_tab Tab_196 Interface_749,
     resizable_tab Tab_197 Interface_750, resizable_tab Tab_198 Interface_747,
     SendTab Pane_Unknown Tab_9 Interface_137 True, SendTabSqueelOfFortune p,
     SendGlobalConfig Global_823 1, SendTabCombatStyles p, SendTabTaskSystem p, SendTabSkills p,
     SendTabQuests p, SendTabInventory p, SendTabEquipment p, SendTabPrayerBook p,
     resizable_tab Tab_120 Interface_FriendsList, resizable_tab Tab_121 Interface_1109,
     resizable_tab Tab_122 Interface_1110, SendTabSettings p, SendTabEmotes p,
     resizable_tab Tab_Music Interface_Music, resizable_tab Tab_Notes Interface_Notes,
     resizable_tab Tab_Logout Interface_Logout]"

definition SendInterfaces :: "player \<Rightarrow> session \<Rightarrow> session" where
  "SendInterfaces p = in_order
    [SendWindowPane (if IsResizable p then Pane_Resizable else Pane_Fixed) Pane_type_None,
     if IsResizable p then SendResizableInterfaces p else SendFixedInterfaces p,
     SendUnlockAttackStyleButtons, SendUnlockEmotesBook, SendTabTimer p,
     SendPlayerOption (ascii ''Follow'') 2 False (- 1), SendPlayerOption (ascii ''Trade'') 4 False (- 1)]"

end
