(* ===== verification/Worlds.thy ===== *)
theory Worlds
  imports Players
begin

text \<open>
  Worlds (\<open>game/include/openrs/game/world.h\<close>, \<open>game/src/world.cpp\<close>): the players of a world are
  a \<open>std::map\<close> from an index to a shared pointer, here a list sorted by index. The indices are
  given by \<open>add_player\<close>, and are small enough that 32 bits hold them.
\<close>

datatype WorldType = Free | Members | Subscription

record 'p world =
  world_type :: WorldType
  players :: "(nat \<times> 'p) list"

definition new_world :: "'p world" where
  "new_world = \<lparr>world_type = Members, players = []\<rparr>"

definition IsMultiCombatArea :: "tile_columns \<Rightarrow> 'p world \<Rightarrow> bool" where
  "IsMultiCombatArea kTile w = False"

text \<open>\<open>std::map::insert\<close> leaves an element with the same key in place.\<close>

fun insert_new :: "nat \<Rightarrow> 'p \<Rightarrow> (nat \<times> 'p) list \<Rightarrow> (nat \<times> 'p) list" where
  "insert_new k p [] = [(k, p)]"
| "insert_new k p ((j, q) # xs) =
     (if k < j then (k, p) # (j, q) # xs
      else if k = j then (j, q) # xs
      else (j, q) # insert_new k p xs)"

text \<open>The search for an empty slot: \<open>if (kIndex.first != index++) break;\<close>.\<close>

fun find_gap :: "(nat \<times> 'p) list \<Rightarrow> nat \<Rightarrow> nat" where
  "find_gap [] index = index"
| "find_gap ((k, _) # xs) index = (if k \<noteq> index then Suc index else find_gap xs (Suc index))"

definition add_player :: "'p \<Rightarrow> 'p world \<Rightarrow> nat \<times> 'p world" where
  "add_player kPlayer w =
     (let n = length (players w);
          index = (if players w = [] \<or> fst (last (players w)) = n - 1 then n else find_gap (players w) 0)
      in (index, w\<lparr>players := insert_new index kPlayer (players w)\<rparr>))"

definition remove_player :: "nat \<Rightarrow> 'p world \<Rightarrow> 'p world" where
  "remove_player kPlayerIndex w = w\<lparr>players := filter (\<lambda>(k, _). k \<noteq> kPlayerIndex) (players w)\<rparr>"

section \<open>The map of players\<close>

definition world_ok :: "'p world \<Rightarrow> bool" where
  "world_ok w \<longleftrightarrow> sorted_wrt (<) (map fst (players w))"

definition player_at :: "'p world \<Rightarrow> nat \<Rightarrow> 'p option" where
  "player_at w = map_of (players w)"

lemma set_insert_new: "set (map fst (insert_new k p xs)) = insert k (set (map fst xs))"
  by (induction k p xs rule: insert_new.induct) auto

lemma sorted_insert_new:
  "sorted_wrt (<) (map fst xs) \<Longrightarrow> sorted_wrt (<) (map fst (insert_new k p xs))"
proof (induction k p xs rule: insert_new.induct)
  case (2 k p j q xs)
  then show ?case using set_insert_new [of k p xs] by auto
qed simp

lemma map_of_insert_new:
  assumes "sorted_wrt (<) (map fst xs)"
  shows "map_of (insert_new k p xs) = (if k \<in> dom (map_of xs) then map_of xs else (map_of xs)(k \<mapsto> p))"
proof -
  have "map_of (insert_new k p xs) = (case map_of xs k of None \<Rightarrow> (map_of xs)(k \<mapsto> p) | Some _ \<Rightarrow> map_of xs)"
    using assms
  proof (induction k p xs rule: insert_new.induct)
    case (2 k p j q xs)
    consider "k < j" | "k = j" | "j < k" by linarith
    then show ?case
    proof cases
      case 1
      then have "map_of xs k = None" using 2(2) by (auto simp: map_of_eq_None_iff)
      then show ?thesis using 1 by auto
    next
      case 3
      then show ?thesis using 2 by (auto split: option.splits)
    qed auto
  qed simp
  then show ?thesis by (auto split: option.splits)
qed

lemma map_of_remove: "map_of (filter (\<lambda>(k, _). k \<noteq> i) xs) = (map_of xs)(i := None)"
  by (induction xs) auto

lemma sorted_last_ge:
  "sorted_wrt (<) ks \<Longrightarrow> ks \<noteq> [] \<Longrightarrow> (\<And>k. k \<in> set ks \<Longrightarrow> n \<le> k) \<Longrightarrow> n + length ks - 1 \<le> last (ks :: nat list)"
proof (induction ks arbitrary: n)
  case (Cons k ks)
  show ?case
  proof (cases "ks = []")
    case False
    have "Suc n + length ks - 1 \<le> last ks"
      using Cons.prems False by (intro Cons.IH) (auto dest: bspec [of _ _ k] simp: Suc_le_eq intro: le_less_trans)
    then show ?thesis using False by simp
  qed (use Cons.prems in simp)
qed simp

text \<open>A sorted list of \<open>n\<close> indices that ends in \<open>n - 1\<close> has no gap.\<close>

lemma sorted_dense:
  "sorted_wrt (<) ks \<Longrightarrow> (\<And>k. k \<in> set ks \<Longrightarrow> n \<le> k) \<Longrightarrow> ks \<noteq> [] \<Longrightarrow> last ks = n + length ks - 1
    \<Longrightarrow> ks = [n..<n + length ks]"
proof (induction ks arbitrary: n)
  case (Cons k ks)
  show ?case
  proof (cases "ks = []")
    case True
    then show ?thesis using Cons.prems by simp
  next
    case False
    have ge: "j \<in> set ks \<Longrightarrow> Suc k \<le> j" for j using Cons.prems(1) by auto
    have "Suc k + length ks - 1 \<le> last ks"
      using Cons.prems(1) False ge by (intro sorted_last_ge) auto
    then have k: "k = n" using Cons.prems(2) [of k] Cons.prems(4) False by simp
    have "ks = [Suc n..<Suc n + length ks]"
      using Cons.prems False ge k by (intro Cons.IH) auto
    then show ?thesis using k by (simp add: upt_conv_Cons del: upt_Suc)
  qed
qed simp

definition first_free :: "'p world \<Rightarrow> nat" where
  "first_free w = length (takeWhile (\<lambda>(i, k). i = k) (enumerate 0 (map fst (players w))))"

lemma find_gap_takeWhile:
  "\<not> list_all (\<lambda>(i, k). i = k) (enumerate n (map fst xs)) \<Longrightarrow>
     find_gap xs n = Suc (n + length (takeWhile (\<lambda>(i, k). i = k) (enumerate n (map fst xs))))"
  by (induction xs n rule: find_gap.induct) auto

lemma enumerate_dense: "list_all (\<lambda>(i, k). i = k) (enumerate n ks) \<longleftrightarrow> ks = [n..<n + length ks]"
  by (induction ks arbitrary: n) (auto simp: upt_conv_Cons simp del: upt_Suc)

lemma dense_iff:
  assumes "world_ok w"
  shows "(players w = [] \<or> fst (last (players w)) = length (players w) - 1)
    \<longleftrightarrow> map fst (players w) = [0..<length (players w)]"
proof (cases "players w = []")
  case False
  let ?ks = "map fst (players w)"
  have l: "last ?ks = fst (last (players w))" using False by (simp add: last_map)
  show ?thesis
  proof
    assume "players w = [] \<or> fst (last (players w)) = length (players w) - 1"
    then show "?ks = [0..<length (players w)]"
      using sorted_dense [of ?ks 0] assms False l by (simp add: world_ok_def)
  next
    assume "?ks = [0..<length (players w)]"
    then have "last ?ks = length (players w) - 1" using False by simp
    then show "players w = [] \<or> fst (last (players w)) = length (players w) - 1" by (simp add: l)
  qed
qed simp

lemma add_player_index:
  assumes "world_ok w"
  shows "fst (add_player p w) =
    (if map fst (players w) = [0..<length (players w)] then length (players w) else Suc (first_free w))"
proof -
  have d: "list_all (\<lambda>(i, k). i = k) (enumerate 0 (map fst (players w)))
      \<longleftrightarrow> map fst (players w) = [0..<length (players w)]"
    using enumerate_dense [of 0 "map fst (players w)"] by simp
  have "find_gap (players w) 0 = Suc (first_free w)" if "map fst (players w) \<noteq> [0..<length (players w)]"
    using find_gap_takeWhile [of 0 "players w"] that unfolding d first_free_def by simp
  then show ?thesis unfolding add_player_def Let_def dense_iff [OF assms] by simp
qed

lemma add_player_at:
  assumes "world_ok w"
  shows "world_ok (snd (add_player p w))"
    and "player_at (snd (add_player p w)) =
      (if fst (add_player p w) \<in> dom (player_at w) then player_at w
       else (player_at w)(fst (add_player p w) \<mapsto> p))"
  using assms by (simp_all add: add_player_def Let_def world_ok_def player_at_def sorted_insert_new map_of_insert_new)

lemma player_at_dense:
  "map fst (players w) = [0..<length (players w)] \<Longrightarrow> i \<in> dom (player_at w) \<longleftrightarrow> i < length (players w)"
  unfolding player_at_def dom_map_of_conv_image_fst by (metis atLeast0LessThan lessThan_iff list.set_map set_upt)

lemma remove_player_at:
  "world_ok w \<Longrightarrow> world_ok (remove_player i w)" "player_at (remove_player i w) = (player_at w)(i := None)"
proof -
  show "player_at (remove_player i w) = (player_at w)(i := None)"
    by (simp add: player_at_def remove_player_def map_of_remove)
  assume "world_ok w"
  then show "world_ok (remove_player i w)"
    by (simp add: world_ok_def remove_player_def sorted_wrt_map sorted_wrt_filter)
qed

text \<open>Property C16. In a world without gaps a new player gets the next index. In one with a gap it
  gets the index after the first free one: when that is taken, the world keeps the player it
  has there, the new player is lost, and its index is the other player's. Adding and removing
  keep the indices distinct and in order.\<close>

theorem add_player_spec:
  assumes "world_ok w"
  shows "world_ok (snd (add_player p w)) \<and> world_ok (remove_player i w)
    \<and> (if map fst (players w) = [0..<length (players w)]
       then fst (add_player p w) = length (players w)
          \<and> player_at (snd (add_player p w)) = (player_at w)(length (players w) \<mapsto> p)
       else fst (add_player p w) = Suc (first_free w)
          \<and> player_at (snd (add_player p w)) =
              (if Suc (first_free w) \<in> dom (player_at w) then player_at w
               else (player_at w)(Suc (first_free w) \<mapsto> p)))"
  using add_player_at [OF assms, of p] add_player_index [OF assms, of p] remove_player_at(1) [OF assms, of i]
    player_at_dense [of w "length (players w)"]
  by auto

theorem add_player_spec_witness:
  "fst (add_player ''new'' \<lparr>world_type = Members, players = [(1, ''old'')]\<rparr>) = 1
    \<and> player_at (snd (add_player ''new'' \<lparr>world_type = Members, players = [(1, ''old'')]\<rparr>)) 1 = Some ''old''"
  using add_player_spec [of "\<lparr>world_type = Members, players = [(1, ''old'')]\<rparr>" "''new''"]
  by (simp add: world_ok_def first_free_def player_at_def)

text \<open>Property C34. When a player leaves a full world of at least three and it was not one of the last
  two, the next one to enter is not in it: the world is as it was without the newcomer, who is
  given the index of the player after the one that left.\<close>

theorem next_player_lost:
  assumes "map fst (players w) = [0..<length (players w)]" "Suc i < length (players w)"
  shows "fst (add_player p (remove_player i w)) = Suc i
    \<and> player_at (snd (add_player p (remove_player i w))) = (player_at w)(i := None)"
proof -
  let ?w = "remove_player i w" and ?n = "length (players w)"
  have ok: "world_ok w" by (simp add: world_ok_def assms(1))
  have ks: "map fst (players ?w) = filter (\<lambda>k. k \<noteq> i) [0..<?n]"
    unfolding remove_player_def assms(1) [symmetric] filter_map by (simp add: comp_def split_def)
  have "[0..<?n] = [0..<i] @ i # [Suc i..<?n]"
    using assms(2) by (metis Suc_lessD le0 less_imp_add_positive upt_add_eq_append add_0 upt_conv_Cons zero_less_Suc)
  then have ks: "map fst (players ?w) = [0..<i] @ [Suc i..<?n]"
    using ks by (simp add: filter_id_conv)
  have "map fst (players ?w) \<noteq> [0..<length (players ?w)]"
  proof
    assume "map fst (players ?w) = [0..<length (players ?w)]"
    then have "(map fst (players ?w)) ! i = i" using ks assms(2) by (metis add.commute add_0 diff_zero length_append length_upt nth_upt length_map less_add_same_cancel1 zero_less_diff)
    moreover have "(map fst (players ?w)) ! i = Suc i" using ks assms(2) by (simp add: nth_append)
    ultimately show False by simp
  qed
  moreover have "first_free ?w = i"
  proof -
    have "enumerate 0 ([0..<i] @ Suc i # [Suc (Suc i)..<?n])
        = enumerate 0 [0..<i] @ (i, Suc i) # enumerate (Suc i) [Suc (Suc i)..<?n]"
      by (simp add: enumerate_append_eq)
    moreover have "list_all (\<lambda>(j, k). j = k) (enumerate 0 [0..<i])" by (simp add: enumerate_dense)
    then have "takeWhile (\<lambda>(j, k). j = k) (enumerate 0 [0..<i] @ (i, Suc i) # xs) = enumerate 0 [0..<i]" for xs
      by (simp add: takeWhile_append2 list_all_iff)
    moreover have "[Suc i..<?n] = Suc i # [Suc (Suc i)..<?n]" using assms(2) by (simp add: upt_conv_Cons)
    ultimately show ?thesis unfolding first_free_def ks by simp
  qed
  moreover have "Suc i \<in> dom (player_at ?w)"
    using player_at_dense [OF assms(1), of "Suc i"] assms(2) by (auto simp: remove_player_at)
  ultimately show ?thesis
    using add_player_index [OF remove_player_at(1) [OF ok]] add_player_at(2) [OF remove_player_at(1) [OF ok]]
    by (simp add: remove_player_at(2))
qed

theorem next_player_lost_witness:
  "player_at (snd (add_player 9 (remove_player 0 (\<lparr>world_type = Members, players = [(0, 5), (1, 6)]\<rparr> :: nat world)))) 1 = Some 6"
  using next_player_lost [of "\<lparr>world_type = Members, players = [(0, 5), (1, 6)]\<rparr>" 0 "9::nat"]
  by (simp add: player_at_def numeral_2_eq_2)

end
