(* ===== verification/FileStream.thy ===== *)
theory FileStream
  imports Prelude
begin

text \<open>
  The \<open>std::ifstream\<close> operations the cache uses, with the helpers of
  \<open>common/include/openrs/common/ifstream.h\<close>. A stream holds the content of its file, the get
  position, and the fail and bad bits; the standard's rules for a stream that has failed
  (\<open>seekg\<close> does nothing, \<open>read\<close> extracts nothing, \<open>tellg\<close> is -1) are written out.
\<close>

record stream =
  content :: "u8 list"
  gpos :: nat
  failed :: bool
  bad :: bool

definition stream_fail :: "stream \<Rightarrow> bool" where
  "stream_fail s \<longleftrightarrow> failed s \<or> bad s"

definition stream_clear :: "stream \<Rightarrow> stream" where
  "stream_clear s = s\<lparr>failed := False, bad := False\<rparr>"

definition seekg :: "nat \<Rightarrow> stream \<Rightarrow> stream" where
  "seekg off s = (if stream_fail s then s else s\<lparr>gpos := off\<rparr>)"

text \<open>\<open>read(p, n)\<close>: the bytes extracted (\<open>gcount\<close> is their number) and the stream; a short
  read sets the fail bit.\<close>

definition stream_read :: "nat \<Rightarrow> stream \<Rightarrow> u8 list \<times> stream" where
  "stream_read n s =
     (if stream_fail s then ([], s\<lparr>failed := True\<rparr>)
      else let got = take n (drop (gpos s) (content s))
           in (got, s\<lparr>gpos := gpos s + length got, failed := length got < n\<rparr>))"

text \<open>On a failed stream both calls of \<open>tellg\<close> return -1 and the difference is 0; otherwise
  the last \<open>seekg\<close> restores the position.\<close>

definition GetStreamSize :: "stream \<Rightarrow> nat" where
  "GetStreamSize s = (if stream_fail s then 0 else length (content s))"

definition ReadValue :: "nat \<Rightarrow> stream \<Rightarrow> u8 list option \<times> stream" where
  "ReadValue n s =
     (case stream_read n s of (got, s') \<Rightarrow> (if length got = n then Some got else None, s'))"

text \<open>\<open>ReadValueBE\<close> and \<open>ReadValueLE\<close>: one-byte types are refused after the read.\<close>

definition ReadValueBE :: "'a::len itself \<Rightarrow> stream \<Rightarrow> 'a word option \<times> stream" where
  "ReadValueBE _ s =
     (case ReadValue (LENGTH('a) div 8) s of
        (None, s') \<Rightarrow> (None, s')
      | (Some bs, s') \<Rightarrow>
          (if LENGTH('a) \<in> {16, 32, 64} then Some (betoh (of_le bs)) else None, s'))"

definition ReadValueLE :: "'a::len itself \<Rightarrow> stream \<Rightarrow> 'a word option \<times> stream" where
  "ReadValueLE _ s =
     (case ReadValue (LENGTH('a) div 8) s of
        (None, s') \<Rightarrow> (None, s')
      | (Some bs, s') \<Rightarrow> (if LENGTH('a) \<in> {16, 32, 64} then Some (of_le bs) else None, s'))"

section \<open>Reading inside the file\<close>

abbreviation good_stream :: "stream \<Rightarrow> bool" where
  "good_stream s \<equiv> \<not> failed s \<and> \<not> bad s"

definition ahead :: "stream \<Rightarrow> u8 list" where
  "ahead s = drop (gpos s) (content s)"

lemma content_read [simp]: "content (snd (stream_read n s)) = content s"
  by (simp add: stream_read_def Let_def)

lemma stream_clear_sel [simp]:
  "content (stream_clear s) = content s" "good_stream (stream_clear s)"
  by (simp_all add: stream_clear_def)

lemma seekg_good: "good_stream s \<Longrightarrow> seekg off s = s\<lparr>gpos := off\<rparr>"
  by (simp add: seekg_def stream_fail_def)

lemma read_ahead:
  assumes "good_stream s" "n \<le> length (ahead s)"
  shows "stream_read n s = (take n (ahead s), s\<lparr>gpos := gpos s + n\<rparr>)"
  using assms by (cases s) (auto simp: stream_read_def stream_fail_def ahead_def Let_def)

lemma ReadValue_ahead:
  assumes "good_stream s" "n \<le> length (ahead s)"
  shows "ReadValue n s = (Some (take n (ahead s)), s\<lparr>gpos := gpos s + n\<rparr>)"
  using read_ahead [OF assms] assms(2) by (simp add: ReadValue_def)

lemma ahead_advance: "ahead (s\<lparr>gpos := gpos s + n\<rparr>) = drop n (ahead s)"
  by (simp add: ahead_def add.commute)

lemma ReadValueBE_ahead:
  assumes "good_stream s" "ahead s = be_bytes w @ rest" "LENGTH('a) \<in> {16, 32, 64}"
  shows "ReadValueBE TYPE('a) s = (Some (w :: 'a::len word), s\<lparr>gpos := gpos s + LENGTH('a) div 8\<rparr>)"
proof -
  have d: "8 dvd LENGTH('a)" using assms(3) by auto
  have n: "LENGTH('a) div 8 \<le> length (ahead s)" using assms(2) by simp
  have "take (LENGTH('a) div 8) (ahead s) = be_bytes w" using assms(2) by simp
  moreover have "betoh (of_le (be_bytes w)) = w"
    using d by (simp add: betoh_of_le dvd_mult_div_cancel)
  ultimately show ?thesis
    using ReadValue_ahead [OF assms(1) n] assms(3) by (simp add: ReadValueBE_def)
qed

text \<open>A failed stream stays failed, and fails every read of at least one byte.\<close>

lemma read_failed: "stream_fail s \<Longrightarrow> 0 < n \<Longrightarrow> ReadValue n s = (None, s\<lparr>failed := True\<rparr>)"
  by (simp add: ReadValue_def stream_read_def)

end
