(* ===== verification/Archive.thy ===== *)
theory Archive
  imports Buffer
begin

text \<open>
  \<open>openrs::cache::Archive\<close> (\<open>cache/src/archive.cpp\<close>): the container around an archive's bytes.
  The decompressor of the bundled CryptoPP is a parameter \<open>gunzip\<close>. The errors are thrown as
  pointers (\<open>throw new\<close>) except the one for an unknown compression.
\<close>

datatype compression = NONE | BZIP2 | GZIP

text \<open>\<open>static_cast<Compression>\<close> of a byte: other values stay outside the enumeration.\<close>

definition compression_of :: "u8 \<Rightarrow> compression option" where
  "compression_of b = (if b = 0 then Some NONE else if b = 1 then Some BZIP2
     else if b = 2 then Some GZIP else None)"

definition kMaxArchiveLength :: u32 where
  "kMaxArchiveLength = 0x01000000"

definition invalid_archive :: fault where
  "invalid_archive = Thrown_pointer ''Invalid cache archive data.''"

text \<open>The constructor; the value is \<open>data_\<close>. The compressed length was compared with the bytes
  after the 5-byte header, but the GZIP branch reads from the 9th byte: the source runs past
  the vector when fewer bytes are left.\<close>

definition archive :: "(u8 list \<Rightarrow> u8 list res) \<Rightarrow> buffer \<Rightarrow> buffer res" where
  "archive gunzip data =
     (if buf_size data < 5 then Inl invalid_archive
      else
        let kCompressionHeader = compression_of (bytes data ! 0); data = seek Seek_set 1 data
        in if_get_u32 data (Inl invalid_archive) (\<lambda>p data.
          let kCompressedLength = betoh p
          in if kCompressedLength > kMaxArchiveLength then Inl invalid_archive
             else if unat kCompressedLength > size_sub (buf_size data) (position data)
             then Inl invalid_archive
             else (case kCompressionHeader of
                 Some NONE \<Rightarrow> Inr (buf_of (unread data))
               | Some GZIP \<Rightarrow>
                   if_get_u32 data (Inl invalid_archive) (\<lambda>q data.
                     if betoh q > kMaxArchiveLength then Inl invalid_archive
                     else if position data + unat kCompressedLength > buf_size data
                     then Inl (Undefined ''compressed data past the end of the buffer'')
                     else map_sum id buf_of (gunzip (take (unat kCompressedLength) (unread data))))
               | _ \<Rightarrow> Inl (Thrown_pointer ''Invalid or unsupported cache archive compression.''))))"

lemma buf_of_sel [simp]: "bytes (buf_of bs) = bs" "position (buf_of bs) = 0"
  by (simp_all add: buf_of_def)

lemma unread_buf_of [simp]: "unread (buf_of bs) = bs"
  by (simp add: unread_def)

lemma buf_ok_buf_of [simp]: "buf_ok (buf_of bs) \<longleftrightarrow> length bs + 64 < size_max"
  by (simp add: buf_ok_def)

text \<open>The archive format: one byte of compression, the length of the payload, and for
  compressed archives the length of the data.\<close>

definition stored_archive :: "u8 list \<Rightarrow> u8 list \<Rightarrow> u8 list" where
  "stored_archive payload trailer = 0 # be_bytes (of_nat (length payload) :: u32) @ payload @ trailer"

definition gzip_archive :: "u32 \<Rightarrow> u8 list \<Rightarrow> u8 list \<Rightarrow> u8 list" where
  "gzip_archive len payload trailer =
     2 # be_bytes (of_nat (length payload) :: u32) @ be_bytes len @ payload @ trailer"

lemma seek_set_1: "position b = 0 \<Longrightarrow> seek Seek_set 1 b = b\<lparr>position := position b + 1\<rparr>"
  by simp

lemma archive_unread:
  assumes "length bs + 64 < size_max" "bs = c # be_bytes n @ rest"
  shows "archive gunzip (buf_of bs) =
    (if n > kMaxArchiveLength \<or> unat n > length rest then Inl invalid_archive
     else case compression_of c of
         Some NONE \<Rightarrow> Inr (buf_of rest)
       | Some GZIP \<Rightarrow>
           if length rest < 4 \<or> of_be (take 4 rest) > kMaxArchiveLength then Inl invalid_archive
           else if length rest < 4 + unat n
           then Inl (Undefined ''compressed data past the end of the buffer'')
           else map_sum id buf_of (gunzip (take (unat n) (drop 4 rest)))
       | _ \<Rightarrow> Inl (Thrown_pointer ''Invalid or unsupported cache archive compression.''))"
proof -
  let ?b = "(buf_of bs)\<lparr>position := 1\<rparr>" and ?c = "(buf_of bs)\<lparr>position := 5\<rparr>"
  have ok: "buf_ok ?b" "buf_ok ?c" using assms by (simp_all add: buf_ok_def)
  have u: "unread ?b = be_bytes n @ rest" "unread ?c = rest"
    using assms(2) by (simp_all add: unread_def)
  have l: "length bs = 5 + length rest" using assms(2) by simp
  have b: "betoh (of_le (be_bytes n)) = n" by (simp add: betoh_of_le)
  have "size_sub (length bs) 5 = length rest"
    using l assms(1) by (simp add: size_sub_le)
  moreover have "5 + (4 + unat n) \<le> length bs \<longleftrightarrow> 4 + unat n \<le> length rest" using l by simp
  moreover have "betoh (of_le (take 4 rest)) = (of_be (take 4 rest) :: u32)" if "4 \<le> length rest"
    using that by (simp add: betoh_of_le)
  moreover have "unread (?c\<lparr>position := position ?c + 4\<rparr>) = drop 4 rest"
    using u(2) unread_advance [of ?c 4] by simp
  ultimately show ?thesis
    using ok u b l assms(2)
    by (auto simp: archive_def Let_def if_get_u32_def if_get_unread not_less not_le
        split: option.split compression.split)
qed

lemma compression_of_simps [simp]:
  "compression_of 0 = Some NONE" "compression_of 1 = Some BZIP2" "compression_of 2 = Some GZIP"
  by (simp_all add: compression_of_def)

lemma small_payload:
  assumes "length payload \<le> unat kMaxArchiveLength"
  shows "unat (of_nat (length payload) :: u32) = length payload"
    "\<not> (of_nat (length payload) :: u32) > kMaxArchiveLength"
proof -
  have "length payload < 2 ^ 32" using assms by (simp add: kMaxArchiveLength_def)
  then show u: "unat (of_nat (length payload) :: u32) = length payload"
    by (simp add: unat_of_nat)
  then show "\<not> (of_nat (length payload) :: u32) > kMaxArchiveLength"
    using assms by (simp add: word_less_nat_alt)
qed

text \<open>Property C37. What the constructor gives for each compression, when the lengths are in bounds. A
  stored archive gives everything after its header, not only the payload: the trailer (the archive's
  version) stays in. A compressed one is accepted if the decompressor accepts its payload, which is
  cut out exactly, without the trailer, and gives what is unpacked; an error of the decompressor is
  passed on. Any other compression, BZIP2 too, is refused.\<close>

theorem archive_accepts:
  assumes "length payload \<le> unat kMaxArchiveLength" "len \<le> kMaxArchiveLength"
    and "length payload + length trailer + 73 < size_max"
  shows "archive gunzip (buf_of (stored_archive payload trailer)) = Inr (buf_of (payload @ trailer))
    \<and> (\<forall>unpacked. gunzip payload = Inr unpacked \<longrightarrow>
         archive gunzip (buf_of (gzip_archive len payload trailer)) = Inr (buf_of unpacked))
    \<and> (\<forall>e. gunzip payload = Inl e \<longrightarrow>
         archive gunzip (buf_of (gzip_archive len payload trailer)) = Inl e)
    \<and> (\<forall>c. c \<notin> {0, 2} \<longrightarrow>
         archive gunzip (buf_of (c # be_bytes (of_nat (length payload) :: u32) @ payload @ trailer))
           = Inl (Thrown_pointer ''Invalid or unsupported cache archive compression.''))"
proof -
  have l: "of_be (take 4 (be_bytes len @ payload @ trailer)) = len"
    "drop 4 (be_bytes len @ payload @ trailer) = payload @ trailer"
    by simp_all
  have "archive gunzip (buf_of (stored_archive payload trailer)) = Inr (buf_of (payload @ trailer))"
    using assms small_payload [OF assms(1)]
    by (subst archive_unread [where c = 0 and n = "of_nat (length payload)" and rest = "payload @ trailer"])
      (auto simp: stored_archive_def)
  moreover have "archive gunzip (buf_of (gzip_archive len payload trailer)) = map_sum id buf_of (gunzip payload)"
    using assms small_payload [OF assms(1)] l
    by (subst archive_unread [where c = 2 and n = "of_nat (length payload)"
          and rest = "be_bytes len @ payload @ trailer"])
      (auto simp: gzip_archive_def not_less)
  moreover have "archive gunzip (buf_of (c # be_bytes (of_nat (length payload) :: u32) @ payload @ trailer))
      = Inl (Thrown_pointer ''Invalid or unsupported cache archive compression.'')" if "c \<notin> {0, 2}" for c
    using assms small_payload [OF assms(1)] that
    by (subst archive_unread [where c = c and n = "of_nat (length payload)" and rest = "payload @ trailer"])
      (auto simp: compression_of_def)
  ultimately show ?thesis by simp
qed

theorem archive_accepts_witness:
  "archive Inr (buf_of (stored_archive [7, 8] [0, 1])) = Inr (buf_of [7, 8, 0, 1])
   \<and> archive Inr (buf_of (gzip_archive 2 [7, 8] [0, 1])) = Inr (buf_of [7, 8])
   \<and> archive Inr (buf_of (1 # be_bytes (2 :: u32) @ [7, 8]))
      = Inl (Thrown_pointer ''Invalid or unsupported cache archive compression.'')"
  using archive_accepts [where payload = "[7, 8]" and len = 2 and trailer = "[0, 1]" and gunzip = Inr]
    archive_accepts [where payload = "[7, 8]" and len = 2 and trailer = "[]" and gunzip = Inr]
  by (simp add: kMaxArchiveLength_def size_max_def)

text \<open>Property C39. A compressed archive that announces more bytes than the payload it has, but no
  more than four, passes the length check and makes the decompressor read past the end of the
  vector.\<close>

theorem archive_gzip_overread:
  assumes "length rest < 4 + unat n" "unat n \<le> length rest" "4 \<le> length rest"
    and "n \<le> kMaxArchiveLength" "of_be (take 4 rest) \<le> kMaxArchiveLength"
    and "length rest + 69 < size_max"
  shows "archive gunzip (buf_of (2 # be_bytes n @ rest))
    = Inl (Undefined ''compressed data past the end of the buffer'')"
  using assms by (subst archive_unread [where c = 2 and n = n and rest = rest]) auto

theorem archive_gzip_overread_witness:
  "archive Inr (buf_of (2 # be_bytes (4 :: u32) @ [0, 0, 0, 9]))
    = Inl (Undefined ''compressed data past the end of the buffer'')"
  using archive_gzip_overread [where n = 4 and rest = "[0, 0, 0, 9]" and gunzip = Inr]
  by (simp add: kMaxArchiveLength_def size_max_def of_be_def)

end
