(* ===== verification/RefTable.thy ===== *)
theory RefTable
  imports Buffer
begin

text \<open>
  \<open>openrs::cache::ReferenceTable\<close> and \<open>ArchiveReference\<close> (\<open>cache/src/referencetable.cpp\<close>,
  \<open>archivereference.h\<close>): the directory of an index, decoded from the bytes of an archive of the
  main index.
\<close>

section \<open>The data\<close>

text \<open>The constructor of a reference leaves the digest uninitialised: \<open>None\<close>.\<close>

record archive_reference =
  name_hash :: u32
  crc :: u32
  whirlpool :: "u8 list option"
  revision :: u32

definition new_reference :: archive_reference where
  "new_reference = \<lparr>name_hash = 0, crc = 0, whirlpool = None, revision = 0\<rparr>"

record reference_table =
  protocol :: u8
  table_revision :: u32
  flags :: u8
  archive_references :: "archive_reference list"

definition empty_table :: reference_table where
  "empty_table = \<lparr>protocol = 0, table_revision = 0, flags = 0, archive_references = []\<rparr>"

definition kFlagIdentifiers :: u8 where "kFlagIdentifiers = 1"
definition kFlagWhirlpool :: u8 where "kFlagWhirlpool = 2"

definition is_named :: "reference_table \<Rightarrow> bool" where
  "is_named t \<longleftrightarrow> flags t AND kFlagIdentifiers \<noteq> 0"

definition is_whirlpooled :: "reference_table \<Rightarrow> bool" where
  "is_whirlpooled t \<longleftrightarrow> flags t AND kFlagWhirlpool \<noteq> 0"

definition table_error :: fault where
  "table_error = Runtime_error ''Failed to read reference table data.''"

section \<open>Decoding\<close>

definition ReadBigSmart :: "buffer \<Rightarrow> (int \<times> buffer) res" where
  "ReadBigSmart data =
     (if position data < buf_size data
      then let kFlag = NOT (bytes data ! position data)
        in if sint kFlag \<le> - 1
           then if_get_u16 data (Inl table_error) (\<lambda>v data.
                  Inr (if betoh v = 32767 then - 1 else uint (betoh v), data))
           else if_get_u32 data (Inl table_error) (\<lambda>v data.
                  Inr (uint (betoh v AND 0x7FFFFFFF), data))
      else Inl Out_of_range)"

text \<open>The numbers of the table: big smarts from protocol 7 on, 16-bit before.\<close>

definition read_number :: "u8 \<Rightarrow> buffer \<Rightarrow> (int \<times> buffer) res" where
  "read_number proto data =
     (if proto \<ge> 7 then ReadBigSmart data
      else if_get_u16 data (Inl table_error) (\<lambda>v data. Inr (uint (betoh v), data)))"

text \<open>\<open>ids.resize(count)\<close> with a negative count asks for more than \<open>max_size()\<close>.\<close>

definition read_count :: "u8 \<Rightarrow> buffer \<Rightarrow> (nat \<times> buffer) res" where
  "read_count proto data =
     bind_res (read_number proto data) (\<lambda>(count, data).
       if count < 0 then Inl Length_error else Inr (nat count, data))"

fun read_ids :: "u8 \<Rightarrow> nat \<Rightarrow> u32 \<Rightarrow> u32 \<Rightarrow> buffer \<Rightarrow> (u32 list \<times> u32 \<times> buffer) res" where
  "read_ids proto 0 last_archive_id largest_archive_id data = Inr ([], largest_archive_id, data)"
| "read_ids proto (Suc n) last_archive_id largest_archive_id data =
     bind_res (read_number proto data) (\<lambda>(delta, data).
       let last_archive_id = last_archive_id + of_int delta;
           largest_archive_id =
             (if last_archive_id > largest_archive_id then last_archive_id else largest_archive_id)
       in bind_res (read_ids proto n last_archive_id largest_archive_id data)
            (\<lambda>(ids, largest, data). Inr (last_archive_id # ids, largest, data)))"

text \<open>\<open>archive_references_[kId].set(...)\<close>\<close>

definition set_reference ::
  "u32 \<Rightarrow> (archive_reference \<Rightarrow> archive_reference) \<Rightarrow> archive_reference list \<Rightarrow> archive_reference list res" where
  "set_reference kId f refs =
     (if unat kId < length refs then Inr (refs[unat kId := f (refs ! unat kId)])
      else Inl (Undefined ''archive reference out of bounds''))"

text \<open>The loops of \<open>BuildArchiveReferences\<close>. The one over the digests does not advance the
  position.\<close>

fun read_each ::
  "(u32 \<Rightarrow> archive_reference \<Rightarrow> archive_reference) \<Rightarrow> u32 list
     \<Rightarrow> archive_reference list \<times> buffer \<Rightarrow> (archive_reference list \<times> buffer) res" where
  "read_each set_it [] s = Inr s"
| "read_each set_it (kId # kIds) (refs, data) =
     if_get_u32 data (Inl table_error) (\<lambda>v data.
       bind_res (set_reference kId (set_it (betoh v)) refs) (\<lambda>refs.
         read_each set_it kIds (refs, data)))"

fun read_digests ::
  "u32 list \<Rightarrow> archive_reference list \<times> buffer \<Rightarrow> (archive_reference list \<times> buffer) res" where
  "read_digests [] s = Inr s"
| "read_digests (kId # kIds) (refs, data) =
     (if size_add (position data) 64 > buf_size data then Inl table_error
      else bind_res (set_reference kId
             (whirlpool_update (\<lambda>_. Some (take 64 (drop (position data) (bytes data))))) refs)
             (\<lambda>refs. read_digests kIds (refs, data)))"

definition set_name_hash :: "u32 \<Rightarrow> archive_reference \<Rightarrow> archive_reference" where
  "set_name_hash v r = r\<lparr>name_hash := v\<rparr>"

definition set_crc :: "u32 \<Rightarrow> archive_reference \<Rightarrow> archive_reference" where
  "set_crc v r = r\<lparr>crc := v\<rparr>"

definition set_revision :: "u32 \<Rightarrow> archive_reference \<Rightarrow> archive_reference" where
  "set_revision v r = r\<lparr>revision := v\<rparr>"

definition BuildArchiveReferences ::
  "u32 \<Rightarrow> u32 list \<Rightarrow> reference_table \<Rightarrow> buffer \<Rightarrow> reference_table res" where
  "BuildArchiveReferences kLargestArchiveId kIds t data =
     (let refs = replicate (unat (kLargestArchiveId + 1)) new_reference
      in if refs = [] then Inr (t\<lparr>archive_references := refs\<rparr>)
         else
           bind_res (if is_named t then read_each set_name_hash kIds (refs, data) else Inr (refs, data)) (\<lambda>s.
           bind_res (if is_whirlpooled t then read_digests kIds s else Inr s) (\<lambda>s.
           bind_res (read_each set_crc kIds s) (\<lambda>s.
           bind_res (read_each set_revision kIds s) (\<lambda>(refs, data).
             Inr (t\<lparr>archive_references := refs\<rparr>))))))"

text \<open>The constructor. For protocol 5 \<open>revision_ptr\<close> is still null when it is dereferenced.\<close>

definition reference_table_of :: "buffer \<Rightarrow> reference_table res" where
  "reference_table_of data =
     if_get_u8 data (Inl (Runtime_error ''Failed to read reference table protocol.'')) (\<lambda>proto data.
       if proto < 5 \<or> proto > 7 then Inl (Runtime_error ''Cache data is not supported.'')
       else if proto < 6 then Inl (Undefined ''null pointer dereference'')
       else if_get_u32 data (Inl (Runtime_error ''Failed to read reference table revision.'')) (\<lambda>rev data.
         if_get_u8 data (Inl (Runtime_error ''Failed to read reference table flags.'')) (\<lambda>fl data.
           let t = \<lparr>protocol = proto, table_revision = betoh rev, flags = fl, archive_references = []\<rparr>
           in bind_res (read_count proto data) (\<lambda>(n, data).
              bind_res (read_ids proto n 0 0 data) (\<lambda>(ids, largest, data).
                BuildArchiveReferences largest ids t data)))))"

section \<open>Decoding never leaves the table\<close>

lemma defined_read_number: "defined (read_number proto data)"
  by (auto simp: read_number_def ReadBigSmart_def if_get_u16_def if_get_u32_def table_error_def
      Let_def intro!: defined_if_get)

lemma defined_read_ids: "defined (read_ids proto n l g data)"
  by (induction n arbitrary: l g data)
    (auto simp: Let_def intro!: defined_bind defined_read_number)

lemma read_ids_bound:
  "read_ids proto n l g data = Inr (ids, g', data') \<Longrightarrow> g \<le> g' \<and> (\<forall>k \<in> set ids. k \<le> g')"
proof (induction n arbitrary: l g data ids data')
  case (Suc n)
  from Suc.prems obtain d data1 ids1 where *: "ids = (l + of_int d) # ids1"
    "read_ids proto n (l + of_int d) (if l + of_int d > g then l + of_int d else g) data1 = Inr (ids1, g', data')"
    by (auto simp: bind_res_Inr_iff Let_def)
  from Suc.IH [OF *(2)] show ?case using *(1) by (auto split: if_splits)
qed simp

lemma set_reference_Inr:
  "unat k < length refs \<Longrightarrow> set_reference k f refs = Inr (refs[unat k := f (refs ! unat k)])"
  by (simp add: set_reference_def)

lemma defined_read_each:
  "\<forall>k \<in> set ids. unat k < length (fst s) \<Longrightarrow>
     defined (read_each f ids s) \<and> (\<forall>s'. read_each f ids s = Inr s' \<longrightarrow> length (fst s') = length (fst s))"
proof (induction f ids s rule: read_each.induct)
  case (2 f k ks refs data)
  have k: "unat k < length refs" using "2.prems" by simp
  show ?case
  proof (cases "get_data 4 data")
    case (Inl e)
    then show ?thesis by (auto simp: if_get_u32_def if_get_def get_data_def split: if_splits)
  next
    case (Inr r)
    show ?thesis
    proof (cases r)
      case None
      with Inr show ?thesis by (simp add: if_get_u32_def if_get_def table_error_def)
    next
      case (Some p)
      obtain bs d where p: "p = (bs, d)" by fastforce
      let ?refs = "refs[unat k := f (betoh (of_le bs)) (refs ! unat k)]"
      have "read_each f (k # ks) (refs, data) = read_each f ks (?refs, d)"
        using Inr Some p k by (simp add: if_get_u32_def if_get_def set_reference_Inr)
      moreover have "\<forall>j \<in> set ks. unat j < length (fst (?refs, d))" using "2.prems" by simp
      ultimately show ?thesis
        using "2.IH" [of _ ?refs d] k by (simp add: set_reference_Inr)
    qed
  qed
qed simp

lemma defined_read_digests:
  "\<forall>k \<in> set ids. unat k < length (fst s) \<Longrightarrow>
     defined (read_digests ids s) \<and> (\<forall>s'. read_digests ids s = Inr s' \<longrightarrow> length (fst s') = length (fst s))"
  by (induction ids s rule: read_digests.induct) (auto simp: set_reference_Inr table_error_def)

lemma defined_bind_length:
  assumes "defined r \<and> (\<forall>s'. r = Inr s' \<longrightarrow> length (fst s') = n)"
    and "\<And>s. length (fst s) = n \<Longrightarrow> defined (f s)"
  shows "defined (bind_res r f)"
  using assms by (intro defined_bind) auto

lemma defined_BuildArchiveReferences:
  assumes "\<forall>k \<in> set ids. k \<le> largest"
  shows "defined (BuildArchiveReferences largest ids t data)"
proof (cases "unat (largest + 1)")
  case 0
  then show ?thesis by (simp add: BuildArchiveReferences_def)
next
  case (Suc n)
  let ?refs = "replicate (unat (largest + 1)) new_reference"
  have "largest + 1 \<noteq> 0" using Suc by auto
  then have "unat (largest + 1) = Suc (unat largest)" by (metis Suc_eq_plus1 unatSuc add.commute)
  then have b: "\<forall>k \<in> set ids. unat k < length ?refs"
    using assms by (auto simp: word_le_nat_alt less_Suc_eq_le)
  let ?n = "length ?refs"
  have each: "defined (read_each f ids s) \<and> (\<forall>s'. read_each f ids s = Inr s' \<longrightarrow> length (fst s') = ?n)"
    if "length (fst s) = ?n" for f s using defined_read_each [of ids s f] b that by simp
  have digests: "defined (read_digests ids s) \<and> (\<forall>s'. read_digests ids s = Inr s' \<longrightarrow> length (fst s') = ?n)"
    if "length (fst s) = ?n" for s using defined_read_digests [of ids s] b that by simp
  show ?thesis
    unfolding BuildArchiveReferences_def Let_def
    by (auto intro!: defined_bind_length [where n = ?n] each digests simp del: length_replicate)
qed

text \<open>Property C18. Decoding a reference table from any bytes has no undefined behaviour for the
  protocols 6 and 7: every archive identifier stays inside the vector that was sized by the
  largest one. A table that claims protocol 5 dereferences a null pointer.\<close>

theorem reference_table_memory_safe:
  assumes "buf_ok data" "unread data = proto # rest"
  shows "defined (reference_table_of data) \<longleftrightarrow> proto \<noteq> 5"
proof -
  have at: "at_bytes data (proto # rest)" using assms by (simp add: at_bytes_def)
  have lt: "proto < 6 \<and> \<not> proto < 5 \<longleftrightarrow> proto = 5"
  proof -
    have "unat proto < 6 \<and> \<not> unat proto < 5 \<longleftrightarrow> unat proto = 5" by arith
    then show ?thesis by (simp add: word_less_nat_alt word_unat_eq_iff)
  qed
  have "defined (BuildArchiveReferences g ids t d')" if "read_ids proto n 0 0 d = Inr (ids, g, d')" for g ids t d d' n
    using read_ids_bound [OF that] by (intro defined_BuildArchiveReferences) simp
  then show ?thesis
    using lt unfolding reference_table_of_def if_get_u8_at [OF at]
    by (auto simp: if_get_u8_def if_get_u32_def read_count_def Let_def
        intro!: defined_if_get defined_bind defined_read_number defined_read_ids)
qed

theorem reference_table_memory_safe_witness:
  "defined (reference_table_of (buf_of [6, 0, 0])) \<and> \<not> defined (reference_table_of (buf_of [5, 0, 0, 0]))"
  using reference_table_memory_safe [of "buf_of [6, 0, 0]" 6 "[0, 0]"]
    reference_table_memory_safe [of "buf_of [5, 0, 0, 0]" 5 "[0, 0, 0]"]
  by (simp add: buf_of_def buf_ok_def unread_def size_max_def)

section \<open>Tables as the format writes them\<close>

text \<open>A number that the format of the protocol can hold, and its bytes.\<close>

definition number_ok :: "u8 \<Rightarrow> nat \<Rightarrow> bool" where
  "number_ok proto n \<longleftrightarrow> (if proto \<ge> 7 then n < 2147483648 else n < 65536)"

definition number_bytes :: "u8 \<Rightarrow> nat \<Rightarrow> u8 list" where
  "number_bytes proto n =
     (if proto \<ge> 7 \<and> n \<ge> 32767 then be_bytes (of_nat (n + 2147483648) :: u32)
      else be_bytes (of_nat n :: u16))"

definition words_bytes :: "u32 list \<Rightarrow> u8 list" where
  "words_bytes vs = concat (map be_bytes vs)"

fun sums :: "nat \<Rightarrow> nat list \<Rightarrow> nat list" where
  "sums a [] = []"
| "sums a (d # ds) = (a + d) # sums (a + d) ds"

text \<open>A table of the format: increments of the identifiers, name hashes when the flags have the table
  named, digests when they have it digested, checksums and revisions.\<close>

definition table_bytes ::
  "u8 \<Rightarrow> u32 \<Rightarrow> u8 \<Rightarrow> nat list \<Rightarrow> u32 list \<Rightarrow> u8 list list \<Rightarrow> u32 list \<Rightarrow> u32 list \<Rightarrow> u8 list" where
  "table_bytes proto rv fl deltas names digests crcs revs =
     proto # be_bytes rv @ fl # number_bytes proto (length deltas)
       @ concat (map (number_bytes proto) deltas)
       @ (if fl AND kFlagIdentifiers \<noteq> 0 then words_bytes names else [])
       @ (if fl AND kFlagWhirlpool \<noteq> 0 then concat digests else [])
       @ words_bytes crcs @ words_bytes revs"

text \<open>The reference that is decoded for entry \<open>i\<close>. As the digests are not skipped, a table that has
  them gives every archive the first digest, and takes its checksums and revisions from the words the
  digests begin with.\<close>

definition word_at :: "u8 list \<Rightarrow> nat \<Rightarrow> u32" where
  "word_at bs i = of_be (take 4 (drop (4 * i) bs))"

definition decoded_entry ::
  "u8 \<Rightarrow> u32 list \<Rightarrow> u8 list list \<Rightarrow> u32 list \<Rightarrow> u32 list \<Rightarrow> nat \<Rightarrow> archive_reference" where
  "decoded_entry fl names digests crcs revs i =
     (let name = (if fl AND kFlagIdentifiers \<noteq> 0 then names ! i else 0)
      in if fl AND kFlagWhirlpool = 0
         then \<lparr>name_hash = name, crc = crcs ! i, whirlpool = None, revision = revs ! i\<rparr>
         else \<lparr>name_hash = name, crc = word_at (concat digests) i, whirlpool = Some (digests ! 0),
           revision = word_at (concat digests) (length crcs + i)\<rparr>)"

lemma all_less_two: "(\<forall>i < Suc (Suc 0). P i) \<longleftrightarrow> P 0 \<and> P (Suc 0)"
  by (auto simp: less_Suc_eq)

lemma words_bytes_append: "words_bytes (vs @ ws) = words_bytes vs @ words_bytes ws"
  by (simp add: words_bytes_def)

lemma length_words_bytes [simp]: "length (words_bytes vs) = 4 * length vs"
  by (induction vs) (simp_all add: words_bytes_def)

lemma words_bytes_word_at:
  "4 * (a + n) \<le> length bs \<Longrightarrow> words_bytes (map (\<lambda>i. word_at bs (a + i)) [0..<n]) = take (4 * n) (drop (4 * a) bs)"
proof (induction n)
  case (Suc n)
  have "words_bytes [word_at bs (a + n)] = take 4 (drop (4 * (a + n)) bs)"
    using Suc.prems by (simp add: words_bytes_def word_at_def be_bytes_of_be)
  then have "words_bytes (map (\<lambda>i. word_at bs (a + i)) [0..<Suc n])
      = take (4 * n) (drop (4 * a) bs) @ take 4 (drop (4 * n) (drop (4 * a) bs))"
    using Suc by (simp add: words_bytes_append add.commute)
  then show ?case using take_add [of "4 * n" 4 "drop (4 * a) bs"] by (simp add: add.commute)
qed (simp add: words_bytes_def)

lemma of_nat_u32_of_u16: "n < 65536 \<Longrightarrow> uint (of_nat n :: u16) = int n"
  by (simp add: uint_nat unat_of_nat)

lemma be_bytes_u16: "be_bytes (w :: u16) = [ucast (drop_bit 8 w), ucast w]"
  by (simp add: be_bytes_def host_bytes_def)

lemma be_bytes_u32:
  "be_bytes (w :: u32) = [ucast (drop_bit 24 w), ucast (drop_bit 16 w), ucast (drop_bit 8 w), ucast w]"
  by (simp add: be_bytes_def host_bytes_def)

lemma sint_u8_negative: "sint (b :: u8) < 0 \<longleftrightarrow> bit b 7"
  using bit_last_iff [of b] by simp

lemma high_byte_u16: "n < 32768 \<Longrightarrow> sint (NOT (ucast (drop_bit 8 (of_nat n :: u16)) :: u8)) \<le> - 1"
proof -
  assume "n < 32768"
  then have "\<not> bit n 15" by (simp add: bit_iff_odd)
  then have "\<not> bit (ucast (drop_bit 8 (of_nat n :: u16)) :: u8) 7"
    by (auto simp: bit_simps)
  then have "bit (NOT (ucast (drop_bit 8 (of_nat n :: u16)) :: u8)) 7" by (simp add: bit_not_iff)
  then have "sint (NOT (ucast (drop_bit 8 (of_nat n :: u16)) :: u8)) < 0"
    by (simp only: sint_u8_negative not_False_eq_True)
  then show ?thesis by simp
qed

lemma high_byte_u32:
  assumes "2147483648 \<le> m" "m < 4294967296"
  shows "\<not> sint (NOT (ucast (drop_bit 24 (of_nat m :: u32)) :: u8)) \<le> - 1"
proof -
  have "m div 2147483648 = 1" using assms by (intro div_nat_eqI) simp_all
  then have "bit m 31" by (simp add: bit_iff_odd)
  then have "bit (ucast (drop_bit 24 (of_nat m :: u32)) :: u8) 7"
    by (simp add: bit_simps)
  then have "\<not> bit (NOT (ucast (drop_bit 24 (of_nat m :: u32)) :: u8)) 7" by (simp add: bit_not_iff)
  then have "\<not> sint (NOT (ucast (drop_bit 24 (of_nat m :: u32)) :: u8)) < 0"
    by (simp only: sint_u8_negative not_False_eq_True)
  then show ?thesis by simp
qed

lemma mask31:
  assumes "n < 2147483648"
  shows "uint (of_nat (n + 2147483648) AND (0x7FFFFFFF :: u32)) = int n"
proof -
  have "(0x7FFFFFFF :: u32) = mask 31" by (simp add: mask_eq_exp_minus_1)
  then have "unat (of_nat (n + 2147483648) AND (0x7FFFFFFF :: u32))
      = take_bit 31 (unat (of_nat (n + 2147483648) :: u32))"
    by (simp only: take_bit_eq_mask [symmetric]) (simp only: unsigned_take_bit_eq)
  also have "\<dots> = n" using assms by (simp add: unat_of_nat take_bit_eq_mod del: of_nat_add of_nat_numeral)
  finally show ?thesis by (simp add: uint_nat)
qed

lemma read_number_bytes:
  assumes at: "at_bytes data (number_bytes proto n @ rest)" and ok: "number_ok proto n"
  shows "read_number proto data = Inr (int n, advance (length (number_bytes proto n)) data)"
proof (cases "proto \<ge> 7")
  case False
  then have n: "number_bytes proto n = be_bytes (of_nat n :: u16)" "n < 65536"
    using ok by (simp_all add: number_bytes_def number_ok_def)
  show ?thesis
    using False n by (simp add: read_number_def of_nat_u32_of_u16 if_get_u16_at [OF at [unfolded n(1)]])
next
  case big: True
  have pos: "position data < buf_size data" "bytes data ! position data = hd (number_bytes proto n)"
  proof -
    have u: "unread data = number_bytes proto n @ rest" using at by (simp add: at_bytes_def)
    have "number_bytes proto n \<noteq> []" by (simp add: number_bytes_def be_bytes_u16 be_bytes_u32)
    with u have "unread data \<noteq> []" by simp
    then show lt: "position data < buf_size data" by (simp add: unread_def)
    then have "hd (unread data) = bytes data ! position data" by (simp add: unread_def hd_drop_conv_nth)
    then show "bytes data ! position data = hd (number_bytes proto n)"
      using u \<open>number_bytes proto n \<noteq> []\<close> by simp
  qed
  show ?thesis
  proof (cases "n < 32767")
    case True
    then have n: "number_bytes proto n = be_bytes (of_nat n :: u16)" by (simp add: number_bytes_def)
    have "(of_nat n :: u16) \<noteq> 32767"
    proof
      assume "(of_nat n :: u16) = 32767"
      then have "unat (of_nat n :: u16) = 32767" by simp
      then show False using True by (simp add: unat_of_nat)
    qed
    then show ?thesis
      using big pos n True high_byte_u16 [of n]
      by (simp add: read_number_def ReadBigSmart_def be_bytes_u16 of_nat_u32_of_u16 Let_def
          if_get_u16_at [OF at [unfolded n]])
  next
    case False
    then have n: "number_bytes proto n = be_bytes (of_nat (n + 2147483648) :: u32)"
      using big by (simp add: number_bytes_def)
    have lt: "n < 2147483648" using ok big by (simp add: number_ok_def)
    have "\<not> sint (NOT (hd (number_bytes proto n))) \<le> - 1"
      using high_byte_u32 [of "n + 2147483648"] lt n by (simp add: be_bytes_u32)
    then show ?thesis
      using big pos lt mask31 [OF lt] n
      by (simp add: read_number_def ReadBigSmart_def Let_def if_get_u32_at [OF at [unfolded n]])
  qed
qed

lemma read_ids_bytes:
  assumes "at_bytes data (concat (map (number_bytes proto) ds) @ rest)"
    and "\<forall>d \<in> set ds. number_ok proto d" and "a + sum_list ds < 2 ^ 32"
  shows "\<exists>data'. read_ids proto (length ds) (of_nat a) (of_nat a) data
      = Inr (map of_nat (sums a ds), of_nat (a + sum_list ds), data') \<and> at_bytes data' rest"
  using assms
proof (induction ds arbitrary: a data)
  case (Cons d ds)
  let ?d1 = "advance (length (number_bytes proto d)) data"
  have at: "at_bytes data (number_bytes proto d @ concat (map (number_bytes proto) ds) @ rest)"
    using Cons.prems(1) by simp
  have rd: "read_number proto data = Inr (int d, ?d1)"
    using at Cons.prems(2) by (intro read_number_bytes) simp_all
  have "at_bytes ?d1 (concat (map (number_bytes proto) ds) @ rest)"
    using at by (rule at_bytes_advance) simp
  then obtain data' where ih: "read_ids proto (length ds) (of_nat (a + d)) (of_nat (a + d)) ?d1
      = Inr (map of_nat (sums (a + d) ds), of_nat (a + d + sum_list ds), data')" "at_bytes data' rest"
    using Cons.IH [of ?d1 "a + d"] Cons.prems(2,3) by auto
  have last: "of_nat a + of_int (int d) = (of_nat (a + d) :: u32)" by simp
  have largest: "(if of_nat (a + d) > (of_nat a :: u32) then of_nat (a + d) else of_nat a) = (of_nat (a + d) :: u32)"
  proof -
    have "unat (of_nat a :: u32) = a" "unat (of_nat (a + d) :: u32) = a + d"
      using Cons.prems(3) by (simp_all add: unat_of_nat del: of_nat_add)
    then have "(of_nat a :: u32) \<le> of_nat (a + d)" by (simp add: word_le_nat_alt del: of_nat_add)
    then show ?thesis by (auto simp: not_less)
  qed
  have "read_ids proto (length (d # ds)) (of_nat a) (of_nat a) data
      = bind_res (read_ids proto (length ds) (of_nat (a + d)) (of_nat (a + d)) ?d1)
          (\<lambda>(ids, largest, data). Inr (of_nat (a + d) # ids, largest, data))"
    by (simp only: list.size(4) read_ids.simps rd bind_res_simps prod.case Let_def last largest
        add_0_right add_Suc_right)
  then show ?case using ih by (simp add: add.assoc del: of_nat_add)
qed simp

text \<open>The loops over the identifiers: entry \<open>i\<close> gets the \<open>i\<close>-th value.\<close>

definition fill ::
  "(u32 \<Rightarrow> archive_reference \<Rightarrow> archive_reference) \<Rightarrow> u32 list \<Rightarrow> u32 list
     \<Rightarrow> archive_reference list \<Rightarrow> archive_reference list" where
  "fill f ids vs refs = fold (\<lambda>(k, v) refs. refs[unat k := f v (refs ! unat k)]) (zip ids vs) refs"

lemma fill_simps [simp]:
  "fill f [] vs refs = refs"
  "fill f (k # ks) (v # vs) refs = fill f ks vs (refs[unat k := f v (refs ! unat k)])"
  by (simp_all add: fill_def)

lemma length_fill [simp]: "length ids = length vs \<Longrightarrow> length (fill f ids vs refs) = length refs"
  by (induction ids vs arbitrary: refs rule: list_induct2) simp_all

lemma fill_other: "length ids = length vs \<Longrightarrow> \<forall>k \<in> set ids. unat k \<noteq> j \<Longrightarrow> fill f ids vs refs ! j = refs ! j"
  by (induction ids vs arbitrary: refs rule: list_induct2) simp_all

lemma fill_nth:
  assumes "length ids = length vs" "distinct ids" "i < length ids" "\<forall>k \<in> set ids. unat k < length refs"
  shows "fill f ids vs refs ! unat (ids ! i) = f (vs ! i) (refs ! unat (ids ! i))"
  using assms
proof (induction ids vs arbitrary: refs i rule: list_induct2)
  case (Cons k ks v vs)
  show ?case
  proof (cases i)
    case 0
    have "\<forall>j \<in> set ks. unat j \<noteq> unat k" using Cons.prems by (auto dest!: unsigned_word_eqI)
    with 0 Cons.hyps Cons.prems show ?thesis by (simp add: fill_other)
  next
    case (Suc m)
    then have "ks ! m \<in> set ks" using Cons.prems by simp
    then have "unat (ks ! m) \<noteq> unat k" using Cons.prems by (auto dest!: unsigned_word_eqI)
    with Suc Cons show ?thesis by simp
  qed
qed simp

lemma read_each_bytes:
  assumes "length ids = length vs" "at_bytes data (words_bytes vs @ rest)"
    and "\<forall>k \<in> set ids. unat k < length refs"
  shows "\<exists>data'. read_each f ids (refs, data) = Inr (fill f ids vs refs, data') \<and> at_bytes data' rest"
  using assms
proof (induction ids vs arbitrary: refs data rule: list_induct2)
  case (Cons k ks v vs)
  have at: "at_bytes data (be_bytes v @ words_bytes vs @ rest)"
    using Cons.prems(1) by (simp add: words_bytes_def)
  have "at_bytes (advance 4 data) (words_bytes vs @ rest)"
    using at by (rule at_bytes_advance) simp
  then show ?case
    using Cons.IH [of "advance 4 data" "refs[unat k := f v (refs ! unat k)]"] Cons.prems(2)
    by (simp add: if_get_u32_at [OF at] set_reference_Inr)
qed (simp add: words_bytes_def)

text \<open>The digests: all of them are the 64 bytes at the position, which stays.\<close>

lemma read_digests_bytes:
  assumes "at_bytes data body" "ids \<noteq> [] \<Longrightarrow> 64 \<le> length body" "\<forall>k \<in> set ids. unat k < length refs"
  shows "read_digests ids (refs, data)
    = Inr (fill (\<lambda>_. whirlpool_update (\<lambda>_. Some (take 64 body))) ids (map (\<lambda>_. 0) ids) refs, data)"
  using assms(2,3)
proof (induction ids arbitrary: refs)
  case (Cons k ids)
  have u: "take 64 (drop (position data) (bytes data)) = take 64 body" "length body = buf_size data - position data"
    using assms(1) by (auto simp: at_bytes_def unread_def)
  then have "\<not> size_add (position data) 64 > buf_size data"
    using assms(1) Cons.prems(1) by (simp add: at_bytes_def buf_ok_def size_add_def)
  then show ?case using Cons u(1) by (simp add: set_reference_Inr)
qed simp

lemma sums_bound: "x \<in> set (sums a ds) \<Longrightarrow> a \<le> x \<and> x \<le> a + sum_list ds"
  by (induction ds arbitrary: a) fastforce+

lemma length_sums [simp]: "length (sums a ds) = length ds"
  by (induction ds arbitrary: a) simp_all

lemma sums_strict: "\<forall>d \<in> set ds. 0 < d \<Longrightarrow> x \<in> set (sums a ds) \<Longrightarrow> a < x"
  by (induction ds arbitrary: a) fastforce+

lemma sums_distinct: "\<forall>d \<in> set ds. 0 < d \<Longrightarrow> distinct (sums a ds)"
  by (induction ds arbitrary: a) (auto dest: sums_strict)

text \<open>The identifiers of a table whose increments, the first excepted, are positive.\<close>

lemma sums_ids:
  assumes "\<forall>d \<in> set (tl ds). 0 < d" and "sum_list ds < 2 ^ 32"
  shows "distinct (map of_nat (sums 0 ds) :: u32 list)"
    and "\<forall>x \<in> set (sums 0 ds). x \<le> sum_list ds \<and> unat (of_nat x :: u32) = x"
proof -
  have b: "x \<le> sum_list ds" if "x \<in> set (sums 0 ds)" for x using sums_bound [OF that] by simp
  show u: "\<forall>x \<in> set (sums 0 ds). x \<le> sum_list ds \<and> unat (of_nat x :: u32) = x"
    using b assms(2) by (fastforce simp: unat_of_nat intro!: mod_less)
  have "distinct (sums 0 ds)"
  proof (cases ds)
    case (Cons d es)
    then show ?thesis using assms(1) sums_strict [of es d d] sums_distinct [of es d] by auto
  qed simp
  then show "distinct (map of_nat (sums 0 ds) :: u32 list)"
    using u by (auto simp: distinct_map inj_on_def) metis
qed

lemma BuildArchiveReferences_bytes:
  assumes ids: "ids = map of_nat (sums 0 ds)" "\<forall>d \<in> set (tl ds). 0 < d" "sum_list ds < 2 ^ 32 - 1"
    and len: "length names = length ds" "length crcs = length ds" "length revs = length ds"
    and at: "at_bytes data ((if is_named t then words_bytes names else []) @ body)"
    and body: "body = words_bytes crcs @ words_bytes revs @ junk"
      "is_whirlpooled t \<Longrightarrow> ds \<noteq> [] \<Longrightarrow> 64 \<le> length body"
  shows "\<exists>refs. BuildArchiveReferences (of_nat (sum_list ds)) ids t data = Inr (t\<lparr>archive_references := refs\<rparr>)
    \<and> length refs = sum_list ds + 1
    \<and> (\<forall>i < length ds. refs ! (sums 0 ds ! i) =
         \<lparr>name_hash = (if is_named t then names ! i else 0), crc = crcs ! i,
          whirlpool = (if is_whirlpooled t then Some (take 64 body) else None), revision = revs ! i\<rparr>)
    \<and> (\<forall>k. k \<notin> set (sums 0 ds) \<longrightarrow> k \<le> sum_list ds \<longrightarrow> refs ! k = new_reference)"
proof -
  let ?n = "sum_list ds + 1"
  let ?dig = "\<lambda>_ :: u32. whirlpool_update (\<lambda>_. Some (take 64 body))"
  define zs :: "u32 list" where "zs = map (\<lambda>_. 0) ids"
  define r0 where "r0 = replicate ?n new_reference"
  define r1 where "r1 = (if is_named t then fill set_name_hash ids names r0 else r0)"
  define rw where "rw = (if is_whirlpooled t then fill ?dig ids zs r1 else r1)"
  define r2 where "r2 = fill set_crc ids crcs rw"
  define r3 where "r3 = fill set_revision ids revs r2"
  have s32: "sum_list ds < 2 ^ 32" using ids(3) by simp
  note sd = sums_ids [OF ids(2) s32]
  have n: "unat (of_nat (sum_list ds) + 1 :: u32) = ?n"
  proof -
    have "(of_nat (sum_list ds) + 1 :: u32) = of_nat ?n" by simp
    then show ?thesis using ids(3) by (simp only: unat_of_nat) simp
  qed
  have inr: "\<forall>k \<in> set ids. unat k < ?n" unfolding ids(1) using sd(2) by (auto simp: less_Suc_eq_le)
  have li: "length ids = length ds" "length zs = length ds" by (simp_all add: ids(1) zs_def)
  have l: "length r0 = ?n" "length r1 = ?n" "length rw = ?n" "length r2 = ?n" "length r3 = ?n"
    using li len by (simp_all add: r0_def r1_def rw_def r2_def r3_def)
  have e: "\<exists>d'. read_each g ids (r, d) = Inr (fill g ids vs r, d') \<and> at_bytes d' rest"
    if "at_bytes d (words_bytes vs @ rest)" "length r = ?n" "length vs = length ds" for g r d vs rest
    using read_each_bytes [of ids vs d rest r g] that li inr by simp
  have "\<exists>d1. (if is_named t then read_each set_name_hash ids (r0, data) else Inr (r0, data)) = Inr (r1, d1)
      \<and> at_bytes d1 body"
    using e [of data names body r0 set_name_hash] at l(1) len(1)
    by (cases "is_named t") (simp_all add: r1_def)
  then obtain d1 where 1: "(if is_named t then read_each set_name_hash ids (r0, data) else Inr (r0, data)) = Inr (r1, d1)"
    "at_bytes d1 body" by blast
  have w: "(if is_whirlpooled t then read_digests ids (r1, d1) else Inr (r1, d1)) = Inr (rw, d1)"
    using read_digests_bytes [OF 1(2), of ids r1] body(2) inr l(2) ids(1) by (cases ds) (auto simp: rw_def zs_def)
  obtain d2 where 2: "read_each set_crc ids (rw, d1) = Inr (r2, d2)" "at_bytes d2 (words_bytes revs @ junk)"
    using e [OF 1(2) [unfolded body(1)] l(3) len(2)] unfolding r2_def by blast
  then obtain d3 where 3: "read_each set_revision ids (r2, d2) = Inr (r3, d3)"
    using e [OF 2(2) l(4) len(3)] unfolding r3_def by auto
  have "BuildArchiveReferences (of_nat (sum_list ds)) ids t data = Inr (t\<lparr>archive_references := r3\<rparr>)"
    using l(1) unfolding BuildArchiveReferences_def n Let_def r0_def [symmetric] 1(1) bind_res_simps w 2(1) 3
    by auto
  moreover have "length r3 = ?n" by (rule l(5))
  moreover have "r3 ! (sums 0 ds ! i) =
      \<lparr>name_hash = (if is_named t then names ! i else 0), crc = crcs ! i,
       whirlpool = (if is_whirlpooled t then Some (take 64 body) else None), revision = revs ! i\<rparr>"
    if i: "i < length ds" for i
  proof -
    have ix: "sums 0 ds ! i = unat (ids ! i)" using sd(2) i by (simp add: ids(1))
    have k: "ids ! i \<in> set ids" using i li by simp
    then have "r0 ! unat (ids ! i) = new_reference"
      using inr by (simp only: r0_def nth_replicate)
    moreover have fn: "fill g ids vs r ! unat (ids ! i) = g (vs ! i) (r ! unat (ids ! i))"
      if "length vs = length ds" "length r = ?n" for g vs r
      using fill_nth [of ids vs i r g] sd(1) ids(1) i li inr that by metis
    ultimately have "r1 ! unat (ids ! i) = new_reference\<lparr>name_hash := if is_named t then names ! i else 0\<rparr>"
      using l(1) len(1) by (simp add: r1_def set_name_hash_def new_reference_def)
    then have "rw ! unat (ids ! i) = new_reference\<lparr>name_hash := if is_named t then names ! i else 0,
        whirlpool := if is_whirlpooled t then Some (take 64 body) else None\<rparr>"
      using fn [OF li(2) l(2)] by (simp add: rw_def new_reference_def)
    then show ?thesis
      unfolding ix r3_def fn [OF len(3) l(4)] unfolding r2_def fn [OF len(2) l(3)]
      by (simp add: set_revision_def set_crc_def new_reference_def)
  qed
  moreover have "r3 ! k = new_reference" if "k \<notin> set (sums 0 ds)" "k \<le> sum_list ds" for k
  proof -
    have "\<forall>j \<in> set ids. unat j \<noteq> k" unfolding ids(1) using that(1) sd(2) by auto
    then show ?thesis using that(2) li len
      by (simp add: r3_def r2_def rw_def r1_def r0_def fill_other del: replicate_Suc)
  qed
  ultimately show ?thesis by blast
qed

text \<open>What stands after the name hashes, as the words that are read from it.\<close>

lemma table_body:
  assumes len: "length digests = n" "length crcs = n" "length revs = n" "\<forall>d \<in> set digests. length d = 64"
    and body: "body = (if w then concat digests else []) @ words_bytes crcs @ words_bytes revs"
  shows "\<exists>cs rs junk. body = words_bytes cs @ words_bytes rs @ junk \<and> length cs = n \<and> length rs = n
    \<and> (\<forall>i < n. cs ! i = (if w then word_at (concat digests) i else crcs ! i)
        \<and> rs ! i = (if w then word_at (concat digests) (n + i) else revs ! i))
    \<and> (w \<longrightarrow> 0 < n \<longrightarrow> 64 \<le> length body \<and> take 64 body = digests ! 0)"
proof (cases w)
  case False
  then show ?thesis using body len by (intro exI [of _ crcs] exI [of _ revs] exI [of _ "[]"]) simp
next
  case True
  let ?D = "concat digests"
  have "length ?D = 64 * length digests"
    using len(4) by (induction digests) simp_all
  then have D: "4 * (n + n) \<le> length ?D" using len(1) by simp
  let ?cs = "map (\<lambda>i. word_at ?D (0 + i)) [0..<n]" and ?rs = "map (\<lambda>i. word_at ?D (n + i)) [0..<n]"
  have "?D = take (4 * n) ?D @ take (4 * n) (drop (4 * n) ?D) @ drop (4 * (n + n)) ?D"
    by (metis append_take_drop_id drop_drop distrib_left add.commute)
  then have "?D = words_bytes ?cs @ words_bytes ?rs @ drop (4 * (n + n)) ?D"
    using words_bytes_word_at [of 0 n ?D] words_bytes_word_at [of n n ?D] D by simp
  from arg_cong [OF this, of "\<lambda>bs. bs @ words_bytes crcs @ words_bytes revs"]
  have *: "body = words_bytes ?cs @ words_bytes ?rs @ drop (4 * (n + n)) ?D @ words_bytes crcs @ words_bytes revs"
    unfolding body using True by (simp only: if_True append_assoc)
  have first: "64 \<le> length body \<and> take 64 body = digests ! 0" if "0 < n"
    using that len(1,4) True unfolding body by (cases digests) simp_all
  show ?thesis
    by (rule exI [of _ ?cs], rule exI [of _ ?rs],
        rule exI [of _ "drop (4 * (n + n)) ?D @ words_bytes crcs @ words_bytes revs"], rule conjI, rule *)
      (use first True in simp_all)
qed

lemma reference_table_decodes:
  assumes proto: "proto = 6 \<or> proto = 7"
    and ds: "\<forall>d \<in> set (tl ds). 0 < d" "sum_list ds < 2 ^ 32 - 1" "\<forall>d \<in> set ds. number_ok proto d"
      "number_ok proto (length ds)"
    and len: "length names = length ds" "length crcs = length ds" "length revs = length ds"
      "length digests = length ds" "\<forall>d \<in> set digests. length d = 64"
    and size: "length (table_bytes proto rv fl ds names digests crcs revs) + 64 < size_max"
  shows "\<exists>t. reference_table_of (buf_of (table_bytes proto rv fl ds names digests crcs revs)) = Inr t
    \<and> protocol t = proto \<and> table_revision t = rv \<and> flags t = fl
    \<and> length (archive_references t) = sum_list ds + 1
    \<and> (\<forall>i < length ds. archive_references t ! (sums 0 ds ! i) = decoded_entry fl names digests crcs revs i)
    \<and> (\<forall>k. k \<notin> set (sums 0 ds) \<longrightarrow> k \<le> sum_list ds \<longrightarrow> archive_references t ! k = new_reference)"
proof -
  define d0 where "d0 = buf_of (table_bytes proto rv fl ds names digests crcs revs)"
  let ?ids = "map of_nat (sums 0 ds) :: u32 list"
  let ?t = "\<lparr>protocol = proto, table_revision = rv, flags = fl, archive_references = []\<rparr>"
  define body where "body = (if is_whirlpooled ?t then concat digests else []) @ words_bytes crcs @ words_bytes revs"
  let ?body = "(if is_named ?t then words_bytes names else []) @ body"
  define tail where "tail = number_bytes proto (length ds) @ concat (map (number_bytes proto) ds) @ ?body"
  have at0: "at_bytes d0 (proto # be_bytes rv @ fl # tail)"
    using at_bytes_buf_of [OF size]
    by (simp add: table_bytes_def tail_def body_def d0_def is_named_def is_whirlpooled_def)
  have at1: "at_bytes (advance 1 d0) (be_bytes rv @ fl # tail)"
    using at_bytes_advance [of d0 "[proto]"] at0 by simp
  let ?d5 = "advance 4 (advance 1 d0)"
  have at5: "at_bytes ?d5 (fl # tail)"
    using at_bytes_advance [OF at1] by simp
  let ?d6 = "advance 1 ?d5"
  have at6: "at_bytes ?d6 tail"
    using at_bytes_advance [of ?d5 "[fl]" tail 1] at5 by simp
  let ?d7 = "advance (length (number_bytes proto (length ds))) ?d6"
  have cnt: "read_count proto ?d6 = Inr (length ds, ?d7)"
    using read_number_bytes [OF at6 [unfolded tail_def] ds(4)] by (simp add: read_count_def)
  have at7: "at_bytes ?d7 (concat (map (number_bytes proto) ds) @ ?body)"
    using at_bytes_advance [OF at6 [unfolded tail_def]] by blast
  have "0 + sum_list ds < 2 ^ 32" using ds(2) by simp
  then obtain d8 where ids: "read_ids proto (length ds) 0 0 ?d7 = Inr (?ids, of_nat (sum_list ds), d8)"
    "at_bytes d8 ?body"
    using read_ids_bytes [OF at7 ds(3), of 0] by auto
  obtain cs rs junk where b: "body = words_bytes cs @ words_bytes rs @ junk" "length cs = length ds" "length rs = length ds"
    "\<forall>i < length ds. cs ! i = (if is_whirlpooled ?t then word_at (concat digests) i else crcs ! i)
      \<and> rs ! i = (if is_whirlpooled ?t then word_at (concat digests) (length ds + i) else revs ! i)"
    "is_whirlpooled ?t \<longrightarrow> 0 < length ds \<longrightarrow> 64 \<le> length body \<and> take 64 body = digests ! 0"
    using table_body [OF len(4,2,3,5) body_def] by (elim exE conjE) (rule that)
  have w: "is_whirlpooled ?t \<Longrightarrow> ds \<noteq> [] \<Longrightarrow> 64 \<le> length body" using b(5) by simp
  obtain refs where refs: "BuildArchiveReferences (of_nat (sum_list ds)) ?ids ?t d8 = Inr (?t\<lparr>archive_references := refs\<rparr>)"
    "length refs = sum_list ds + 1"
    "\<forall>i < length ds. refs ! (sums 0 ds ! i) =
         \<lparr>name_hash = (if is_named ?t then names ! i else 0), crc = cs ! i,
          whirlpool = (if is_whirlpooled ?t then Some (take 64 body) else None), revision = rs ! i\<rparr>"
    "\<forall>k. k \<notin> set (sums 0 ds) \<longrightarrow> k \<le> sum_list ds \<longrightarrow> refs ! k = new_reference"
    using BuildArchiveReferences_bytes [OF refl ds(1,2) len(1) b(2,3) ids(2) b(1) w] by blast
  have entries: "refs ! (sums 0 ds ! i) = decoded_entry fl names digests crcs revs i" if "i < length ds" for i
    using refs(3) b(4,5) that len(2) by (auto simp: decoded_entry_def is_named_def is_whirlpooled_def Let_def)
  have p: "\<not> (proto < 5 \<or> proto > 7)" "\<not> proto < 6" using proto by auto
  have "reference_table_of d0 = Inr (?t\<lparr>archive_references := refs\<rparr>)"
    unfolding reference_table_of_def if_get_u8_at [OF at0] if_get_u32_at [OF at1]
      if_get_u8_at [OF at5] cnt Let_def bind_res_simps prod.case ids(1)
    using p refs(1) by simp
  then show ?thesis using refs(2,4) entries unfolding d0_def by auto
qed

text \<open>Property C8. A table written in the format of protocol 6 or 7, with any flags, is decoded: the
  vector reaches to the largest identifier, every identifier the table does not name holds a fresh
  reference, and entry \<open>i\<close> of the file is found at its identifier. Without digests it has its name
  hash, checksum and revision; with digests it has its name hash, but the first digest of the table,
  and as its checksum and revision the words \<open>i\<close> and \<open>n + i\<close> of the digests' own bytes.\<close>

theorem reference_table_roundtrip:
  assumes proto: "proto = 6 \<or> proto = 7"
    and ds: "\<forall>d \<in> set (tl ds). 0 < d" "sum_list ds < 2 ^ 32 - 1" "\<forall>d \<in> set ds. number_ok proto d"
      "number_ok proto (length ds)"
    and len: "length names = length ds" "length crcs = length ds" "length revs = length ds"
      "length digests = length ds" "\<forall>d \<in> set digests. length d = 64"
    and size: "length (table_bytes proto rv fl ds names digests crcs revs) + 64 < size_max"
  shows "\<exists>t. reference_table_of (buf_of (table_bytes proto rv fl ds names digests crcs revs)) = Inr t
    \<and> protocol t = proto \<and> table_revision t = rv \<and> flags t = fl
    \<and> length (archive_references t) = sum_list ds + 1
    \<and> (\<forall>i < length ds. archive_references t ! (sums 0 ds ! i) =
         (let name = (if fl AND kFlagIdentifiers \<noteq> 0 then names ! i else 0)
          in if fl AND kFlagWhirlpool = 0
             then \<lparr>name_hash = name, crc = crcs ! i, whirlpool = None, revision = revs ! i\<rparr>
             else \<lparr>name_hash = name, crc = word_at (concat digests) i, whirlpool = Some (digests ! 0),
               revision = word_at (concat digests) (length ds + i)\<rparr>))
    \<and> (\<forall>k. k \<notin> set (sums 0 ds) \<longrightarrow> k \<le> sum_list ds \<longrightarrow> archive_references t ! k = new_reference)"
  using reference_table_decodes [OF assms] unfolding decoded_entry_def len(2) .

text \<open>One table without digests, and one whose archives 4 and 5 both get the first of two digests.\<close>

theorem reference_table_roundtrip_witness:
  "(\<exists>t. reference_table_of (buf_of (table_bytes 7 9 1 [2, 40000] [11, 12] [replicate 64 0, replicate 64 0] [13, 14] [15, 16])) = Inr t
    \<and> length (archive_references t) = 40003
    \<and> archive_references t ! 40002 = \<lparr>name_hash = 12, crc = 14, whirlpool = None, revision = 16\<rparr>
    \<and> archive_references t ! 3 = new_reference)
  \<and> (\<exists>t. reference_table_of (buf_of (table_bytes 6 9 2 [4, 1] [11, 12] [replicate 64 1, replicate 64 2] [13, 14] [15, 16])) = Inr t
    \<and> archive_references t ! 5 = \<lparr>name_hash = 0, crc = 0x01010101, whirlpool = Some (replicate 64 1), revision = 0x01010101\<rparr>)"
proof
  let ?z = "replicate 64 0 :: u8 list"
  have "length (table_bytes 7 9 1 [2, 40000] [11, 12] [?z, ?z] [13, 14] [15, 16]) + 64 < size_max"
    by (simp add: table_bytes_def number_bytes_def kFlagIdentifiers_def kFlagWhirlpool_def size_max_def)
  then show "\<exists>t. reference_table_of (buf_of (table_bytes 7 9 1 [2, 40000] [11, 12] [?z, ?z] [13, 14] [15, 16])) = Inr t
    \<and> length (archive_references t) = 40003
    \<and> archive_references t ! 40002 = \<lparr>name_hash = 12, crc = 14, whirlpool = None, revision = 16\<rparr>
    \<and> archive_references t ! 3 = new_reference"
    using reference_table_roundtrip [of 7 "[2, 40000]" "[11, 12]" "[13, 14]" "[15, 16]" "[?z, ?z]" 9 1]
    by (auto simp: number_ok_def less_2_cases_iff kFlagIdentifiers_def kFlagWhirlpool_def)
  let ?d1 = "replicate 64 1 :: u8 list" and ?d2 = "replicate 64 2 :: u8 list"
  have "length (table_bytes 6 9 2 [4, 1] [11, 12] [?d1, ?d2] [13, 14] [15, 16]) + 64 < size_max"
    by (simp add: table_bytes_def number_bytes_def kFlagIdentifiers_def kFlagWhirlpool_def size_max_def)
  moreover have "word_at (concat [?d1, ?d2]) 1 = 0x01010101" "word_at (concat [?d1, ?d2]) 3 = 0x01010101"
    by (simp_all add: word_at_def of_be_def numeral_eq_Suc)
  ultimately show "\<exists>t. reference_table_of (buf_of (table_bytes 6 9 2 [4, 1] [11, 12] [?d1, ?d2] [13, 14] [15, 16])) = Inr t
    \<and> archive_references t ! 5 = \<lparr>name_hash = 0, crc = 0x01010101, whirlpool = Some ?d1, revision = 0x01010101\<rparr>"
    using reference_table_roundtrip [of 6 "[4, 1]" "[11, 12]" "[13, 14]" "[15, 16]" "[?d1, ?d2]" 9 2]
    by (auto simp: number_ok_def all_less_two numeral_3_eq_3 kFlagIdentifiers_def kFlagWhirlpool_def)
qed

end
