(* ===== verification/CacheIndex.thy ===== *)
theory CacheIndex
  imports FileStream Archive RefTable Checksum
begin

text \<open>
  \<open>openrs::cache::Index\<close>, \<open>MainIndex\<close>, \<open>FileStore\<close> and \<open>Cache\<close> (\<open>cache/src/index.cpp\<close>,
  \<open>filestore.cpp\<close>, \<open>cache.cpp\<close> and their headers): an archive is a chain of 520-byte blocks of
  the data file, found through a 6-byte entry of an index file. The streams are shared objects:
  they live in a heap, and an index holds weak pointers to two of them (never the same one: the
  cache opens each file once per stream).
\<close>

section \<open>Indexes and their streams\<close>

type_synonym streams = "nat \<Rightarrow> stream option"

record cache_index =
  data_stream :: "nat option"
  index_stream :: "nat option"
  index_crc :: u32
  index_table :: reference_table
  index_whirlpool :: "u8 list"

definition new_index :: "nat \<Rightarrow> nat \<Rightarrow> cache_index" where
  "new_index kDataStream kIndexStream =
     \<lparr>data_stream = Some kDataStream, index_stream = Some kIndexStream, index_crc = 0,
      index_table = empty_table, index_whirlpool = []\<rparr>"

definition lock :: "nat option \<Rightarrow> streams \<Rightarrow> stream option" where
  "lock w h = (case w of None \<Rightarrow> None | Some k \<Rightarrow> h k)"

definition kIdxBlockLength :: u32 where "kIdxBlockLength = 6"
definition kTotalBlockLength :: u32 where "kTotalBlockLength = 8 + 512"

text \<open>Identifiers above 65535 have a header of ten bytes and 510 bytes of data.\<close>

definition expanded :: "u32 \<Rightarrow> bool" where
  "expanded kArchiveId \<longleftrightarrow> \<not> sint kArchiveId \<le> 65535"

definition kBlockLength :: "u32 \<Rightarrow> u32" where
  "kBlockLength kArchiveId = (if expanded kArchiveId then 510 else 512)"

text \<open>Opening a file: its content, at the start, without failure.\<close>

definition open_stream :: "u8 list \<Rightarrow> stream" where
  "open_stream bs = \<lparr>content = bs, gpos = 0, failed = False, bad = False\<rparr>"

section \<open>Reading an archive\<close>

text \<open>\<open>if (!Read...) return false;\<close> over a stream.\<close>

definition bind_read ::
  "'a option \<times> stream \<Rightarrow> ('a \<Rightarrow> stream \<Rightarrow> 'b option \<times> stream) \<Rightarrow> 'b option \<times> stream" where
  "bind_read m f = (case m of (None, s) \<Rightarrow> (None, s) | (Some x, s) \<Rightarrow> f x s)"

lemma bind_read_simps [simp]:
  "bind_read (None, s) f = (None, s)" "bind_read (Some x, s) f = f x s"
  by (simp_all add: bind_read_def)

definition read_byte :: "stream \<Rightarrow> u8 option \<times> stream" where
  "read_byte s = bind_read (ReadValue 1 s) (\<lambda>bs s. (Some (bs ! 0), s))"

definition GetCompressedUInt32 :: "stream \<Rightarrow> u32 \<times> stream" where
  "GetCompressedUInt32 s =
     (case bind_read (read_byte s) (\<lambda>t2 s. bind_read (read_byte s) (\<lambda>t1 s.
        bind_read (read_byte s) (\<lambda>t0 s.
          (Some (push_bit 16 (ucast t2) OR push_bit 8 (ucast t1) OR ucast t0), s)))) of
        (v, s) \<Rightarrow> (case v of None \<Rightarrow> 0 | Some v \<Rightarrow> v, s))"

text \<open>The header of a block: file, chunk, next block, and the index byte nobody looks at.\<close>

definition read_header :: "u32 \<Rightarrow> stream \<Rightarrow> (u32 \<times> u16 \<times> u32) option \<times> stream" where
  "read_header kArchiveId s =
     bind_read
       (if expanded kArchiveId then ReadValueBE TYPE(32) s
        else bind_read (ReadValueBE TYPE(16) s) (\<lambda>f s. (Some (ucast f), s)))
       (\<lambda>current_file s. bind_read (ReadValueBE TYPE(16) s) (\<lambda>current_chunk s.
          case GetCompressedUInt32 s of (next_block, s) \<Rightarrow>
            bind_read (read_byte s) (\<lambda>current_index s.
              (Some (current_file, current_chunk, next_block), s))))"

lemma chunk_progress:
  fixes a left :: u32
  assumes "left \<noteq> 0"
  defines "k \<equiv> (if left > kBlockLength a then kBlockLength a else left)"
  shows "unat (left - k) = unat left - unat k" "0 < unat k" "unat k \<le> unat left"
    "unat k = min (unat left) (unat (kBlockLength a))"
proof -
  have k: "k \<le> left" by (auto simp: k_def)
  then show "unat (left - k) = unat left - unat k" "unat k \<le> unat left"
    by (simp_all add: unat_sub word_le_nat_alt)
  show "0 < unat k" using assms(1) by (auto simp: k_def kBlockLength_def unat_gt_0)
  show "unat k = min (unat left) (unat (kBlockLength a))"
    by (auto simp: k_def word_less_nat_alt min_def)
qed

text \<open>The loop over the chain. The output is first extended with zeros, then read into: bytes
  the file does not have stay zero, and the read is not checked.\<close>

function read_chunks ::
  "u32 \<Rightarrow> u32 \<Rightarrow> u32 \<Rightarrow> u16 \<Rightarrow> stream \<Rightarrow> u8 list \<Rightarrow> bool \<times> u8 list \<times> stream" where
  "read_chunks kArchiveId left block chunk s out =
     (if left = 0 then (True, out, s)
      else if block = 0 then (False, out, s)
      else
        let kBlockSize = (if left > kBlockLength kArchiveId then kBlockLength kArchiveId else left)
        in case read_header kArchiveId (seekg (unat (block * kTotalBlockLength)) s) of
             (None, s) \<Rightarrow> (False, out, s)
           | (Some (current_file, current_chunk, next_block), s) \<Rightarrow>
               if kArchiveId \<noteq> current_file \<or> chunk \<noteq> current_chunk then (False, out, s)
               else (case stream_read (unat kBlockSize) s of (got, s) \<Rightarrow>
                 read_chunks kArchiveId (left - kBlockSize) next_block (chunk + 1) s
                   (out @ got @ replicate (unat kBlockSize - length got) 0)))"
  by pat_completeness auto

termination
  by (relation "measure (\<lambda>(a, left, _). unat left)")
    (use chunk_progress in \<open>fastforce simp: Let_def\<close>)+

declare read_chunks.simps [simp del]

text \<open>\<open>Index::GetArchiveData\<close>: the answer, the output and the streams. (\<open>kArchiveId + 1\<close> is a
  signed addition, which the largest \<open>int\<close> would overflow.)\<close>

definition GetArchiveData ::
  "cache_index \<Rightarrow> u32 \<Rightarrow> u8 list \<Rightarrow> streams \<Rightarrow> bool \<times> u8 list \<times> streams" where
  "GetArchiveData ix kArchiveId out h =
     (case lock (index_stream ix) h of
        None \<Rightarrow> (False, out, h)
      | Some istream \<Rightarrow>
          if bad istream then (False, out, h)
          else (case lock (data_stream ix) h of
              None \<Rightarrow> (False, out, h)
            | Some dstream \<Rightarrow>
                if bad dstream then (False, out, h)
                else
                  let istream = stream_clear istream; dstream = stream_clear dstream;
                      store = (\<lambda>istream dstream.
                        h(the (index_stream ix) \<mapsto> istream, the (data_stream ix) \<mapsto> dstream))
                  in if GetStreamSize istream < unat ((kArchiveId + 1) * kIdxBlockLength)
                     then (False, out, store istream dstream)
                     else (case GetCompressedUInt32 (seekg (unat (kArchiveId * kIdxBlockLength)) istream) of
                       (kSize, istream) \<Rightarrow> (case GetCompressedUInt32 istream of
                       (block, istream) \<Rightarrow>
                         let kDataBlockCount = of_nat (GetStreamSize dstream div unat kTotalBlockLength) :: u32
                         in if block = 0 \<or> block > kDataBlockCount
                            then (False, out, store istream dstream)
                            else (case read_chunks kArchiveId kSize block 0 dstream out of
                              (ok, out, dstream) \<Rightarrow> (ok, out, store istream dstream))))))"

section \<open>The main index and the cache\<close>

definition archive_count :: "cache_index \<Rightarrow> streams \<Rightarrow> u32" where
  "archive_count ix h =
     (case lock (index_stream ix) h of
        None \<Rightarrow> 0
      | Some s \<Rightarrow> if bad s then 0 else of_nat (GetStreamSize s div 6))"

text \<open>\<open>PopulateIndexMetadata\<close>: checksum, digest and reference table of the archive that describes
  an index. The digest and the decompressor are parameters.\<close>

definition PopulateIndexMetadata ::
  "(u8 list \<Rightarrow> u8 list) \<Rightarrow> (u8 list \<Rightarrow> u8 list res) \<Rightarrow> cache_index \<Rightarrow> u32 \<Rightarrow> cache_index \<Rightarrow> streams
     \<Rightarrow> (cache_index option \<times> streams) res" where
  "PopulateIndexMetadata digest gunzip main kIndexId index h =
     (case GetArchiveData main kIndexId [] h of
        (False, _, h) \<Rightarrow> Inr (None, h)
      | (True, index_data, h) \<Rightarrow>
          bind_res (archive gunzip (buf_of index_data)) (\<lambda>a.
          bind_res (reference_table_of a) (\<lambda>t.
            Inr (Some (index\<lparr>index_crc := crc32c 0 index_data, index_whirlpool := digest index_data,
                   index_table := t\<rparr>), h))))"

record cache =
  cache_streams :: "nat list"
  main_index :: cache_index
  indexes :: "(u32 \<times> cache_index) list"

definition kMetadataId :: u32 where "kMetadataId = 255"

text \<open>The loop of the constructor over the index files; \<open>i\<close> is a 16-bit counter compared with a
  32-bit bound, so the loop need not end. The new stream's name is its number in \<open>streams_\<close>;
  the keys of the map arrive in ascending order.\<close>

partial_function (option) open_indexes ::
  "(string \<Rightarrow> u8 list option) \<Rightarrow> string \<Rightarrow> u16 \<Rightarrow> cache \<times> streams \<Rightarrow> (cache \<times> streams) option" where
  "open_indexes files path i st =
     (if ucast i \<le> archive_count (main_index (fst st)) (snd st)
      then open_indexes files path (i + 1)
             (case files (path @ ''main_file_cache.idx'' @ to_string (unat i)) of
                None \<Rightarrow> st
              | Some bs \<Rightarrow>
                  let c = fst st; k = length (cache_streams c)
                  in (c\<lparr>cache_streams := cache_streams c @ [k],
                        indexes := indexes c @ [(ucast i, new_index 0 k)]\<rparr>,
                      (snd st)(k \<mapsto> open_stream bs)))
      else Some st)"

fun populate_indexes ::
  "(u8 list \<Rightarrow> u8 list) \<Rightarrow> (u8 list \<Rightarrow> u8 list res) \<Rightarrow> cache_index \<Rightarrow> (u32 \<times> cache_index) list \<Rightarrow> streams
     \<Rightarrow> ((u32 \<times> cache_index) list \<times> streams) res" where
  "populate_indexes digest gunzip main [] h = Inr ([], h)"
| "populate_indexes digest gunzip main ((k, ix) # rest) h =
     bind_res (PopulateIndexMetadata digest gunzip main k ix h) (\<lambda>(r, h).
       case r of
         None \<Rightarrow> Inl (Runtime_error ''Failed to calculate cache index information.'')
       | Some ix \<Rightarrow> bind_res (populate_indexes digest gunzip main rest h)
           (\<lambda>(rest, h). Inr ((k, ix) # rest, h)))"

text \<open>The constructor; \<open>None\<close> when it does not return. The check for missing caches can never
  fail: two streams have been added before it.\<close>

definition Cache ::
  "(u8 list \<Rightarrow> u8 list) \<Rightarrow> (u8 list \<Rightarrow> u8 list res) \<Rightarrow> (string \<Rightarrow> u8 list option) \<Rightarrow> string
     \<Rightarrow> (cache \<times> streams) res option" where
  "Cache digest gunzip files path =
     (case files (path @ ''main_file_cache.dat2'') of
        None \<Rightarrow> Some (Inl (Runtime_error ''Could not open main data cache.''))
      | Some dat \<Rightarrow> (case files (path @ ''main_file_cache.idx255'') of
          None \<Rightarrow> Some (Inl (Runtime_error ''Could not open main index cache.''))
        | Some idx \<Rightarrow>
            let h = Map.empty(0 \<mapsto> open_stream dat, 1 \<mapsto> open_stream idx);
                c = \<lparr>cache_streams = [0, 1], main_index = new_index 0 1, indexes = []\<rparr>
            in map_option (\<lambda>(c, h).
                 if length (cache_streams c) \<le> 1
                 then Inl (Runtime_error ''Could not locate any data caches.'')
                 else bind_res (populate_indexes digest gunzip (main_index c) (indexes c) h)
                        (\<lambda>(ixs, h). Inr (c\<lparr>indexes := ixs\<rparr>, h)))
               (open_indexes files path 0 (c, h))))"

definition GetStore :: "cache \<Rightarrow> u32 \<Rightarrow> cache_index res" where
  "GetStore c k =
     (case map_of (indexes c) k of
        None \<Rightarrow> Inl (Runtime_error ''Tried to access an unknown store.'')
      | Some ix \<Rightarrow> Inr ix)"

definition GetTypeCount :: "cache \<Rightarrow> u32" where
  "GetTypeCount c = of_nat (length (indexes c))"

section \<open>The file store\<close>

text \<open>\<open>FileStore\<close> repeats \<open>Index\<close>: the same members, the same \<open>GetArchiveData\<close>.\<close>

record filestore =
  fs_data_stream :: "nat option"
  fs_index_stream :: "nat option"
  fs_crc :: u32
  fs_table :: reference_table
  fs_whirlpool :: "u8 list"

definition FileStore_GetArchiveData ::
  "filestore \<Rightarrow> u32 \<Rightarrow> u8 list \<Rightarrow> streams \<Rightarrow> bool \<times> u8 list \<times> streams" where
  "FileStore_GetArchiveData fs kArchiveId out h =
     (case (lock (fs_index_stream fs) h, lock (fs_data_stream fs) h) of
        (Some istream, Some dstream) \<Rightarrow>
          if bad istream \<or> bad dstream then (False, out, h)
          else
            let istream = stream_clear istream; dstream = stream_clear dstream;
                store = (\<lambda>istream dstream.
                  h(the (fs_index_stream fs) \<mapsto> istream, the (fs_data_stream fs) \<mapsto> dstream))
            in if GetStreamSize istream < unat ((kArchiveId + 1) * 6)
               then (False, out, store istream dstream)
               else (case GetCompressedUInt32 (seekg (unat (kArchiveId * 6)) istream) of
                 (kSize, istream) \<Rightarrow> (case GetCompressedUInt32 istream of
                 (block, istream) \<Rightarrow>
                   if block = 0 \<or> block > of_nat (GetStreamSize dstream div 520)
                   then (False, out, store istream dstream)
                   else (case read_chunks kArchiveId kSize block 0 dstream out of
                     (ok, out, dstream) \<Rightarrow> (ok, out, store istream dstream))))
      | _ \<Rightarrow> (False, out, h))"

definition index_of_store :: "filestore \<Rightarrow> cache_index" where
  "index_of_store fs = \<lparr>data_stream = fs_data_stream fs, index_stream = fs_index_stream fs,
     index_crc = fs_crc fs, index_table = fs_table fs, index_whirlpool = fs_whirlpool fs\<rparr>"

lemma file_store_is_index:
  "FileStore_GetArchiveData fs a out h = GetArchiveData (index_of_store fs) a out h"
  by (auto simp: FileStore_GetArchiveData_def GetArchiveData_def index_of_store_def Let_def
      kIdxBlockLength_def kTotalBlockLength_def split: option.split prod.split)

section \<open>Stored chains\<close>

definition be24 :: "u32 \<Rightarrow> u8 list" where
  "be24 v = [ucast (drop_bit 16 v), ucast (drop_bit 8 v), ucast v]"

definition block_header :: "u32 \<Rightarrow> u16 \<Rightarrow> u32 \<Rightarrow> u8 list" where
  "block_header a c next_block =
     (if expanded a then be_bytes a else be_bytes (ucast a :: u16)) @ be_bytes c @ be24 next_block"

text \<open>The file has, at block \<open>b\<close>, the header, an index byte and the piece of data.\<close>

definition block_holds :: "u8 list \<Rightarrow> u32 \<Rightarrow> u8 list \<Rightarrow> u8 list \<Rightarrow> bool" where
  "block_holds cont b header piece \<longleftrightarrow>
     (let blk = drop (unat b * 520) cont; k = length header
      in take k blk = header \<and> k < length blk \<and> take (length piece) (drop (k + 1) blk) = piece)"

text \<open>The data lies in the blocks \<open>bs\<close>, each but the last full, each naming the next.\<close>

fun stored_chain :: "u8 list \<Rightarrow> u32 \<Rightarrow> nat \<Rightarrow> u32 list \<Rightarrow> u8 list \<Rightarrow> bool" where
  "stored_chain cont a c [] dat \<longleftrightarrow> dat = []"
| "stored_chain cont a c (b # bs) dat \<longleftrightarrow>
     dat \<noteq> [] \<and> b \<noteq> 0 \<and> unat b * 520 < 2 ^ 32
     \<and> (let next_block = (case bs of [] \<Rightarrow> 0 | b' # _ \<Rightarrow> b'); n = unat (kBlockLength a)
        in unat next_block < 2 ^ 24
         \<and> block_holds cont b (block_header a (of_nat c) next_block) (take n dat)
         \<and> stored_chain cont a (c + 1) bs (drop n dat))"

lemma read_byte_at:
  "good_stream s \<Longrightarrow> ahead s = b # rest \<Longrightarrow> read_byte s = (Some b, s\<lparr>gpos := gpos s + 1\<rparr>)"
  by (simp add: read_byte_def ReadValue_ahead)

lemma be24_value: "unat v < 2 ^ 24 \<Longrightarrow>
    push_bit 16 (ucast (ucast (drop_bit 16 v) :: u8)) OR push_bit 8 (ucast (ucast (drop_bit 8 v) :: u8))
      OR ucast (ucast v :: u8) = (v :: u32)"
proof -
  assume v: "unat v < 2 ^ 24"
  have hi: "\<not> bit v k" if "24 \<le> k" for k
  proof
    assume "bit v k"
    then have "bit (unat v) k" by (simp add: bit_unsigned_iff)
    moreover have "take_bit 24 (unat v) = unat v" using v by (simp add: take_bit_nat_eq_self)
    ultimately show False using that by (metis bit_take_bit_iff linorder_not_less)
  qed
  show ?thesis
  proof (rule bit_word_eqI)
    fix i assume "i < LENGTH(32)"
    consider "i < 8" | "8 \<le> i" "i < 16" | "16 \<le> i" "i < 24" | "24 \<le> i" by linarith
    then show "bit (push_bit 16 (ucast (ucast (drop_bit 16 v) :: u8)) OR push_bit 8 (ucast (ucast (drop_bit 8 v) :: u8))
      OR ucast (ucast v :: u8) :: u32) i = bit v i"
      using \<open>i < LENGTH(32)\<close> hi by cases (auto simp: bit_simps)
  qed
qed

lemma GetCompressedUInt32_at:
  assumes "good_stream s" "ahead s = be24 v @ rest" "unat v < 2 ^ 24"
  shows "GetCompressedUInt32 s = (v, s\<lparr>gpos := gpos s + 3\<rparr>)"
proof -
  let ?s1 = "s\<lparr>gpos := gpos s + 1\<rparr>"
  let ?s2 = "?s1\<lparr>gpos := gpos ?s1 + 1\<rparr>"
  have r: "read_byte s = (Some (ucast (drop_bit 16 v)), ?s1)"
    using assms by (intro read_byte_at) (simp_all add: be24_def)
  have a1: "ahead ?s1 = ucast (drop_bit 8 v) # ucast v # rest"
    using assms by (simp only: ahead_advance) (simp add: be24_def)
  then have r1: "read_byte ?s1 = (Some (ucast (drop_bit 8 v)), ?s2)"
    using assms by (intro read_byte_at) simp_all
  have "ahead ?s2 = drop 1 (ahead ?s1)" by (rule ahead_advance)
  then have "ahead ?s2 = ucast v # rest" by (simp only: a1) simp
  then have r2: "read_byte ?s2 = (Some (ucast v), ?s2\<lparr>gpos := gpos ?s2 + 1\<rparr>)"
    using assms by (intro read_byte_at) simp_all
  show ?thesis
    unfolding GetCompressedUInt32_def r bind_read_simps r1 r2
    by (simp only: prod.case option.case be24_value [OF assms(3)]) simp
qed

lemma read_header_at:
  assumes s: "good_stream s" "ahead s = block_header a c n @ x # rest"
    and n: "unat n < 2 ^ 24" and a: "unat a < 2 ^ 31"
  shows "read_header a s = (Some (a, c, n), s\<lparr>gpos := gpos s + length (block_header a c n) + 1\<rparr>)"
proof -
  define k where "k = (if expanded a then 4 else 2 :: nat)"
  let ?f = "if expanded a then ReadValueBE TYPE(32) s
    else bind_read (ReadValueBE TYPE(16) s) (\<lambda>f s. (Some (ucast f), s))"
  let ?s1 = "s\<lparr>gpos := gpos s + k\<rparr>"
  let ?s2 = "?s1\<lparr>gpos := gpos ?s1 + 2\<rparr>"
  let ?s3 = "?s2\<lparr>gpos := gpos ?s2 + 3\<rparr>"
  have u: "ucast (ucast a :: u16) = a" if "\<not> expanded a"
  proof -
    have "unat a < 2147483648" using a by simp
    then have "int (unat a) < 2147483648" by linarith
    then have lt: "uint a < 2 ^ 31" by simp
    have ge: "- (2 ^ 31) \<le> uint a" by (rule order_trans [of _ 0]) simp_all
    have "signed_take_bit 31 (uint a) = uint a"
      using ge lt by (rule signed_take_bit_int_eq_self)
    then have "sint a = uint a" by (simp add: sint_uint)
    then have "uint a < 2 ^ 16" using that by (simp add: expanded_def)
    then have "take_bit 16 (uint a) = uint a" by (intro take_bit_int_eq_self) simp_all
    then have "uint (take_bit 16 a) = uint a" by (simp only: unsigned_take_bit_eq)
    then have "take_bit 16 a = a" by (rule unsigned_word_eqI)
    then show ?thesis by (simp add: word_eq_iff_unsigned unsigned_ucast_eq)
  qed
  have f: "?f = (Some a, ?s1)"
  proof (cases "expanded a")
    case True
    then show ?thesis
      using ReadValueBE_ahead [OF s(1), of a "be_bytes c @ be24 n @ x # rest"] s(2)
      by (simp add: k_def block_header_def)
  next
    case False
    then show ?thesis
      using ReadValueBE_ahead [OF s(1), of "ucast a :: u16" "be_bytes c @ be24 n @ x # rest"] s(2) u
      by (simp add: k_def block_header_def)
  qed
  have "ahead ?s1 = be_bytes c @ be24 n @ x # rest"
    using s(2) unfolding ahead_advance by (simp add: block_header_def k_def)
  note a1 = this
  have c: "ReadValueBE TYPE(16) ?s1 = (Some c, ?s2)"
    using ReadValueBE_ahead [of ?s1 c] a1 s by simp
  have "ahead ?s2 = drop 2 (ahead ?s1)" by (rule ahead_advance)
  then have a2: "ahead ?s2 = be24 n @ x # rest" by (simp only: a1) simp
  have nx: "GetCompressedUInt32 ?s2 = (n, ?s3)"
    using GetCompressedUInt32_at [OF _ a2 n] s by simp
  have "ahead ?s3 = drop 3 (ahead ?s2)" by (rule ahead_advance)
  then have a3: "ahead ?s3 = x # rest" by (simp only: a2) (simp add: be24_def)
  have "read_byte ?s3 = (Some x, ?s3\<lparr>gpos := gpos ?s3 + 1\<rparr>)"
    using read_byte_at [OF _ a3] s by simp
  then have "read_header a s = (Some (a, c, n), ?s3\<lparr>gpos := gpos ?s3 + 1\<rparr>)"
    unfolding read_header_def f bind_read_simps c nx prod.case by (simp only: bind_read_simps)
  moreover have "length (block_header a c n) = k + 5" by (simp add: block_header_def k_def be24_def)
  ultimately show ?thesis by (simp add: add.assoc)
qed

lemma kBlockLength_unat: "unat (kBlockLength a) = (if expanded a then 510 else 512)"
  by (simp add: kBlockLength_def)

lemma read_chunks_chain:
  assumes "stored_chain (content s) a c bs dat" "good_stream s" "unat a < 2 ^ 31"
    and "length dat < 2 ^ 24"
  shows "\<exists>s'. read_chunks a (of_nat (length dat)) (case bs of [] \<Rightarrow> 0 | b # _ \<Rightarrow> b) (of_nat c) s out
    = (True, out @ dat, s')"
  using assms
proof (induction bs arbitrary: c dat s out)
  case Nil
  then show ?case by (simp add: read_chunks.simps)
next
  case (Cons b bs)
  define nxt where "nxt = (case bs of [] \<Rightarrow> 0 :: u32 | b' # _ \<Rightarrow> b')"
  define n where "n = unat (kBlockLength a)"
  define hdr where "hdr = block_header a (of_nat c) nxt"
  let ?left = "of_nat (length dat) :: u32"
  let ?k = "if ?left > kBlockLength a then kBlockLength a else ?left"
  let ?s1 = "s\<lparr>gpos := unat b * 520\<rparr>"
  let ?s2 = "?s1\<lparr>gpos := gpos ?s1 + length hdr + 1\<rparr>"
  have dat: "dat \<noteq> []" "b \<noteq> 0" "unat b * 520 < 2 ^ 32" "unat nxt < 2 ^ 24"
    and holds: "block_holds (content s) b hdr (take n dat)"
    and rest: "stored_chain (content s) a (c + 1) bs (drop n dat)"
    using Cons.prems(1) by (simp_all add: nxt_def n_def hdr_def Let_def)
  have ul: "unat ?left = length dat" using Cons.prems(4) by (simp add: unat_of_nat)
  then have "?left \<noteq> 0" using dat(1) by auto
  note k = chunk_progress [OF this, of a]
  have kn: "unat ?k = length (take n dat)" using k(4) ul by (simp add: n_def min.commute)
  have seek: "seekg (unat (b * kTotalBlockLength)) s = ?s1"
  proof -
    have "unat (b * kTotalBlockLength) = unat b * 520"
      using dat(3) by (simp add: unat_word_ariths kTotalBlockLength_def)
    then show ?thesis using Cons.prems(2) by (simp add: seekg_good)
  qed
  have "\<exists>x t. ahead ?s1 = hdr @ x # take n dat @ t"
  proof -
    let ?blk = "drop (unat b * 520) (content s)"
    have h: "take (length hdr) ?blk = hdr" "length hdr < length ?blk"
      "take (length (take n dat)) (drop (length hdr + 1) ?blk) = take n dat"
      using holds by (simp_all add: block_holds_def Let_def)
    have "?blk = hdr @ drop (length hdr) ?blk" using h(1) by (metis append_take_drop_id)
    moreover obtain x y where xy: "drop (length hdr) ?blk = x # y" using h(2) by (cases "drop (length hdr) ?blk") auto
    moreover have "y = drop (length hdr + 1) ?blk"
    proof -
      have "drop (length hdr + 1) ?blk = drop 1 (drop (length hdr) ?blk)" by (simp add: add.commute)
      then show ?thesis by (simp only: xy) simp
    qed
    then have "y = take n dat @ drop (length (take n dat)) y" using h(3) by (metis append_take_drop_id)
    ultimately show ?thesis by (auto simp: ahead_def)
  qed
  then obtain x t where ah: "ahead ?s1 = hdr @ x # take n dat @ t" by blast
  have hd: "read_header a ?s1 = (Some (a, of_nat c, nxt), ?s2)"
    using read_header_at [of ?s1 a "of_nat c" nxt x] ah Cons.prems(2,3) dat(4) by (simp add: hdr_def)
  have "ahead ?s2 = drop (length hdr + 1) (ahead ?s1)"
    using ahead_advance [of ?s1 "length hdr + 1"] by (simp add: add.assoc)
  then have ah2: "ahead ?s2 = take n dat @ t" unfolding ah by simp
  have rd: "stream_read (unat ?k) ?s2 = (take n dat, ?s2\<lparr>gpos := gpos ?s2 + unat ?k\<rparr>)"
  proof -
    have "unat ?k \<le> length (ahead ?s2)" unfolding ah2 kn by simp
    moreover have "good_stream ?s2" using Cons.prems(2) by simp
    moreover have "take (unat ?k) (take n dat @ t) = take n dat"
      unfolding kn by (metis append_eq_conv_conj)
    ultimately show ?thesis using read_ahead [of ?s2 "unat ?k"] unfolding ah2 by (simp only: simp_thms not_False_eq_True)
  qed
  have full: "replicate (unat ?k - length (take n dat)) (0 :: u8) = []" unfolding kn by simp
  let ?s3 = "?s2\<lparr>gpos := gpos ?s2 + unat ?k\<rparr>"
  have left: "?left - ?k = of_nat (length (drop n dat))"
  proof (rule unsigned_word_eqI)
    show "unat (?left - ?k) = unat (of_nat (length (drop n dat)) :: u32)"
      using k(1) kn ul Cons.prems(4) by (simp add: unat_of_nat)
  qed
  have ch: "(of_nat c :: u16) + 1 = of_nat (c + 1)" by simp
  have "read_chunks a ?left b (of_nat c) s out
      = read_chunks a (of_nat (length (drop n dat))) nxt (of_nat (c + 1)) ?s3 (out @ take n dat)"
    using dat \<open>?left \<noteq> 0\<close>
    by (subst read_chunks.simps) (simp only: Let_def seek hd rd left ch full prod.case option.case
        if_False simp_thms not_True_eq_False append_Nil2)
  moreover have "\<exists>s'. read_chunks a (of_nat (length (drop n dat))) nxt (of_nat (c + 1)) ?s3 (out @ take n dat)
      = (True, (out @ take n dat) @ drop n dat, s')"
    unfolding nxt_def using Cons.IH [of ?s3 "c + 1" "drop n dat" "out @ take n dat"] rest Cons.prems(2-4)
    by simp
  ultimately show ?case by simp
qed

lemma archive_chain_answer:
  assumes chain: "stored_chain (content ds) a 0 bs dat" "bs \<noteq> []"
    and streams: "index_stream ix = Some i" "data_stream ix = Some d" "h i = Some istr" "h d = Some ds"
      "\<not> bad istr" "\<not> bad ds"
    and entry: "take 6 (drop (6 * unat a) (content istr)) = be24 (of_nat (length dat)) @ be24 (hd bs)"
    and bounds: "unat a < 2 ^ 24" "length dat < 2 ^ 24" "unat (hd bs) < 2 ^ 24"
      "unat (hd bs) \<le> length (content ds) div 520" "length (content ds) div 520 < 2 ^ 32"
  shows "\<exists>h'. GetArchiveData ix a out h = (True, out @ dat, h')"
proof -
  let ?n = "of_nat (length dat) :: u32" and ?b = "hd bs"
  let ?i0 = "stream_clear istr" and ?d0 = "stream_clear ds"
  let ?i1 = "?i0\<lparr>gpos := 6 * unat a\<rparr>"
  let ?i2 = "?i1\<lparr>gpos := gpos ?i1 + 3\<rparr>"
  let ?i3 = "?i2\<lparr>gpos := gpos ?i2 + 3\<rparr>"
  have un: "unat ?n = length dat" "unat ?n < 2 ^ 24" using bounds(2) by (simp_all add: unat_of_nat)
  have len6: "length (take 6 (drop (6 * unat a) (content istr))) = 6"
    unfolding entry by (simp add: be24_def)
  then have fit: "6 * unat a + 6 \<le> length (content istr)" by simp
  have a6: "unat (a * kIdxBlockLength) = 6 * unat a" "unat ((a + 1) * kIdxBlockLength) = 6 * unat a + 6"
    using bounds(1) by (simp_all add: unat_word_ariths kIdxBlockLength_def)
  have seek: "seekg (unat (a * kIdxBlockLength)) ?i0 = ?i1" by (simp add: seekg_good a6)
  have "ahead ?i1 = take 6 (drop (6 * unat a) (content istr)) @ drop 6 (drop (6 * unat a) (content istr))"
    by (simp only: ahead_def append_take_drop_id) simp
  then have ah1: "ahead ?i1 = be24 ?n @ be24 ?b @ drop 6 (drop (6 * unat a) (content istr))"
    by (simp only: entry append_assoc)
  have g1: "GetCompressedUInt32 ?i1 = (?n, ?i2)"
    using GetCompressedUInt32_at [OF _ ah1 un(2)] by simp
  have "ahead ?i2 = drop 3 (ahead ?i1)" by (rule ahead_advance)
  then have "ahead ?i2 = be24 ?b @ drop 6 (drop (6 * unat a) (content istr))"
    by (simp only: ah1) (simp add: be24_def)
  then have g2: "GetCompressedUInt32 ?i2 = (?b, ?i3)"
    using GetCompressedUInt32_at [of ?i2 ?b] bounds(3) by simp
  obtain b bs' where bs: "bs = b # bs'" using chain(2) by (cases bs) auto
  obtain d' where rc: "read_chunks a ?n ?b 0 ?d0 out = (True, out @ dat, d')"
    using read_chunks_chain [of ?d0 a 0 bs dat out] chain(1) bounds(1,2) by (auto simp: bs)
  have "?b \<noteq> 0" using chain(1) by (simp add: bs)
  moreover have "\<not> ?b > (of_nat (length (content ds) div 520) :: u32)"
    using bounds(4,5) by (simp add: word_less_nat_alt unat_of_nat)
  moreover have "\<not> GetStreamSize ?i0 < unat ((a + 1) * kIdxBlockLength)"
    using fit by (simp add: GetStreamSize_def stream_fail_def a6)
  moreover have "GetStreamSize ?d0 div unat kTotalBlockLength = length (content ds) div 520"
    by (simp add: GetStreamSize_def stream_fail_def kTotalBlockLength_def)
  ultimately show ?thesis
    using streams by (simp add: GetArchiveData_def lock_def Let_def seek g1 g2 [simplified] rc)
qed

text \<open>Property C1. An archive that is stored in the format of the cache files, as a chain of blocks
  whose headers name the archive, the number of the chunk and the next block, is read back
  byte for byte, whatever else the files hold.\<close>

theorem archive_chain_read:
  assumes chain: "stored_chain (content ds) a 0 bs dat" "bs \<noteq> []"
    and streams: "index_stream ix = Some i" "data_stream ix = Some d" "h i = Some istr" "h d = Some ds"
      "\<not> bad istr" "\<not> bad ds"
    and entry: "take 6 (drop (6 * unat a) (content istr)) = be24 (of_nat (length dat)) @ be24 (hd bs)"
    and bounds: "unat a < 2 ^ 24" "length dat < 2 ^ 24" "unat (hd bs) < 2 ^ 24"
      "unat (hd bs) \<le> length (content ds) div 520" "length (content ds) div 520 < 2 ^ 32"
  shows "\<exists>h'. GetArchiveData ix a out h = (True, out @ dat, h')"
  using assms by (rule archive_chain_answer)

text \<open>Files with one archive, number 1, of two bytes in block 1.\<close>

definition tiny_data :: stream where
  "tiny_data = open_stream (replicate 520 0 @ [0, 1, 0, 0, 0, 0, 0, 255, 7, 8] @ replicate 510 0)"

definition tiny_files :: streams where
  "tiny_files = [0 \<mapsto> tiny_data, 1 \<mapsto> open_stream ([0, 0, 0, 0, 0, 0] @ [0, 0, 2, 0, 0, 1])]"

lemma tiny_chain: "stored_chain (content tiny_data) 1 0 [1] [7, 8]"
proof -
  have "\<not> expanded 1" by (simp add: expanded_def)
  then show ?thesis
    by (simp add: tiny_data_def open_stream_def block_holds_def block_header_def be24_def
        be_bytes_u16 Let_def kBlockLength_unat)
qed

lemma tiny_answer: "\<exists>h'. GetArchiveData (new_index 0 1) 1 [9] tiny_files = (True, [9, 7, 8], h')"
  using archive_chain_answer [of tiny_data 1 "[1]" "[7, 8]" "new_index 0 1" 1 0 tiny_files
      "open_stream ([0, 0, 0, 0, 0, 0] @ [0, 0, 2, 0, 0, 1])" "[9]"] tiny_chain
  by (simp add: tiny_files_def tiny_data_def new_index_def open_stream_def be24_def)

theorem archive_chain_read_witness:
  "\<exists>h'. GetArchiveData (new_index 0 1) 1 [9] tiny_files = (True, [9, 7, 8], h')"
  using archive_chain_read [of tiny_data 1 "[1]" "[7, 8]" "new_index 0 1" 1 0 tiny_files
      "open_stream ([0, 0, 0, 0, 0, 0] @ [0, 0, 2, 0, 0, 1])" "[9]"] tiny_chain
  by (simp add: tiny_files_def tiny_data_def new_index_def open_stream_def be24_def)

section \<open>What every read keeps\<close>

definition file_of :: "stream \<Rightarrow> u8 list \<times> bool" where
  "file_of s = (content s, bad s)"

lemma file_of_simps [simp]:
  "file_of (s\<lparr>gpos := n\<rparr>) = file_of s" "file_of (s\<lparr>failed := f\<rparr>) = file_of s"
  "file_of (seekg n s) = file_of s" "\<not> bad s \<Longrightarrow> file_of (stream_clear s) = file_of s"
  by (simp_all add: file_of_def seekg_def stream_clear_def)

lemma file_of_read [simp]: "file_of (snd (stream_read n s)) = file_of s"
  by (simp add: stream_read_def Let_def file_of_def)

lemma file_of_ReadValue [simp]: "file_of (snd (ReadValue n s)) = file_of s"
  by (simp add: ReadValue_def split_beta)

lemma file_of_bind_read:
  "file_of (snd m) = t \<Longrightarrow> (\<And>x s. file_of s = t \<Longrightarrow> file_of (snd (f x s)) = t)
    \<Longrightarrow> file_of (snd (bind_read m f)) = t"
  by (auto simp: bind_read_def split: prod.split option.split)

lemma file_of_read_byte [simp]: "file_of (snd (read_byte s)) = file_of s"
  by (auto simp: read_byte_def intro!: file_of_bind_read)

lemma file_of_ReadValueBE [simp]: "file_of (snd (ReadValueBE t s)) = file_of s"
  for t :: "'a::len itself"
  unfolding ReadValueBE_def
  by (cases "ReadValue (LENGTH('a) div 8) s"; cases "fst (ReadValue (LENGTH('a) div 8) s)")
    (use file_of_ReadValue [of "LENGTH('a) div 8" s] in simp_all)

lemma file_of_GetCompressedUInt32 [simp]: "file_of (snd (GetCompressedUInt32 s)) = file_of s"
  unfolding GetCompressedUInt32_def
  by (simp add: split_beta) (intro file_of_bind_read; simp)

lemma file_of_read_header [simp]: "file_of (snd (read_header a s)) = file_of s"
  unfolding read_header_def split_beta
  by (intro file_of_bind_read) (auto intro!: file_of_bind_read)

lemma read_chunks_keeps:
  "file_of (snd (snd (read_chunks a left b c s out))) = file_of s
   \<and> (\<exists>d. fst (snd (read_chunks a left b c s out)) = out @ d
        \<and> (fst (read_chunks a left b c s out) \<longrightarrow> length d = unat left))"
proof (induction a left b c s out rule: read_chunks.induct)
  case (1 a left b c s out)
  show ?case
  proof (cases "left = 0 \<or> b = 0")
    case True
    then show ?thesis by (subst (1 2 3) read_chunks.simps) auto
  next
    case False
    let ?k = "if left > kBlockLength a then kBlockLength a else left"
    let ?s0 = "seekg (unat (b * kTotalBlockLength)) s"
    obtain r s1 where h: "read_header a ?s0 = (r, s1)" by fastforce
    have f1: "file_of s1 = file_of s" using file_of_read_header [of a ?s0] h by simp
    show ?thesis
    proof (cases r)
      case None
      with False h f1 show ?thesis by (subst (1 2 3) read_chunks.simps) (simp add: Let_def)
    next
      case (Some t)
      obtain f e n where t: "t = (f, e, n)" by (metis prod_cases3)
      show ?thesis
      proof (cases "a \<noteq> f \<or> c \<noteq> e")
        case True
        with False h f1 Some t show ?thesis by (subst (1 2 3) read_chunks.simps) (simp add: Let_def)
      next
        case ok: False
        obtain got s2 where g: "stream_read (unat ?k) s1 = (got, s2)" by fastforce
        let ?d = "got @ replicate (unat ?k - length got) 0"
        have f2: "file_of s2 = file_of s" using file_of_read [of "unat ?k" s1] g f1 by simp
        have "length got \<le> unat ?k" using g by (auto simp: stream_read_def Let_def split: if_splits)
        then have ld: "length ?d = unat ?k" by simp
        have "read_chunks a left b c s out = read_chunks a (left - ?k) n (c + 1) s2 (out @ ?d)"
          using False ok h Some t g by (subst read_chunks.simps) (simp add: Let_def)
        moreover have "file_of (snd (snd (read_chunks a (left - ?k) n (c + 1) s2 (out @ ?d)))) = file_of s2 \<and>
          (\<exists>d. fst (snd (read_chunks a (left - ?k) n (c + 1) s2 (out @ ?d))) = (out @ ?d) @ d \<and>
            (fst (read_chunks a (left - ?k) n (c + 1) s2 (out @ ?d)) \<longrightarrow> length d = unat (left - ?k)))"
          by (rule "1.IH") (use False ok h Some t g in auto)
        moreover have "unat (left - ?k) + unat ?k = unat left"
          using chunk_progress [of left a] False by simp
        ultimately show ?thesis using f2 ld by (auto simp: add.commute)
      qed
    qed
  qed
qed

section \<open>Answers depend on the files only\<close>

text \<open>The answer of \<open>GetArchiveData\<close> as a function of the contents of the two files.\<close>

definition archive_answer :: "u32 \<Rightarrow> u8 list \<Rightarrow> u8 list \<Rightarrow> u8 list \<Rightarrow> bool \<times> u8 list" where
  "archive_answer a out idx dat =
     (if length idx < unat ((a + 1) * kIdxBlockLength) then (False, out)
      else (case GetCompressedUInt32 (seekg (unat (a * kIdxBlockLength)) (open_stream idx)) of
        (kSize, istream) \<Rightarrow>
          let block = fst (GetCompressedUInt32 istream)
          in if block = 0 \<or> block > of_nat (length dat div unat kTotalBlockLength) then (False, out)
             else (case read_chunks a kSize block 0 (open_stream dat) out of (ok, out, _) \<Rightarrow> (ok, out))))"

lemma seekg_clear: "seekg n (stream_clear s) = seekg n (open_stream (content s))"
  by (cases s) (simp add: seekg_def stream_clear_def open_stream_def stream_fail_def)

lemma read_chunks_clear:
  "fst (read_chunks a l b c (stream_clear s) out) = fst (read_chunks a l b c (open_stream (content s)) out)"
  "fst (snd (read_chunks a l b c (stream_clear s) out))
     = fst (snd (read_chunks a l b c (open_stream (content s)) out))"
  unfolding read_chunks.simps [of a l b c "stream_clear s" out]
    read_chunks.simps [of a l b c "open_stream (content s)" out] seekg_clear
  by (cases "l = 0 \<or> b = 0"; auto)+

lemma GetStreamSize_clear [simp]: "GetStreamSize (stream_clear s) = length (content s)"
  by (simp add: GetStreamSize_def stream_fail_def)

lemma GetArchiveData_answer:
  "(case GetArchiveData ix a out h of (ok, out', _) \<Rightarrow> (ok, out')) =
     (case (lock (index_stream ix) h, lock (data_stream ix) h) of
        (Some i, Some d) \<Rightarrow>
          if bad i \<or> bad d then (False, out) else archive_answer a out (content i) (content d)
      | _ \<Rightarrow> (False, out))"
proof (cases "lock (index_stream ix) h")
  case (Some i)
  show ?thesis
  proof (cases "lock (data_stream ix) h")
    case (Some d)
    obtain n is1 where g1: "GetCompressedUInt32 (seekg (unat (a * kIdxBlockLength)) (open_stream (content i))) = (n, is1)"
      by fastforce
    obtain b is2 where g2: "GetCompressedUInt32 is1 = (b, is2)" by fastforce
    obtain x y z where r: "read_chunks a n b 0 (stream_clear d) out = (x, y, z)" by (metis prod_cases3)
    obtain x' y' z' where r': "read_chunks a n b 0 (open_stream (content d)) out = (x', y', z')"
      by (metis prod_cases3)
    have "x = x'" "y = y'"
      using read_chunks_clear [of a n b 0 d out] r r' by simp_all
    then show ?thesis
      using Some \<open>lock (index_stream ix) h = Some i\<close> g1 g2 r r'
      by (simp add: GetArchiveData_def archive_answer_def Let_def seekg_clear)
  qed (simp add: GetArchiveData_def Some)
qed (simp add: GetArchiveData_def)

definition same_files :: "streams \<Rightarrow> streams \<Rightarrow> bool" where
  "same_files h h' \<longleftrightarrow> (\<forall>k. map_option file_of (h k) = map_option file_of (h' k))"

lemma same_files_refl [simp]: "same_files h h"
  by (simp add: same_files_def)

lemma same_files_trans: "same_files h h' \<Longrightarrow> same_files h' h'' \<Longrightarrow> same_files h h''"
  by (simp add: same_files_def)

lemma same_files_upd:
  "h i = Some s \<Longrightarrow> h d = Some t \<Longrightarrow> file_of s' = file_of s \<Longrightarrow> file_of t' = file_of t
    \<Longrightarrow> same_files h (h(i \<mapsto> s', d \<mapsto> t'))"
  by (simp add: same_files_def)

lemma file_of_fst: "GetCompressedUInt32 s = (n, s') \<Longrightarrow> file_of s' = file_of s"
  using file_of_GetCompressedUInt32 [of s] by simp

lemma GetArchiveData_keeps: "same_files h (snd (snd (GetArchiveData ix a out h)))"
proof (cases "lock (index_stream ix) h")
  case (Some i)
  show ?thesis
  proof (cases "lock (data_stream ix) h")
    case (Some d)
    show ?thesis
    proof (cases "bad i \<or> bad d")
      case False
      let ?s = "seekg (unat (a * kIdxBlockLength)) (stream_clear i)"
      obtain ki kd where k: "index_stream ix = Some ki" "data_stream ix = Some kd" "h ki = Some i" "h kd = Some d"
        using Some \<open>lock (index_stream ix) h = Some i\<close> by (auto simp: lock_def split: option.splits)
      obtain n is1 where g1: "GetCompressedUInt32 ?s = (n, is1)" by fastforce
      obtain b is2 where g2: "GetCompressedUInt32 is1 = (b, is2)" by fastforce
      obtain x y z where r: "read_chunks a n b 0 (stream_clear d) out = (x, y, z)" by (metis prod_cases3)
      have "file_of is2 = file_of i" "file_of z = file_of d"
        using file_of_fst [OF g1] file_of_fst [OF g2] False
          read_chunks_keeps [of a n b 0 "stream_clear d" out] r by simp_all
      then show ?thesis
        using False k g1 g2 r by (auto simp: GetArchiveData_def lock_def Let_def intro!: same_files_upd)
    qed (auto simp: GetArchiveData_def Some \<open>lock (index_stream ix) h = Some i\<close>)
  qed (simp add: GetArchiveData_def Some)
qed (simp add: GetArchiveData_def)

lemma same_files_answer:
  assumes "same_files h h'"
  shows "(case GetArchiveData ix a out h of (ok, out', _) \<Rightarrow> (ok, out'))
    = (case GetArchiveData ix a out h' of (ok, out', _) \<Rightarrow> (ok, out'))"
proof -
  have l: "map_option file_of (lock w h) = map_option file_of (lock w h')" for w
    using assms by (simp add: lock_def same_files_def split: option.split)
  show ?thesis
    unfolding GetArchiveData_answer
    using l [of "index_stream ix"] l [of "data_stream ix"]
    by (auto simp: file_of_def split: option.split)
qed

text \<open>A sequence of reads through any indexes, and the streams it leaves.\<close>

definition after_reads :: "(cache_index \<times> u32) list \<Rightarrow> streams \<Rightarrow> streams" where
  "after_reads reads h = fold (\<lambda>(ix, a) h. snd (snd (GetArchiveData ix a [] h))) reads h"

lemma after_reads_same: "same_files h (after_reads reads h)"
  unfolding after_reads_def
proof (induction reads arbitrary: h)
  case (Cons r rs)
  obtain ix a where "r = (ix, a)" by fastforce
  then show ?case using Cons GetArchiveData_keeps same_files_trans by fastforce
qed simp

text \<open>Property C21. The streams are shared and stateful, but the cache answers as if it were
  immutable: whatever archives have been read before, successfully or not, a read gives the
  same answer and the same bytes.\<close>

theorem archive_reads_are_stable:
  "(case GetArchiveData ix a out (after_reads reads h) of (ok, out', _) \<Rightarrow> (ok, out'))
    = (case GetArchiveData ix a out h of (ok, out', _) \<Rightarrow> (ok, out'))"
  by (rule same_files_answer [OF after_reads_same, symmetric])

lemma GetCompressedUInt32_bound: "unat (fst (GetCompressedUInt32 s)) < 2 ^ 24"
proof -
  have "unat (push_bit 16 (ucast t2) OR push_bit 8 (ucast t1) OR ucast t0 :: u32) < 2 ^ 24" for t2 t1 t0 :: u8
  proof -
    let ?v = "push_bit 16 (ucast t2) OR push_bit 8 (ucast t1) OR ucast t0 :: u32"
    have tb: "take_bit 24 ?v = ?v"
    proof (rule bit_word_eqI)
      fix i
      have high: "\<not> bit t k" if "8 \<le> k" for t :: u8 and k using bit_imp_le_length [of t k] that by auto
      show "bit (take_bit 24 ?v) i = bit ?v i"
      proof (cases "i < 24")
        case False
        then have "\<not> bit t2 (i - 16)" "\<not> bit t1 (i - 8)" "\<not> bit t0 i" by (simp_all add: high)
        then show ?thesis
          using False by (simp only: bit_take_bit_iff bit_or_iff bit_push_bit_iff bit_ucast_iff) simp
      qed (simp only: bit_take_bit_iff simp_thms)
    qed
    have "unat (take_bit 24 ?v) < 2 ^ 24"
      by (simp only: unsigned_take_bit_eq take_bit_nat_less_exp)
    then show ?thesis by (simp only: tb)
  qed
  then show ?thesis
    unfolding GetCompressedUInt32_def bind_read_def
    by (auto split: prod.split option.split simp: fst_def)
qed

text \<open>Property C35. Whatever the files hold, a read returns (the loop ends) with the output it was
  given extended, never shortened or overwritten; a successful read has appended exactly the
  number of bytes the index entry announces, less than 16 MiB.\<close>

theorem GetArchiveData_extends:
  "\<exists>d. fst (snd (GetArchiveData ix a out h)) = out @ d
    \<and> (fst (GetArchiveData ix a out h) \<longrightarrow> length d < 2 ^ 24
        \<and> (\<exists>i. lock (index_stream ix) h = Some i \<and> length d = unat (fst (GetCompressedUInt32
              (seekg (unat (a * kIdxBlockLength)) (open_stream (content i)))))))"
proof -
  obtain ok out' h' where g: "GetArchiveData ix a out h = (ok, out', h')" by (metis prod_cases3)
  have e: "(ok, out') = (case (lock (index_stream ix) h, lock (data_stream ix) h) of
        (Some i, Some d) \<Rightarrow>
          if bad i \<or> bad d then (False, out) else archive_answer a out (content i) (content d)
      | _ \<Rightarrow> (False, out))"
    using GetArchiveData_answer [of ix a out h] g by simp
  have answer: "\<exists>d. snd (archive_answer a out idx dat) = out @ d \<and> (fst (archive_answer a out idx dat)
      \<longrightarrow> length d = unat (fst (GetCompressedUInt32 (seekg (unat (a * kIdxBlockLength)) (open_stream idx)))))"
    for idx dat
  proof -
    obtain n s1 where n: "GetCompressedUInt32 (seekg (unat (a * kIdxBlockLength)) (open_stream idx)) = (n, s1)"
      by fastforce
    show ?thesis
      using read_chunks_keeps [of a n "fst (GetCompressedUInt32 s1)" 0 "open_stream dat" out]
      by (auto simp: archive_answer_def n Let_def split_beta)
  qed
  show ?thesis
    using e answer GetCompressedUInt32_bound unfolding g
    by (auto split: option.splits if_splits) (metis fst_conv snd_conv)+
qed

theorem GetArchiveData_extends_witness:
  "\<exists>d. fst (snd (GetArchiveData (new_index 0 1) 1 [9] tiny_files)) = [9] @ d \<and> length d < 2 ^ 24"
  using GetArchiveData_extends [of "new_index 0 1" 1 "[9]" tiny_files] tiny_answer by auto

section \<open>The constructor of the cache\<close>

lemma archive_count_opened:
  "h 1 = Some (open_stream idx) \<Longrightarrow> archive_count (new_index 0 1) h = of_nat (length idx div 6)"
  by (simp add: archive_count_def new_index_def lock_def open_stream_def GetStreamSize_def stream_fail_def)

text \<open>The state of the loop: the main index stays, and new streams get new names.\<close>

definition opened :: "u8 list \<Rightarrow> u8 list \<Rightarrow> cache \<times> streams \<Rightarrow> bool" where
  "opened dat idx st \<longleftrightarrow> main_index (fst st) = new_index 0 1 \<and> 2 \<le> length (cache_streams (fst st))
     \<and> snd st 0 = Some (open_stream dat) \<and> snd st 1 = Some (open_stream idx)"

definition open_index ::
  "(string \<Rightarrow> u8 list option) \<Rightarrow> string \<Rightarrow> u16 \<Rightarrow> cache \<times> streams \<Rightarrow> cache \<times> streams" where
  "open_index files path i st =
     (case files (path @ ''main_file_cache.idx'' @ to_string (unat i)) of
        None \<Rightarrow> st
      | Some bs \<Rightarrow>
          let c = fst st; k = length (cache_streams c)
          in (c\<lparr>cache_streams := cache_streams c @ [k],
                indexes := indexes c @ [(ucast i, new_index 0 k)]\<rparr>,
              (snd st)(k \<mapsto> open_stream bs)))"

lemma open_indexes_unfold:
  "open_indexes files path i st =
     (if ucast i \<le> archive_count (main_index (fst st)) (snd st)
      then open_indexes files path (i + 1) (open_index files path i st) else Some st)"
  by (subst open_indexes.simps) (simp add: open_index_def)

lemma opened_step [wf_intros]: "opened dat idx st \<Longrightarrow> opened dat idx (open_index files path i st)"
  by (auto simp: opened_def open_index_def Let_def split: option.split)

lemma opened_count: "opened dat idx st \<Longrightarrow> archive_count (main_index (fst st)) (snd st) = of_nat (length idx div 6)"
  unfolding opened_def by (elim conjE) (simp only: archive_count_opened)

lemma open_indexes_diverges:
  assumes "65535 \<le> length idx div 6" "length idx div 6 < 2 ^ 32"
    and "open_indexes files path i st = Some r"
  shows "\<not> opened dat idx st"
  using assms(3)
proof (rule open_indexes.raw_induct [where P = "\<lambda>_ _ _ st _. \<not> opened dat idx st", rotated])
  fix loop :: "(string \<Rightarrow> u8 list option) \<Rightarrow> string \<Rightarrow> u16 \<Rightarrow> cache \<times> streams \<Rightarrow> (cache \<times> streams) option"
    and files path i st r
  assume IH: "\<And>files path i st r. loop files path i st = Some r \<Longrightarrow> \<not> opened dat idx st"
    and eq: "(if ucast i \<le> archive_count (main_index (fst st)) (snd st)
      then loop files path (i + 1)
             (case files (path @ ''main_file_cache.idx'' @ to_string (unat i)) of
                None \<Rightarrow> st
              | Some bs \<Rightarrow>
                  let c = fst st; k = length (cache_streams c)
                  in (c\<lparr>cache_streams := cache_streams c @ [k],
                        indexes := indexes c @ [(ucast i, new_index 0 k)]\<rparr>,
                      (snd st)(k \<mapsto> open_stream bs)))
      else Some st) = Some r"
  show "\<not> opened dat idx st"
  proof
    assume o: "opened dat idx st"
    have "unat (ucast i :: u32) \<le> unat (of_nat (length idx div 6) :: u32)"
    proof -
      have "unat (ucast i :: u32) = unat i" by simp
      moreover have "unat i < 65536" using unsigned_less [of i] by simp
      ultimately show ?thesis using assms by (simp add: unat_of_nat)
    qed
    then have c: "ucast i \<le> archive_count (main_index (fst st)) (snd st)"
      by (simp add: opened_count [OF o] word_le_nat_alt)
    then have "loop files path (i + 1) (open_index files path i st) = Some r"
      using eq unfolding open_index_def by (simp only: if_True)
    then have "\<not> opened dat idx (open_index files path i st)" by (rule IH)
    then show False using opened_step [OF o] by simp
  qed
qed

lemma open_indexes_returns:
  assumes n: "length idx div 6 < 65535" and o: "opened dat idx st"
  shows "\<exists>st'. open_indexes files path i st = Some st' \<and> opened dat idx st'"
  using o
proof (induction "65536 - unat i" arbitrary: i st rule: less_induct)
  case less
  let ?n = "length idx div 6"
  have cnt: "unat (of_nat ?n :: u32) = ?n" using n by (simp add: unat_of_nat)
  have ui: "unat (ucast i :: u32) = unat i" by simp
  show ?case
  proof (cases "unat i \<le> ?n")
    case True
    then have le: "ucast i \<le> archive_count (main_index (fst st)) (snd st)"
      using cnt ui by (simp add: opened_count [OF less.prems] word_le_nat_alt)
    have "unat (i + 1) = unat i + 1" using True n by (simp add: unat_word_ariths)
    then have "65536 - unat (i + 1) < 65536 - unat i" using True n by linarith
    with le show ?thesis
      using less.hyps [OF _ opened_step [OF less.prems]] by (subst open_indexes_unfold) simp
  next
    case False
    then have "\<not> ucast i \<le> archive_count (main_index (fst st)) (snd st)"
      using cnt ui by (simp add: opened_count [OF less.prems] word_le_nat_alt)
    then show ?thesis using less.prems by (subst open_indexes_unfold) simp
  qed
qed

lemma Cache_returns:
  assumes "files (path @ ''main_file_cache.dat2'') = Some dat"
    and "files (path @ ''main_file_cache.idx255'') = Some idx" and "length idx div 6 < 2 ^ 32"
  shows "Cache digest gunzip files path \<noteq> None \<longleftrightarrow> length idx div 6 < 65535"
proof -
  let ?st = "(\<lparr>cache_streams = [0, 1], main_index = new_index 0 1, indexes = []\<rparr>,
    Map.empty(0 \<mapsto> open_stream dat, 1 \<mapsto> open_stream idx))"
  have o: "opened dat idx ?st" by (simp add: opened_def)
  have e: "Cache digest gunzip files path \<noteq> None \<longleftrightarrow> open_indexes files path 0 ?st \<noteq> None"
    using assms(1,2) by (simp add: Cache_def Let_def)
  show ?thesis
  proof (cases "length idx div 6 < 65535")
    case True
    then show ?thesis using e open_indexes_returns [OF True o, of files path 0] by auto
  next
    case False
    then have "open_indexes files path 0 ?st = None"
      using open_indexes_diverges [of idx files path 0 ?st _ dat] o assms(3)
      by (metis not_None_eq not_less)
    then show ?thesis using e False by simp
  qed
qed

text \<open>Property C31. The constructor of the cache returns (or throws) exactly when the main index
  describes fewer than 65535 indexes: with more, the 16-bit counter of the loop wraps around
  below its 32-bit bound and the constructor never ends.\<close>

theorem Cache_returns_iff:
  assumes "files (path @ ''main_file_cache.dat2'') = Some dat"
    and "files (path @ ''main_file_cache.idx255'') = Some idx" and "length idx div 6 < 2 ^ 32"
  shows "Cache digest gunzip files path \<noteq> None \<longleftrightarrow> length idx div 6 < 65535"
  using assms by (rule Cache_returns)

theorem Cache_returns_iff_witness:
  "Cache (\<lambda>_. []) Inr (\<lambda>f. if f = ''c/main_file_cache.dat2'' \<or> f = ''c/main_file_cache.idx255''
     then Some [] else None) ''c/'' \<noteq> None"
proof -
  let ?files = "\<lambda>f. if f = ''c/main_file_cache.dat2'' \<or> f = ''c/main_file_cache.idx255''
     then Some [] else None :: u8 list option"
  show ?thesis using Cache_returns_iff [of ?files "''c/''" "[]" "[]" "\<lambda>_. []" Inr] by simp
qed

text \<open>The metadata of an index, as \<open>PopulateIndexMetadata\<close> leaves them.\<close>

definition described ::
  "(u8 list \<Rightarrow> u8 list) \<Rightarrow> (u8 list \<Rightarrow> u8 list res) \<Rightarrow> cache_index \<Rightarrow> streams \<Rightarrow> u32 \<Rightarrow> cache_index \<Rightarrow> bool" where
  "described digest gunzip main h k ix \<longleftrightarrow>
     (case GetArchiveData main k [] h of (ok, dat, _) \<Rightarrow>
        ok \<and> index_crc ix = crc32c 0 dat \<and> index_whirlpool ix = digest dat
        \<and> bind_res (archive gunzip (buf_of dat)) reference_table_of = Inr (index_table ix))"

lemma described_same_files:
  assumes "same_files h h'"
  shows "described digest gunzip main h k ix = described digest gunzip main h' k ix"
  using same_files_answer [OF assms, of main k "[]"]
  by (auto simp: described_def split: prod.splits)

lemma PopulateIndexMetadata_described:
  assumes "PopulateIndexMetadata digest gunzip main k ix h = Inr (Some ix', h')"
  shows "described digest gunzip main h k ix'" "same_files h h'"
proof -
  obtain ok dat h1 where g: "GetArchiveData main k [] h = (ok, dat, h1)" by (metis prod_cases3)
  then show "described digest gunzip main h k ix'" "same_files h h'"
    using assms GetArchiveData_keeps [of h main k "[]"]
    by (auto simp: PopulateIndexMetadata_def described_def bind_res_Inr_iff split: bool.splits)
qed

lemma populate_indexes_described:
  assumes "populate_indexes digest gunzip main ixs h = Inr (ixs', h')"
  shows "same_files h h' \<and> map fst ixs' = map fst ixs
    \<and> (\<forall>(k, ix) \<in> set ixs'. described digest gunzip main h k ix)"
  using assms
proof (induction ixs arbitrary: h ixs')
  case (Cons p rest)
  obtain k ix where p: "p = (k, ix)" by fastforce
  from Cons.prems obtain ix1 h1 rest' where
    1: "PopulateIndexMetadata digest gunzip main k ix h = Inr (Some ix1, h1)"
    and 2: "populate_indexes digest gunzip main rest h1 = Inr (rest', h')"
    and e: "ixs' = (k, ix1) # rest'"
    by (auto simp: p bind_res_Inr_iff split: option.splits)
  note d = PopulateIndexMetadata_described [OF 1]
  show ?case
    using Cons.IH [OF 2] d same_files_trans [OF d(2)] described_same_files [OF d(2)]
    by (auto simp: e p)
qed simp

text \<open>The keys in the map are distinct: the loop adds each counter value once, in order.\<close>

definition keys_below :: "nat \<Rightarrow> cache \<times> streams \<Rightarrow> bool" where
  "keys_below n st \<longleftrightarrow> distinct (map fst (indexes (fst st)))
     \<and> (\<forall>k \<in> fst ` set (indexes (fst st)). unat k < n)"

lemma open_indexes_keys:
  assumes "length idx div 6 < 65535" "opened dat idx st" "keys_below (unat i) st"
    and "open_indexes files path i st = Some st'"
  shows "opened dat idx st' \<and> distinct (map fst (indexes (fst st')))"
  using assms(2-4)
proof (induction "65536 - unat i" arbitrary: i st rule: less_induct)
  case less
  let ?n = "length idx div 6"
  have cnt: "unat (of_nat ?n :: u32) = ?n" using assms(1) by (simp add: unat_of_nat)
  show ?case
  proof (cases "unat i \<le> ?n")
    case True
    then have le: "ucast i \<le> archive_count (main_index (fst st)) (snd st)"
      using cnt by (simp add: opened_count [OF less.prems(1)] word_le_nat_alt)
    have i1: "unat (i + 1) = unat i + 1" using True assms(1) by (simp add: unat_word_ariths)
    then have "65536 - unat (i + 1) < 65536 - unat i" using True assms(1) by linarith
    moreover have "keys_below (unat (i + 1)) (open_index files path i st)"
      using less.prems(2) unfolding i1
      by (fastforce simp: keys_below_def open_index_def Let_def split: option.split)
    moreover have "open_indexes files path (i + 1) (open_index files path i st) = Some st'"
      using less.prems(3) le by (subst (asm) open_indexes_unfold) simp
    ultimately show ?thesis
      using less.hyps opened_step [OF less.prems(1)] by blast
  next
    case False
    then have "\<not> ucast i \<le> archive_count (main_index (fst st)) (snd st)"
      using cnt by (simp add: opened_count [OF less.prems(1)] word_le_nat_alt)
    then have "st' = st" using less.prems(3) by (subst (asm) open_indexes_unfold) simp
    then show ?thesis using less.prems by (simp add: keys_below_def)
  qed
qed

text \<open>Property C15. In a cache that has been constructed, \<open>GetStore\<close> finds an index for every key of
  the map, and its checksum, digest and reference table are those of the archive with that
  number in the main index.\<close>

theorem Cache_indexes_described:
  assumes "Cache digest gunzip files path = Some (Inr (c, h))"
    and "files (path @ ''main_file_cache.idx255'') = Some idx" "length idx div 6 < 2 ^ 32"
    and "k \<in> fst ` set (indexes c)"
  shows "\<exists>ix. GetStore c k = Inr ix \<and> described digest gunzip (main_index c) h k ix"
proof -
  obtain dat where dat: "files (path @ ''main_file_cache.dat2'') = Some dat"
    using assms(1) by (auto simp: Cache_def split: option.splits)
  let ?st = "(\<lparr>cache_streams = [0, 1], main_index = new_index 0 1, indexes = []\<rparr>,
    Map.empty(0 \<mapsto> open_stream dat, 1 \<mapsto> open_stream idx))"
  have n: "length idx div 6 < 65535"
    using Cache_returns [OF dat assms(2,3), of digest gunzip] assms(1) by simp
  obtain c1 h1 ixs where o: "open_indexes files path 0 ?st = Some (c1, h1)"
    and p: "populate_indexes digest gunzip (main_index c1) (indexes c1) h1 = Inr (ixs, h)"
    and c: "c = c1\<lparr>indexes := ixs\<rparr>"
    using assms(1,2) dat by (auto simp: Cache_def Let_def bind_res_Inr_iff split: if_splits)
  have d: "distinct (map fst (indexes c1))"
    using open_indexes_keys [OF n _ _ o, of dat] by (simp add: opened_def keys_below_def)
  note q = populate_indexes_described [OF p]
  obtain ix where ix: "(k, ix) \<in> set ixs" using assms(4) by (auto simp: c)
  have "distinct (map fst ixs)" using q d by simp
  then have "map_of ixs k = Some ix" using ix by simp
  moreover have "described digest gunzip (main_index c1) h k ix"
    using q ix described_same_files by fastforce
  ultimately show ?thesis by (simp add: GetStore_def c)
qed

definition start :: "u8 list \<Rightarrow> u8 list \<Rightarrow> cache \<times> streams" where
  "start dat idx = (\<lparr>cache_streams = [0, 1], main_index = new_index 0 1, indexes = []\<rparr>,
     Map.empty(0 \<mapsto> open_stream dat, 1 \<mapsto> open_stream idx))"

lemma Cache_opens:
  assumes "files (path @ ''main_file_cache.dat2'') = Some dat"
    and "files (path @ ''main_file_cache.idx255'') = Some idx"
    and "open_indexes files path 0 (start dat idx) = Some (c, h)" "1 < length (cache_streams c)"
    and "populate_indexes digest gunzip (main_index c) (indexes c) h = Inr (ixs, h')"
  shows "Cache digest gunzip files path = Some (Inr (c\<lparr>indexes := ixs\<rparr>, h'))"
  using assms by (simp add: Cache_def start_def)

text \<open>A cache with one index, described by one archive of the main index.\<close>

definition small_table :: "u8 list" where
  "small_table = table_bytes 6 1 0 [0] [0] [replicate 64 0] [5] [9]"

definition small_files :: "string \<Rightarrow> u8 list option" where
  "small_files f =
     (if f = ''main_file_cache.dat2''
      then Some (replicate 520 0 @ [0, 0, 0, 0, 0, 0, 0, 255] @ stored_archive small_table [])
      else if f = ''main_file_cache.idx255'' then Some [0, 0, 23, 0, 0, 1]
      else if f = ''main_file_cache.idx0'' then Some [] else None)"

lemma small_table_bytes:
  "small_table = [6, 0, 0, 0, 1, 0, 0, 1, 0, 0, 0, 0, 0, 5, 0, 0, 0, 9]"
  by (simp add: small_table_def table_bytes_def number_bytes_def words_bytes_def be_bytes_u16 be_bytes_u32)

lemma stored_small: "stored_archive small_table [] = [0, 0, 0, 0, 18] @ small_table"
  by (simp add: stored_archive_def be_bytes_u32 small_table_bytes)

lemma small_cache:
  "\<exists>c h. Cache (\<lambda>_. []) Inr small_files [] = Some (Inr (c, h)) \<and> 0 \<in> fst ` set (indexes c)"
proof -
  let ?dat = "[0, 0, 0, 0, 18] @ small_table"
  let ?h0 = "Map.empty(0 \<mapsto> open_stream (replicate 520 0 @ [0, 0, 0, 0, 0, 0, 0, 255] @ ?dat),
    1 \<mapsto> open_stream [0, 0, 23, 0, 0, 1])"
  let ?h = "?h0(2 \<mapsto> open_stream [])"
  let ?c = "\<lparr>cache_streams = [0, 1, 2], main_index = new_index 0 1, indexes = [(0, new_index 0 2)]\<rparr>"
  have s: "to_string 0 = ''0''" "to_string 1 = ''1''"
    by code_simp+
  let ?st0 = "start (replicate 520 0 @ [0, 0, 0, 0, 0, 0, 0, 255] @ ?dat) [0, 0, 23, 0, 0, 1]"
  let ?idx = "[0, 0, 23, 0, 0, 1] :: u8 list"
  have o0: "opened (replicate 520 0 @ [0, 0, 0, 0, 0, 0, 0, 255] @ ?dat) ?idx ?st0" by (simp add: opened_def start_def)
  have st1: "open_index small_files [] 0 ?st0 = (?c, ?h)"
    by (simp add: start_def open_index_def small_files_def s numeral_2_eq_2)
  have st2: "open_index small_files [] 1 (?c, ?h) = (?c, ?h)"
    using s(2) by (simp add: open_index_def small_files_def)
  have o1: "opened (replicate 520 0 @ [0, 0, 0, 0, 0, 0, 0, 255] @ ?dat) ?idx (?c, ?h)"
    using opened_step [OF o0, of small_files "[]" 0] unfolding st1 .
  have "open_indexes small_files [] 0 ?st0 = open_indexes small_files [] (0 + 1) (?c, ?h)"
    by (subst open_indexes_unfold) (simp only: opened_count [OF o0] st1, simp)
  also have "\<dots> = open_indexes small_files [] (0 + 1 + 1) (?c, ?h)"
    by (subst open_indexes_unfold) (simp only: opened_count [OF o1] add_0_left st2, simp)
  also have "\<dots> = Some (?c, ?h)"
    by (subst open_indexes_unfold) (simp only: opened_count [OF o1], simp add: word_le_nat_alt)
  finally have o: "open_indexes small_files [] 0 ?st0 = Some (?c, ?h)" .
  have e: "\<not> expanded 0" by (simp add: expanded_def)
  have chain: "stored_chain (replicate 520 0 @ [0, 0, 0, 0, 0, 0, 0, 255] @ ?dat) 0 0 [1] ?dat"
    by (simp add: block_holds_def block_header_def e be24_def be_bytes_u16 Let_def
        kBlockLength_unat small_table_bytes)
  have g: "\<exists>h'. GetArchiveData (new_index 0 1) 0 [] ?h = (True, ?dat, h')"
    using archive_chain_answer [of "open_stream (replicate 520 0 @ [0, 0, 0, 0, 0, 0, 0, 255] @ ?dat)" 0
        "[1]" ?dat "new_index 0 1" 1 0 ?h "open_stream [0, 0, 23, 0, 0, 1]" "[]"] chain
    by (simp add: new_index_def open_stream_def be24_def small_table_bytes)
  have a: "archive Inr (buf_of ?dat) = Inr (buf_of small_table)"
    using archive_unread [of ?dat 0 18 small_table Inr]
    by (simp add: size_max_def small_table_bytes kMaxArchiveLength_def be_bytes_u32)
  obtain t where t: "reference_table_of (buf_of small_table) = Inr t"
    using reference_table_decodes [of 6 "[0]" "[0]" "[5]" "[9]" "[replicate 64 0]" 1 0] small_table_bytes
    by (auto simp: small_table_def number_ok_def size_max_def)
  obtain h' where g': "GetArchiveData (new_index 0 1) 0 [] ?h = (True, ?dat, h')" using g by blast
  let ?ix = "(new_index 0 2)\<lparr>index_crc := crc32c 0 ?dat, index_whirlpool := [], index_table := t\<rparr>"
  have p: "populate_indexes (\<lambda>_. []) Inr (main_index ?c) (indexes ?c) ?h = Inr ([(0, ?ix)], h')"
    using g' a t by (simp add: PopulateIndexMetadata_def)
  have f: "small_files ([] @ ''main_file_cache.dat2'') = Some (replicate 520 0 @ [0, 0, 0, 0, 0, 0, 0, 255] @ ?dat)"
    "small_files ([] @ ''main_file_cache.idx255'') = Some ?idx"
    by (simp_all add: small_files_def stored_small)
  have "Cache (\<lambda>_. []) Inr small_files [] = Some (Inr (?c\<lparr>indexes := [(0, ?ix)]\<rparr>, h'))"
    by (rule Cache_opens [OF f o _ p]) simp
  then show ?thesis by force
qed

theorem Cache_indexes_described_witness:
  "\<exists>c h ix. Cache (\<lambda>_. []) Inr small_files [] = Some (Inr (c, h)) \<and> GetStore c 0 = Inr ix
    \<and> described (\<lambda>_. []) Inr (main_index c) h 0 ix"
proof -
  obtain c h where c: "Cache (\<lambda>_. []) Inr small_files [] = Some (Inr (c, h))" "0 \<in> fst ` set (indexes c)"
    using small_cache by blast
  show ?thesis
    using Cache_indexes_described [OF c(1) _ _ c(2), of "[0, 0, 23, 0, 0, 1]"] c
    by (auto simp: small_files_def)
qed

end
