(* ===== verification/Bits.thy ===== *)
theory Bits
  imports Buffer
begin

text \<open>
  Byte strings as bit strings, most significant bit first: the view in which the bit set
  writes of \<open>Buffer\<close> and the bit-level writes of \<open>BitBuffer\<close> are specified.
\<close>

definition bit_at :: "u8 list \<Rightarrow> nat \<Rightarrow> bool" where
  "bit_at bs i = bit (bs ! (i div 8)) (7 - i mod 8)"

definition bits_of :: "u8 list \<Rightarrow> bool list" where
  "bits_of bs = map (bit_at bs) [0..<8 * length bs]"

text \<open>The low \<open>n\<close> bits of a value, most significant first.\<close>

definition value_bits :: "nat \<Rightarrow> 'a::len word \<Rightarrow> bool list" where
  "value_bits n v = map (bit v) (rev [0..<n])"

lemma length_bits_of [simp]: "length (bits_of bs) = 8 * length bs"
  by (simp add: bits_of_def)

lemma length_value_bits [simp]: "length (value_bits n v) = n"
  by (simp add: value_bits_def)

lemma nth_bits_of [simp]: "i < 8 * length bs \<Longrightarrow> bits_of bs ! i = bit_at bs i"
  by (simp add: bits_of_def)

lemma nth_value_bits [simp]: "i < n \<Longrightarrow> value_bits n v ! i = bit v (n - 1 - i)"
  by (simp add: value_bits_def rev_nth)

lemma bit_at_update:
  assumes "i < 8 * length bs"
  shows "bit_at (bs[j := x]) i = (if i div 8 = j then bit x (7 - i mod 8) else bit_at bs i)"
  using assms by (auto simp: bit_at_def)

lemma bit_at_replicate_0 [simp]: "i < 8 * n \<Longrightarrow> bit_at (replicate n 0) i = False"
  by (simp add: bit_at_def less_mult_imp_div_less mult.commute)

text \<open>Equal bits mean equal bytes.\<close>

lemma bits_of_inject:
  assumes "bits_of xs = bits_of ys"
  shows "xs = ys"
proof (rule nth_equalityI)
  show len: "length xs = length ys"
    using arg_cong [OF assms, of length] by simp
  fix i assume i: "i < length xs"
  show "xs ! i = ys ! i"
  proof (rule bit_word_eqI)
    fix k assume "k < LENGTH(8)"
    then have k: "k < 8" by simp
    define j where "j = 7 - k"
    have j: "j < 8" "k = 7 - j" using k by (simp_all add: j_def)
    have "8 * i + j < 8 * length xs" using i j by linarith
    then have "bit_at xs (8 * i + j) = bit_at ys (8 * i + j)"
      using assms len nth_bits_of by metis
    moreover have "(8 * i + j) div 8 = i" "(8 * i + j) mod 8 = j" using j by simp_all
    ultimately show "bit (xs ! i) k = bit (ys ! i) k"
      using len by (simp add: bit_at_def j)
  qed
qed

lemma bits_of_Nil [simp]: "bits_of [] = []"
  by (simp add: bits_of_def)

lemma bits_of_Cons:
  "bits_of (x # xs) =
     [bit x 7, bit x 6, bit x 5, bit x 4, bit x 3, bit x 2, bit x 1, bit x 0] @ bits_of xs"
proof (rule nth_equalityI)
  fix i assume "i < length (bits_of (x # xs))"
  then have i: "i < 8 + 8 * length xs" by simp
  show "bits_of (x # xs) ! i =
     ([bit x 7, bit x 6, bit x 5, bit x 4, bit x 3, bit x 2, bit x 1, bit x 0] @ bits_of xs) ! i"
  proof (cases "i < 8")
    case True
    then have "i \<in> {0, 1, 2, 3, 4, 5, 6, 7}" by auto
    then show ?thesis by (auto simp: nth_append bit_at_def)
  next
    case False
    then obtain j where j: "i = 8 + j" by (metis le_Suc_ex linorder_not_less)
    have "[a, b, c, d, e, f, g, h] @ ys = a # b # c # d # e # f # g # h # ys" for a b c d e f g h :: bool and ys
      by simp
    moreover have "i = Suc (Suc (Suc (Suc (Suc (Suc (Suc (Suc j)))))))" using j by simp
    ultimately have "([bit x 7, bit x 6, bit x 5, bit x 4, bit x 3, bit x 2, bit x 1, bit x 0] @ bits_of xs) ! i
        = bits_of xs ! j" by (metis nth_Cons_Suc)
    moreover have "bits_of (x # xs) ! i = bits_of xs ! j"
    proof -
      have "(8 + j) div 8 = Suc (j div 8)" by (simp add: div_add_self1)
      then show ?thesis using i by (simp add: j bit_at_def)
    qed
    ultimately show ?thesis by simp
  qed
qed simp

section \<open>The bit set writes\<close>

lemma bit_or_single:
  "k < 8 \<Longrightarrow> j < 8 \<Longrightarrow> bit (x OR push_bit k 1 :: u8) j \<longleftrightarrow> bit x j \<or> j = k"
  by (auto simp: bit_simps)

lemma same_bit_index:
  assumes "i div 8 = m div (8 :: nat)"
  shows "7 - i mod 8 = 7 - m mod 8 \<longleftrightarrow> i = m"
proof -
  have "i mod 8 < 8" "m mod 8 < 8" by simp_all
  then have "7 - i mod 8 = 7 - m mod 8 \<longleftrightarrow> i mod 8 = m mod 8" by linarith
  also have "\<dots> \<longleftrightarrow> i = m" using assms by (metis div_mult_mod_eq)
  finally show ?thesis .
qed

lemma bit_at_set:
  assumes "i < 8 * length bs"
  shows "bit_at (bs[m div 8 := bs ! (m div 8) OR push_bit (7 - m mod 8) 1]) i
    \<longleftrightarrow> bit_at bs i \<or> i = m"
proof (cases "i div 8 = m div 8")
  case True
  have lt: "7 - i mod 8 < 8" "7 - m mod 8 < 8" by simp_all
  show ?thesis
    using True assms bit_or_single [OF lt(2,1), of "bs ! (m div 8)"] same_bit_index [OF True]
    by (simp add: bit_at_update bit_at_def del: push_bit_of_1)
next
  case False
  then show ?thesis using assms by (auto simp: bit_at_update)
qed

lemma bitset_be_fold:
  assumes "m \<le> length bits" and "8 * n \<ge> length bits"
  defines "step \<equiv> \<lambda>i bs. if bits ! i
    then bs[i div 8 := (bs ! (i div 8) :: u8) OR push_bit (7 - i mod 8) 1] else bs"
  shows "length (fold step [0..<m] (replicate n 0)) = n \<and>
    (\<forall>i < 8 * n. bit_at (fold step [0..<m] (replicate n 0)) i \<longleftrightarrow> i < m \<and> bits ! i)"
  using assms(1)
proof (induction m)
  case 0
  then show ?case by simp
next
  case (Suc m)
  let ?bs = "fold step [0..<m] (replicate n 0)"
  have IH: "length ?bs = n" "\<And>i. i < 8 * n \<Longrightarrow> bit_at ?bs i \<longleftrightarrow> i < m \<and> bits ! i"
    using Suc by auto
  have unf: "fold step [0..<Suc m] (replicate n 0) = step m ?bs" by simp
  have "bit_at (step m ?bs) i \<longleftrightarrow> i < Suc m \<and> bits ! i" if i: "i < 8 * n" for i
    using IH(2) [OF i] bit_at_set [of i ?bs m] i IH(1)
    by (auto simp: step_def less_Suc_eq simp del: push_bit_of_1)
  then show ?case unfolding unf using IH(1) by (simp add: step_def)
qed

lemma bitset_bytes_be_bits:
  "length (bitset_bytes_be bits) = (length bits + 7) div 8"
  "bits_of (bitset_bytes_be bits)
     = bits @ replicate (8 * ((length bits + 7) div 8) - length bits) False"
proof -
  let ?n = "(length bits + 7) div 8"
  have n: "length bits \<le> 8 * ?n" by simp
  from bitset_be_fold [OF order_refl n]
  have L: "length (bitset_bytes_be bits) = ?n"
    and B: "\<forall>i < 8 * ?n. bit_at (bitset_bytes_be bits) i \<longleftrightarrow> i < length bits \<and> bits ! i"
    by (simp_all add: bitset_bytes_be_def)
  show "length (bitset_bytes_be bits) = ?n" by (rule L)
  show "bits_of (bitset_bytes_be bits) = bits @ replicate (8 * ?n - length bits) False"
    using n by (intro nth_equalityI) (auto simp: L B nth_append)
qed

end
