(* ===== verification/BitBuffer.thy ===== *)
theory BitBuffer
  imports Bits
begin

text \<open>
  \<open>openrs::common::io::BitBuffer\<close> (\<open>common/include/openrs/common/io/bitbuffer.h\<close>): a buffer
  with a bit position of its own. The bit-level \<open>PutData\<close> packs the low bits of a value, most
  significant first, at the bit position; its specification is an update of the bit string
  (\<open>bits_of\<close>). An access behind the end of the vector is undefined behaviour.
\<close>

record bitbuffer =
  base :: buffer
  bit_position :: nat

definition empty_bitbuffer :: bitbuffer where
  "empty_bitbuffer = \<lparr>base = empty_buffer, bit_position = 0\<rparr>"

definition bit_byte_position :: "bitbuffer \<Rightarrow> nat" where
  "bit_byte_position b = drop_bit 3 (bit_position b)"

definition bit_seek :: "seek_dir \<Rightarrow> nat \<Rightarrow> bitbuffer \<Rightarrow> bitbuffer" where
  "bit_seek dir off b = b\<lparr>bit_position :=
     (case dir of Seek_set \<Rightarrow> off
      | Seek_end \<Rightarrow> size_sub (buf_size (base b)) off
      | Seek_cur \<Rightarrow> size_add (bit_position b) off)\<rparr>"

text \<open>The byte-level \<open>PutData\<close> counts bytes, not bits, in the bit position, and appends.\<close>

definition bb_put_data :: "'a::len word \<Rightarrow> bitbuffer \<Rightarrow> bitbuffer" where
  "bb_put_data w b =
     b\<lparr>bit_position := size_add (bit_position b) (LENGTH('a) div 8), base := put_data w (base b)\<rparr>"

text \<open>The writes inherited from \<open>Buffer\<close> do not touch the bit position.\<close>

definition bb_lift :: "(buffer \<Rightarrow> buffer) \<Rightarrow> bitbuffer \<Rightarrow> bitbuffer" where
  "bb_lift f b = b\<lparr>base := f (base b)\<rparr>"

text \<open>\<open>std::vector::resize\<close>, and an access \<open>bytes[j] = f(bytes[j])\<close> with its bounds.\<close>

definition resize_bytes :: "nat \<Rightarrow> u8 list \<Rightarrow> u8 list" where
  "resize_bytes n bs = (if n \<le> length bs then take n bs else bs @ replicate (n - length bs) 0)"

definition modify_byte :: "nat \<Rightarrow> (u8 \<Rightarrow> u8) \<Rightarrow> u8 list \<Rightarrow> u8 list res" where
  "modify_byte j f bs =
     (if j < length bs then Inr (bs[j := f (bs ! j)])
      else Inl (Undefined ''byte index past the end of the buffer''))"

text \<open>
  The loop over the bytes the value fills to their last bit. \<open>bit_offset\<close>, the number of bits
  left in the current byte, is between 1 and 8; the case 0, which cannot arise, makes the
  function total.
\<close>

function put_bits_loop ::
  "'a::len word \<Rightarrow> nat \<Rightarrow> nat \<Rightarrow> nat \<Rightarrow> u8 list \<Rightarrow> (nat \<times> nat \<times> nat \<times> u8 list) res" where
  "put_bits_loop dat num_bits bit_offset byte_position bs =
     (if bit_offset < num_bits then
        if bit_offset = 0 then Inl (Undefined ''no progress'')
        else
          let bs = (if length bs \<le> byte_position then resize_bytes byte_position bs else bs)
          in bind_res (modify_byte byte_position (\<lambda>x. x AND NOT (mask bit_offset)) bs) (\<lambda>bs.
             bind_res (modify_byte byte_position
               (\<lambda>x. x OR ucast (drop_bit (num_bits - bit_offset) dat AND mask bit_offset)) bs) (\<lambda>bs.
             put_bits_loop dat (num_bits - bit_offset) 8 (byte_position + 1) bs))
      else Inr (num_bits, bit_offset, byte_position, bs))"
  by pat_completeness auto
termination
  by (relation "measure (\<lambda>(d, n, k, j, bs). n)") auto

declare put_bits_loop.simps [simp del]

definition put_bits :: "nat \<Rightarrow> 'a::len word \<Rightarrow> bitbuffer \<Rightarrow> bitbuffer res" where
  "put_bits num_bits dat b =
     bind_res (put_bits_loop dat num_bits (8 - bit_position b mod 8) (bit_byte_position b)
       (bytes (base b))) (\<lambda>(n, k, j, bs).
       let bs = (if length bs \<le> j then resize_bytes (if j = 0 then 1 else j) bs else bs)
       in bind_res
         (if n = k then
            bind_res (modify_byte j (\<lambda>x. x AND NOT (mask k)) bs)
              (modify_byte j (\<lambda>x. x OR ucast (dat AND mask k)))
          else
            bind_res (modify_byte j (\<lambda>x. x AND NOT (push_bit (k - n) (mask n))) bs)
              (modify_byte j (\<lambda>x. x OR push_bit (k - n) (ucast (dat AND mask n)))))
         (\<lambda>bs. Inr (b\<lparr>base := (base b)\<lparr>bytes := bs\<rparr>,
                    bit_position := size_add (bit_position b) num_bits\<rparr>)))"

section \<open>One byte\<close>

text \<open>Replacing the \<open>m\<close> bits below bit \<open>k\<close> of a byte by the low bits of a value.\<close>

definition splice :: "nat \<Rightarrow> nat \<Rightarrow> 'a::len word \<Rightarrow> u8 \<Rightarrow> u8" where
  "splice k m v x = (x AND NOT (push_bit (k - m) (mask m))) OR push_bit (k - m) (ucast (v AND mask m))"

lemma bit_splice:
  assumes "m \<le> k" and "k \<le> 8" and "i < 8" and "m \<le> LENGTH('a)"
  shows "bit (splice k m (v :: 'a::len word) x) i
    \<longleftrightarrow> (if k - m \<le> i \<and> i < k then bit v (i - (k - m)) else bit x i)"
  using assms by (auto simp: splice_def bit_simps)

lemma modify_twice:
  "bind_res (modify_byte j f bs) (modify_byte j g)
   = (if j < length bs then Inr (bs[j := g (f (bs ! j))])
      else Inl (Undefined ''byte index past the end of the buffer''))"
  by (simp add: modify_byte_def)

lemma put_bits_loop_step:
  assumes "k < n" and "0 < k" and "j < length bs"
  shows "put_bits_loop dat n k j bs
    = put_bits_loop dat (n - k) 8 (j + 1) (bs[j := splice k k (drop_bit (n - k) dat) (bs ! j)])"
  using assms
  by (subst put_bits_loop.simps) (simp add: modify_byte_def splice_def)

lemma put_bits_loop_done:
  "n \<le> k \<Longrightarrow> put_bits_loop dat n k j bs = Inr (n, k, j, bs)"
  by (subst put_bits_loop.simps) simp

text \<open>The bits an update of one byte changes.\<close>

lemma bit_at_splice:
  assumes "i < 8 * length bs" and "m \<le> k" and "k \<le> 8" and "m \<le> LENGTH('a)"
  shows "bit_at (bs[j := splice k m (v :: 'a::len word) (bs ! j)]) i
    \<longleftrightarrow> (if 8 * j + (8 - k) \<le> i \<and> i < 8 * j + (8 - k) + m
         then bit v (8 * j + (8 - k) + m - 1 - i) else bit_at bs i)"
proof (cases "i div 8 = j")
  case False
  then have "\<not> (8 * j + (8 - k) \<le> i \<and> i < 8 * j + (8 - k) + m)"
    using assms(2,3) by auto
  with False assms(1) show ?thesis by (auto simp: bit_at_update)
next
  case True
  define r where "r = i mod 8"
  have r: "r < 8" "i = 8 * j + r" using True by (auto simp: r_def)
  have "bit_at (bs[j := splice k m v (bs ! j)]) i = bit (splice k m v (bs ! j)) (7 - r)"
    using True assms(1) by (simp add: bit_at_update r_def)
  also have "\<dots> \<longleftrightarrow> (if k - m \<le> 7 - r \<and> 7 - r < k then bit v (7 - r - (k - m)) else bit (bs ! j) (7 - r))"
    using assms r(1) by (simp add: bit_splice)
  also have "bit (bs ! j) (7 - r) = bit_at bs i"
    using True by (simp add: bit_at_def r_def)
  also have "k - m \<le> 7 - r \<and> 7 - r < k \<longleftrightarrow> 8 * j + (8 - k) \<le> i \<and> i < 8 * j + (8 - k) + m"
    using assms(2,3) r by auto
  also have "(if 8 * j + (8 - k) \<le> i \<and> i < 8 * j + (8 - k) + m
      then bit v (7 - r - (k - m)) else bit_at bs i)
    = (if 8 * j + (8 - k) \<le> i \<and> i < 8 * j + (8 - k) + m
         then bit v (8 * j + (8 - k) + m - 1 - i) else bit_at bs i)"
    using assms(2,3) r by (auto intro!: arg_cong [where f = "bit v"])
  finally show ?thesis .
qed


section \<open>The whole write, as an update of the bit string\<close>

lemma put_bits_loop_spec:
  assumes "0 < k" "k \<le> 8" "0 < n" "n \<le> LENGTH('a)" "8 * j + (8 - k) + n \<le> 8 * length bs"
  shows "\<exists>n' k' j' bs'. put_bits_loop (dat :: 'a::len word) n k j bs = Inr (n', k', j', bs')
    \<and> 0 < n' \<and> n' \<le> n \<and> n' \<le> k' \<and> k' \<le> 8 \<and> length bs' = length bs
    \<and> 8 * j' + (8 - k') + n' = 8 * j + (8 - k) + n
    \<and> (\<forall>i < 8 * length bs. bit_at bs' i \<longleftrightarrow>
         (if 8 * j + (8 - k) \<le> i \<and> i < 8 * j' + (8 - k')
          then bit dat (8 * j + (8 - k) + n - 1 - i) else bit_at bs i))"
  using assms
proof (induction n arbitrary: k j bs rule: less_induct)
  case (less n)
  show ?case
  proof (cases "n \<le> k")
    case True
    with less.prems show ?thesis by (auto simp: put_bits_loop_done)
  next
    case False
    let ?bs = "bs[j := splice k k (drop_bit (n - k) dat) (bs ! j)]"
    have j: "j < length bs" using False less.prems by linarith
    have step: "put_bits_loop dat n k j bs = put_bits_loop dat (n - k) 8 (j + 1) ?bs"
      using False less.prems j by (intro put_bits_loop_step) auto
    have "\<exists>n' k' j' bs'. put_bits_loop dat (n - k) 8 (j + 1) ?bs = Inr (n', k', j', bs')
      \<and> 0 < n' \<and> n' \<le> n - k \<and> n' \<le> k' \<and> k' \<le> 8 \<and> length bs' = length ?bs
      \<and> 8 * j' + (8 - k') + n' = 8 * (j + 1) + (8 - 8) + (n - k)
      \<and> (\<forall>i < 8 * length ?bs. bit_at bs' i \<longleftrightarrow>
           (if 8 * (j + 1) + (8 - 8) \<le> i \<and> i < 8 * j' + (8 - k')
            then bit dat (8 * (j + 1) + (8 - 8) + (n - k) - 1 - i) else bit_at ?bs i))"
      using False less.prems by (intro less.IH) auto
    then obtain n' k' j' bs' where loop: "put_bits_loop dat (n - k) 8 (j + 1) ?bs = Inr (n', k', j', bs')"
      and b: "0 < n'" "n' \<le> n - k" "n' \<le> k'" "k' \<le> 8" "length bs' = length bs"
      and e: "8 * j' + (8 - k') + n' = 8 * (j + 1) + (n - k)"
      and bits: "\<And>i. i < 8 * length bs \<Longrightarrow> bit_at bs' i \<longleftrightarrow>
           (if 8 * (j + 1) \<le> i \<and> i < 8 * j' + (8 - k')
            then bit dat (8 * (j + 1) + (n - k) - 1 - i) else bit_at ?bs i)"
      by auto
    have ge: "8 * (j + 1) \<le> 8 * j' + (8 - k')"
      using e b by linarith
    have "bit_at bs' i \<longleftrightarrow>
        (if 8 * j + (8 - k) \<le> i \<and> i < 8 * j' + (8 - k')
         then bit dat (8 * j + (8 - k) + n - 1 - i) else bit_at bs i)"
      if i: "i < 8 * length bs" for i
    proof (cases "8 * (j + 1) \<le> i")
      case True
      then have "i div 8 \<noteq> j" by arith
      then have "bit_at ?bs i = bit_at bs i"
        using i by (simp add: bit_at_update)
      moreover have "8 * (j + 1) + (n - k) - 1 - i = 8 * j + (8 - k) + n - 1 - i"
        using less.prems False by simp
      ultimately show ?thesis using bits [OF i] True less.prems by simp
    next
      case lt: False
      have "bit_at bs' i \<longleftrightarrow> bit_at ?bs i" using bits [OF i] lt by simp
      also have "\<dots> \<longleftrightarrow> (if 8 * j + (8 - k) \<le> i
          then bit (drop_bit (n - k) dat) (8 * j + (8 - k) + k - 1 - i) else bit_at bs i)"
        using bit_at_splice [OF i, where m = k and k = k and v = "drop_bit (n - k) dat" and j = j] less.prems False lt by simp
      also have "\<dots> \<longleftrightarrow> (if 8 * j + (8 - k) \<le> i
          then bit dat (8 * j + (8 - k) + n - 1 - i) else bit_at bs i)"
      proof -
        have "n - k + (8 * j + (8 - k) + k - 1 - i) = 8 * j + (8 - k) + n - 1 - i"
          if "8 * j + (8 - k) \<le> i"
          using that lt False less.prems by simp
        then show ?thesis by (auto simp: bit_drop_bit_eq)
      qed
      finally show ?thesis using lt ge by simp
    qed
    moreover have "8 * j' + (8 - k') + n' = 8 * j + (8 - k) + n"
      using e False less.prems by simp
    ultimately show ?thesis using step loop b by (intro exI [of _ n'] exI [of _ k'] exI [of _ j'] exI [of _ bs']) auto
  qed
qed

text \<open>A write inside the vector: it cannot fault, and changes exactly the bits it names.\<close>

lemma put_bits_spec:
  fixes dat :: "'a::len word"
  defines "p b \<equiv> bit_position b"
  assumes n: "0 < n" "n \<le> LENGTH('a)" and fits: "p b + n \<le> 8 * buf_size (base b)"
  obtains bs' where "put_bits n dat b
      = Inr (b\<lparr>base := (base b)\<lparr>bytes := bs'\<rparr>, bit_position := size_add (p b) n\<rparr>)"
    and "length bs' = buf_size (base b)"
    and "\<And>i. i < 8 * buf_size (base b) \<Longrightarrow> bit_at bs' i \<longleftrightarrow>
      (if p b \<le> i \<and> i < p b + n then bit dat (p b + n - 1 - i) else bit_at (bytes (base b)) i)"
proof -
  let ?bs = "bytes (base b)" and ?k = "8 - bit_position b mod 8" and ?j = "bit_byte_position b"
  have pos: "8 * ?j + (8 - ?k) = p b"
    by (simp add: bit_byte_position_def p_def drop_bit_eq_div)
  have k: "0 < ?k" "?k \<le> 8" by simp_all
  obtain n' k' j' bs1 where loop: "put_bits_loop dat n ?k ?j ?bs = Inr (n', k', j', bs1)"
    and b: "0 < n'" "n' \<le> n" "n' \<le> k'" "k' \<le> 8" "length bs1 = length ?bs"
    and e: "8 * j' + (8 - k') + n' = p b + n"
    and bits: "\<forall>i < 8 * length ?bs. bit_at bs1 i \<longleftrightarrow>
         (if p b \<le> i \<and> i < 8 * j' + (8 - k') then bit dat (p b + n - 1 - i) else bit_at ?bs i)"
    using put_bits_loop_spec [OF k n, where j = ?j and bs = ?bs and dat = dat] fits unfolding pos by blast
  have j': "j' < length bs1" using b e fits by linarith
  let ?bs' = "bs1[j' := splice k' n' dat (bs1 ! j')]"
  have "put_bits n dat b = Inr (b\<lparr>base := (base b)\<lparr>bytes := ?bs'\<rparr>, bit_position := size_add (p b) n\<rparr>)"
    using j' by (auto simp: put_bits_def loop modify_twice splice_def p_def)
  moreover have "length ?bs' = buf_size (base b)" using b by simp
  moreover have "bit_at ?bs' i \<longleftrightarrow>
      (if p b \<le> i \<and> i < p b + n then bit dat (p b + n - 1 - i) else bit_at ?bs i)"
    if i: "i < 8 * buf_size (base b)" for i
  proof -
    have i1: "i < 8 * length bs1" using i b by simp
    have "bit_at ?bs' i \<longleftrightarrow> (if 8 * j' + (8 - k') \<le> i \<and> i < p b + n
        then bit dat (p b + n - 1 - i) else bit_at bs1 i)"
      using bit_at_splice [OF i1, where m = n' and k = k' and v = dat and j = j'] b n unfolding e by simp
    moreover have "p b \<le> 8 * j' + (8 - k')" using e b by linarith
    ultimately show ?thesis using bits i b e by auto
  qed
  ultimately show thesis by (rule that)
qed


lemma put_bits_loop_cases:
  assumes "0 < k" "k \<le> 8" "0 < n"
  shows "put_bits_loop dat n k j bs = Inl (Undefined ''byte index past the end of the buffer'') \<or>
    (\<exists>n' k' j' bs'. put_bits_loop dat n k j bs = Inr (n', k', j', bs') \<and> length bs' = length bs
      \<and> 0 < n' \<and> n' \<le> k' \<and> k' \<le> 8 \<and> 8 * j' + (8 - k') + n' = 8 * j + (8 - k) + n)"
  using assms
proof (induction n arbitrary: k j bs rule: less_induct)
  case (less n)
  show ?case
  proof (cases "n \<le> k")
    case True
    with less.prems show ?thesis by (simp add: put_bits_loop_done)
  next
    case False
    show ?thesis
    proof (cases "j < length bs")
      case True
      let ?bs = "bs[j := splice k k (drop_bit (n - k) dat) (bs ! j)]"
      have "put_bits_loop dat n k j bs = put_bits_loop dat (n - k) 8 (j + 1) ?bs"
        using False less.prems True by (intro put_bits_loop_step) auto
      moreover have "8 * (j + 1) + (8 - 8) + (n - k) = 8 * j + (8 - k) + n"
        using False less.prems by simp
      ultimately show ?thesis
        using less.IH [of "n - k" 8 "j + 1" ?bs] False less.prems by simp
    next
      case over: False
      then have "length (resize_bytes j bs) = j" by (simp add: resize_bytes_def)
      with over False less.prems show ?thesis
        by (subst put_bits_loop.simps) (simp add: modify_byte_def)
    qed
  qed
qed

text \<open>Property C10. The bit-level \<open>PutData\<close>, inside the vector, writes the low \<open>num_bits\<close> bits of
  the value, most significant first, at the bit position, keeps every other bit and the size,
  and advances the bit position: the byte-level masks and shifts implement an update of the
  bit string.\<close>

theorem put_bits_refines_bit_string:
  fixes dat :: "'a::len word"
  assumes "0 < n" "n \<le> LENGTH('a)" and "bit_position b + n \<le> 8 * buf_size (base b)"
    and "8 * buf_size (base b) < size_max"
  shows "\<exists>b'. put_bits n dat b = Inr b'
    \<and> bits_of (bytes (base b')) = take (bit_position b) (bits_of (bytes (base b)))
        @ value_bits n dat @ drop (bit_position b + n) (bits_of (bytes (base b)))
    \<and> bit_position b' = bit_position b + n \<and> position (base b') = position (base b)"
proof -
  let ?p = "bit_position b" and ?bs = "bytes (base b)"
  obtain bs' where P: "put_bits n dat b
      = Inr (b\<lparr>base := (base b)\<lparr>bytes := bs'\<rparr>, bit_position := size_add ?p n\<rparr>)"
    and L: "length bs' = length ?bs"
    and B: "\<And>i. i < 8 * length ?bs \<Longrightarrow> bit_at bs' i \<longleftrightarrow>
      (if ?p \<le> i \<and> i < ?p + n then bit dat (?p + n - 1 - i) else bit_at ?bs i)"
    by (rule put_bits_spec [OF assms(1-3)]) blast
  have "bits_of bs' = take ?p (bits_of ?bs) @ value_bits n dat @ drop (?p + n) (bits_of ?bs)"
    using assms(3) by (intro nth_equalityI) (auto simp: L B nth_append not_less add.commute)
  moreover have "size_add ?p n = ?p + n" using assms by (intro size_add_small) simp
  ultimately show ?thesis using P by simp
qed

theorem put_bits_refines_bit_string_witness:
  "\<exists>b'. put_bits 3 (5 :: u8) \<lparr>base = buf_of [0xFF, 0xFF], bit_position = 6\<rparr> = Inr b'
    \<and> bits_of (bytes (base b')) = [True, True, True, True, True, True, True, False, True,
         True, True, True, True, True, True, True]
    \<and> bit_position b' = 9"
proof -
  have v: "value_bits 3 (5 :: u8) = [True, False, True]"
    by (simp add: value_bits_def upt_rec)
  have b: "bits_of [0xFF, 0xFF] = [True, True, True, True, True, True, True, True,
      True, True, True, True, True, True, True, True]"
    by (simp add: bits_of_Cons)
  show ?thesis
    using put_bits_refines_bit_string [of 3 "\<lparr>base = buf_of [0xFF, 0xFF], bit_position = 6\<rparr>" "5 :: u8"]
    by (auto simp: buf_of_def size_max_def v b)
qed

lemma put_bits_past_end:
  assumes "0 < n" and "max 1 (buf_size (base b)) \<le> (bit_position b + n - 1) div 8"
  shows "put_bits n dat b = Inl (Undefined ''byte index past the end of the buffer'')"
proof -
  let ?k = "8 - bit_position b mod 8" and ?j = "bit_byte_position b"
  have pos: "8 * ?j + (8 - ?k) = bit_position b"
    by (simp add: bit_byte_position_def drop_bit_eq_div)
  have k: "0 < ?k" "?k \<le> 8" by simp_all
  from put_bits_loop_cases [OF k assms(1), of dat ?j "bytes (base b)"] consider
    "put_bits_loop dat n ?k ?j (bytes (base b)) = Inl (Undefined ''byte index past the end of the buffer'')"
    | n' k' j' bs' where "put_bits_loop dat n ?k ?j (bytes (base b)) = Inr (n', k', j', bs')"
      "length bs' = buf_size (base b)" "0 < n'" "n' \<le> k'" "k' \<le> 8"
      "8 * j' + (8 - k') + n' = bit_position b + n"
    unfolding pos by blast
  then show ?thesis
  proof cases
    case 1
    then show ?thesis by (simp add: put_bits_def)
  next
    case 2
    have "8 * j' \<le> bit_position b + n - 1" "bit_position b + n - 1 < 8 * j' + 8"
      using 2(3-6) by linarith+
    then have "(bit_position b + n - 1) div 8 = j'" by (intro div_nat_eqI) simp_all
    then have "length bs' \<le> j'" "j' \<noteq> 0" using assms(2) 2(2) by auto
    then show ?thesis
      using 2(1) by (simp add: put_bits_def resize_bytes_def modify_twice)
  qed
qed

lemma put_bits_within:
  fixes dat :: "'a::len word"
  assumes "0 < n" "n \<le> LENGTH('a)" and "(bit_position b + n - 1) div 8 < max 1 (buf_size (base b))"
  shows "\<exists>b'. put_bits n dat b = Inr b'"
proof (cases "bit_position b + n \<le> 8 * buf_size (base b)")
  case True
  then show ?thesis using assms(1,2) by (elim put_bits_spec [where dat = dat]) auto
next
  case False
  have "0 < buf_size (base b) \<Longrightarrow> bit_position b + n - 1 < buf_size (base b) * 8"
    using assms(3) by (auto simp: max_def div_less_iff_less_mult Suc_le_eq split: if_splits)
  then have e: "bytes (base b) = []" "bit_position b + n \<le> 8"
    using False assms(1,3) by fastforce+
  then have "n \<le> 8 - bit_position b mod 8" "bit_byte_position b = 0"
    using assms(1) by (auto simp: bit_byte_position_def drop_bit_eq_div)
  then show ?thesis
    by (simp add: put_bits_def put_bits_loop_done assms(1) e(1) resize_bytes_def modify_byte_def Let_def)
qed

text \<open>Property C40. A bit-level write is undefined behaviour exactly when it needs a byte that the
  vector does not have, the first byte of an empty vector excepted: \<open>resize(byte_position)\<close> leaves
  the byte at \<open>byte_position\<close> outside the vector, unless that is 0, when the size becomes 1.\<close>

theorem put_bits_never_grows_past_one_byte:
  fixes dat :: "'a::len word"
  assumes "0 < n" "n \<le> LENGTH('a)"
  shows "put_bits n dat b = Inl (Undefined ''byte index past the end of the buffer'')
    \<longleftrightarrow> max 1 (buf_size (base b)) \<le> (bit_position b + n - 1) div 8"
  using put_bits_past_end [OF assms(1)] put_bits_within [OF assms, of b dat] by (metis Inl_Inr_False not_le)

text \<open>Nine bits do not go into an empty vector; eight do.\<close>

theorem put_bits_never_grows_past_one_byte_witness:
  "put_bits 9 (0 :: u32) empty_bitbuffer = Inl (Undefined ''byte index past the end of the buffer'')
   \<and> put_bits 8 (0 :: u32) empty_bitbuffer \<noteq> Inl (Undefined ''byte index past the end of the buffer'')"
  using put_bits_never_grows_past_one_byte [of 9 "0 :: u32" empty_bitbuffer]
    put_bits_never_grows_past_one_byte [of 8 "0 :: u32" empty_bitbuffer]
  by (simp add: empty_bitbuffer_def empty_buffer_def)

end
