(* ===== verification/Servers.thy ===== *)
theory Servers
  imports Interfaces Worlds CacheIndex BitBuffer
begin

text \<open>
  The state of the server: what the singletons hold (\<open>ConfigManager\<close>, \<open>CacheManager\<close>,
  \<open>DatabaseManager\<close>, \<open>WorldManager\<close>) and the objects that are shared by pointer, players and
  sessions, in heaps of their own. A weak pointer to a session that is gone finds \<open>None\<close> there.
  The state of the database is a parameter.
\<close>

record 'db server =
  config :: config_manager
  cache_object :: cache
  cache_files :: streams
  database_state :: 'db
  worlds :: "(u32 \<times> nat world) list"
  player_sessions :: "u32 \<rightharpoonup> nat"
  player_heap :: "nat \<Rightarrow> player"
  next_player :: nat
  session_heap :: "nat \<rightharpoonup> session"

definition on_session :: "nat \<Rightarrow> (session \<Rightarrow> session) \<Rightarrow> 'db server \<Rightarrow> 'db server" where
  "on_session k f sv = sv\<lparr>session_heap := (session_heap sv)(k := map_option f (session_heap sv k))\<rparr>"

definition on_player :: "nat \<Rightarrow> (player \<Rightarrow> player) \<Rightarrow> 'db server \<Rightarrow> 'db server" where
  "on_player r f sv = sv\<lparr>player_heap := (player_heap sv)(r := f (player_heap sv r))\<rparr>"

text \<open>Reading a field of a session that a live pointer refers to.\<close>

definition session_at :: "'db server \<Rightarrow> nat \<Rightarrow> session" where
  "session_at sv k = the (session_heap sv k)"

text \<open>\<open>worlds_[kWorldId]\<close> creates a world that is not there.\<close>

definition world_at :: "u32 \<Rightarrow> 'db server \<Rightarrow> nat world" where
  "world_at k sv = (case map_of (worlds sv) k of Some w \<Rightarrow> w | None \<Rightarrow> new_world)"

definition set_world :: "u32 \<Rightarrow> nat world \<Rightarrow> 'db server \<Rightarrow> 'db server" where
  "set_world k w sv = sv\<lparr>worlds := AList.update k w (worlds sv)\<rparr>"

lemma map_of_worlds_set [simp]: "map_of (worlds (set_world k w sv)) = (map_of (worlds sv))(k \<mapsto> w)"
  by (simp add: set_world_def update_conv')

lemma world_at_set [simp]: "world_at j (set_world k w sv) = (if j = k then w else world_at j sv)"
  by (simp add: world_at_def)

lemma on_session_sel [simp]:
  "session_heap (on_session k f sv) j = (if j = k then map_option f (session_heap sv k) else session_heap sv j)"
  "worlds (on_session k f sv) = worlds sv"
  "player_heap (on_session k f sv) = player_heap sv"
  "player_sessions (on_session k f sv) = player_sessions sv"
  "config (on_session k f sv) = config sv"
  "cache_object (on_session k f sv) = cache_object sv"
  "cache_files (on_session k f sv) = cache_files sv"
  "database_state (on_session k f sv) = database_state sv"
  "next_player (on_session k f sv) = next_player sv"
  by (simp_all add: on_session_def)

lemma on_player_sel [simp]:
  "player_heap (on_player r f sv) q = (if q = r then f (player_heap sv r) else player_heap sv q)"
  "worlds (on_player r f sv) = worlds sv"
  "session_heap (on_player r f sv) = session_heap sv"
  "player_sessions (on_player r f sv) = player_sessions sv"
  "config (on_player r f sv) = config sv"
  "cache_object (on_player r f sv) = cache_object sv"
  "cache_files (on_player r f sv) = cache_files sv"
  "database_state (on_player r f sv) = database_state sv"
  "next_player (on_player r f sv) = next_player sv"
  by (simp_all add: on_player_def)

end
