(* ===== verification/WorldManager.thy ===== *)
theory WorldManager
  imports Servers
begin

text \<open>
  The appearance manager (\<open>manager/appearancemanager.cpp\<close>) and the world manager
  (\<open>manager/worldmanager.h\<close>, \<open>manager/worldmanager.cpp\<close>): who is in a world, what a client is
  told when a player enters, moves or changes its screen. The worlds are iterated in the order
  they were added (the order of the hash map is unspecified; the server has one world).
\<close>

section \<open>Appearance\<close>

definition look_word :: "player \<Rightarrow> BodyPart \<Rightarrow> u16" where
  "look_word p part = 0x0100 + GetAppearanceLook part (looks (model p))"

definition colour_byte :: "player \<Rightarrow> BodyPart \<Rightarrow> u8" where
  "colour_byte p part = GetAppearanceColour part (looks (model p))"

definition appearance_writes :: "player \<Rightarrow> (buffer \<Rightarrow> buffer) list" where
  "appearance_writes p =
    [put_data (0 :: u8), put_data (if HasSkull p then 0 else - 1 :: u8), put_data (- 1 :: u8), put_data (0 :: u8),
     put_data (0 :: u8), put_data (0 :: u8), put_data (0 :: u8), put_data (0 :: u8),
     put_data_be (look_word p Torso), put_data (0 :: u8), put_data_be (look_word p Arms),
     put_data_be (look_word p Legs), put_data_be (look_word p Forearms), put_data_be (look_word p Boots),
     put_data_be (look_word p Beard), put_data (0 :: u8), put_data_be (0 :: u16),
     put_data (colour_byte p Hair), put_data (colour_byte p Torso), put_data (colour_byte p Legs),
     put_data (colour_byte p Boots), put_data (colour_byte p Skin),
     put_data (0 :: u8), put_data (0 :: u8), put_data (0 :: u8), put_data (0 :: u8), put_data (0 :: u8),
     put_data_be (0 :: u16), put_string (username (account (model p))),
     put_data GetCombatLevel, put_data GetCombatLevel, put_data (- 1 :: u8), put_data (0 :: u8)]"

text \<open>The length, in the byte before, is set at the end.\<close>

definition GetPlayerAppearance :: "player \<Rightarrow> buffer \<Rightarrow> buffer" where
  "GetPlayerAppearance p b =
     (let b = put_data (0 :: u8) b;
          kStartingOffset = buf_size b;
          b = fold (\<lambda>f b. f b) (appearance_writes p) b
      in b\<lparr>bytes := (bytes b)[kStartingOffset - 1 := of_nat (buf_size b - kStartingOffset)]\<rparr>)"

section \<open>Worlds and players\<close>

definition add_world :: "u32 \<Rightarrow> nat world \<Rightarrow> 'db server \<Rightarrow> 'db server" where
  "add_world k w sv = set_world k w sv"

definition Init_worlds :: "'db server \<Rightarrow> bool \<times> 'db server" where
  "Init_worlds sv = (True, add_world 1 new_world sv)"

definition add_player_to :: "u32 \<Rightarrow> nat \<Rightarrow> 'db server \<Rightarrow> u32 \<times> 'db server" where
  "add_player_to kWorldId kPlayer sv =
     (case add_player kPlayer (world_at kWorldId sv) of (i, w) \<Rightarrow> (of_nat i, set_world kWorldId w sv))"

definition remove_player_from :: "u32 \<Rightarrow> u32 \<Rightarrow> 'db server \<Rightarrow> 'db server" where
  "remove_player_from kWorldId kPlayerId sv =
     (let sv = sv\<lparr>player_sessions := (player_sessions sv)(kPlayerId := None)\<rparr>
      in set_world kWorldId (remove_player (unat kPlayerId) (world_at kWorldId sv)) sv)"

text \<open>The overload on a player object goes by the identifier of its database row.\<close>

definition remove_player_object :: "u32 \<Rightarrow> nat \<Rightarrow> 'db server \<Rightarrow> 'db server" where
  "remove_player_object kWorldId r sv =
     remove_player_from kWorldId (model_id (model (player_heap sv r))) sv"

section \<open>Messages\<close>

definition player_tile :: "player \<Rightarrow> tile_columns" where
  "player_tile p = tile (model p)"

definition SendRunEnergy :: "player \<Rightarrow> session \<Rightarrow> session" where
  "SendRunEnergy p = Send (make_packet kRunEnergy (built [put_data (run_energy p)]))"

text \<open>The hit points, 32 bits, are passed as a byte.\<close>

definition SendPlayerHitPoints :: "player \<Rightarrow> session \<Rightarrow> session" where
  "SendPlayerHitPoints p = SendFileConfig kHitPoints (ucast (hit_points p))"

definition SendItemLook :: "player \<Rightarrow> session \<Rightarrow> session" where
  "SendItemLook p = Send (make_packet kItemLook (built [put_data (if old_items_look p then 1 else 0 :: u8)]))"

definition SendCustom161 :: "player \<Rightarrow> session \<Rightarrow> session" where
  "SendCustom161 p =
     (let flag = 0 :: u8;
          flag = (if is_shift_drop p then flag OR 1 else flag);
          flag = (if is_slow_drag p then flag OR 2 else flag);
          flag = (if is_zoom p then flag OR 4 else flag)
      in Send (make_packet kCustomPacket161 (built [put_data flag])))"

definition SendMessage :: "player \<Rightarrow> u16 \<Rightarrow> cstring \<Rightarrow> session \<Rightarrow> session" where
  "SendMessage p kMessageType message =
     Send (make_packet kMessage (built
       [put_smart_be kMessageType, put_data_be (tile_hash (player_tile p)), put_data_be (1 :: u8),
        put_string (username (account (model p))), put_string message]))"

definition map_tiles :: u8 where
  "map_tiles = ucast (drop_bit 4 (MAP_SIZES ! unat map_size))"

definition SendCreateWorldTile :: "player \<Rightarrow> tile_columns \<Rightarrow> session \<Rightarrow> session" where
  "SendCreateWorldTile p kTile =
     Send (make_packet kCreateTile (built
       [put_shifted_pos_be (ucast (GetLocalY kTile (player_tile p) map_tiles) :: u8),
        put_data_be (- ucast (position_z kTile) :: u8),
        put_shifted_neg_be (ucast (GetLocalX kTile (player_tile p) map_tiles) :: u8)]))"

definition SendMusic :: "u16 \<Rightarrow> u8 \<Rightarrow> u8 \<Rightarrow> session \<Rightarrow> session" where
  "SendMusic kMusicId kDelay kVolume =
     Send (make_packet kMusic (built
       [put_data_be kDelay, put_shifted_pos_le kMusicId, put_shifted_pos_le kVolume]))"

definition SendMusicEffect :: "u16 \<Rightarrow> u8 \<Rightarrow> session \<Rightarrow> session" where
  "SendMusicEffect kMusicId kVolume =
     Send (make_packet kMusicEffect (built
       [put_shifted_neg_le kVolume, put_data (0 :: u8), put_data (0 :: u8), put_data (0 :: u8),
        put_data_be kMusicId]))"

text \<open>\<open>worlds().at(1)\<close> throws when the world is not there.\<close>

definition world_checked :: "u32 \<Rightarrow> 'db server \<Rightarrow> nat world res" where
  "world_checked k sv = (case map_of (worlds sv) k of Some w \<Rightarrow> Inr w | None \<Rightarrow> Inl Out_of_range)"

definition SendMultiCombatArea :: "nat \<Rightarrow> nat \<Rightarrow> 'db server \<Rightarrow> 'db server res" where
  "SendMultiCombatArea r k sv =
     bind_res (world_checked 1 sv) (\<lambda>w. Inr (on_session k
       (SendGlobalConfig kCombatMode
         (if IsMultiCombatArea (player_tile (player_heap sv r)) w then 1 else 0)) sv))"

definition skill_of :: "nat \<Rightarrow> Skill" where
  "skill_of n =
     [Attack, Defence, Strength, HitPoints, Range, Prayer, Magic, Cooking, WoodCuting, Fletching,
      Fishing, FIreMaking, Crafting, Smithing, Mining, HerbLore, Agility, Thieving, Slayer, Farming,
      RuneCrafting, Hunter, Construction, Summoning, Dungeoneering, Last_skill] ! n"

definition SendPlayerSkill :: "player \<Rightarrow> nat \<Rightarrow> session \<Rightarrow> session" where
  "SendPlayerSkill p kSkill =
     Send (make_packet kPlayerSkill (built
       [put_shifted_neg_be (of_nat kSkill :: u8),
        put_data_be (GetSkillExperience (skill_of kSkill) (skills (model p))),
        put_shifted_pos_be (GetSkillLevel (skill_of kSkill) (skills (model p)))]))"

section \<open>The map\<close>

text \<open>The area around a player. Another player is 18 bits at the place its index gives; the write
  is out of bounds from index 2046 on.\<close>

fun put_local_players :: "(nat \<Rightarrow> player) \<Rightarrow> nat \<Rightarrow> (nat \<times> nat) list \<Rightarrow> bitbuffer \<Rightarrow> bitbuffer res" where
  "put_local_players heap kPlayerIndex [] b = Inr b"
| "put_local_players heap kPlayerIndex ((i, r) # ps) b =
     (if i = kPlayerIndex then put_local_players heap kPlayerIndex ps b
      else bind_res (put_bits 18 (region_hash (player_tile (heap r))) (bit_seek Seek_set (30 + 18 * i) b))
             (put_local_players heap kPlayerIndex ps))"

definition GetLocalPlayerUpdate :: "u32 \<Rightarrow> u32 \<Rightarrow> player \<Rightarrow> bitbuffer \<Rightarrow> 'db server \<Rightarrow> bitbuffer res" where
  "GetLocalPlayerUpdate kWorldId kPlayerIndex p b sv =
     bind_res (put_bits 30 (tile_hash (player_tile p))
         (bb_lift (\<lambda>c. c\<lparr>bytes := resize_bytes ((30 + 2046 * 18 + 7) div 8) (bytes c)\<rparr>) b)) (\<lambda>b.
       bind_res (world_checked kWorldId sv) (\<lambda>w.
         put_local_players (player_heap sv) (unat kPlayerIndex) (players w) b))"

text \<open>The keys of the map archives, by region, in the configuration of the cache.\<close>

fun put_u32s :: "u32 list \<Rightarrow> bitbuffer \<Rightarrow> bitbuffer" where
  "put_u32s [] b = b"
| "put_u32s (k # ks) b = put_u32s ks (bb_lift (put_data_be k) b)"

definition put_region_keys :: "json \<Rightarrow> u32 \<Rightarrow> bitbuffer \<Rightarrow> bitbuffer res" where
  "put_region_keys kCacheConfig kRegion b =
     bind_res (json_at kCacheConfig ''map_archive_keys'') (\<lambda>keys.
       if json_contains keys (to_string (unat kRegion))
       then bind_res (json_at keys (to_string (unat kRegion))) (\<lambda>j.
              bind_res (json_u32s j) (\<lambda>ks. Inr (put_u32s ks b)))
       else Inr (put_u32s [0, 0, 0, 0] b))"

fun put_regions :: "json \<Rightarrow> u32 list \<Rightarrow> bitbuffer \<Rightarrow> bitbuffer res" where
  "put_regions kCacheConfig [] b = Inr b"
| "put_regions kCacheConfig (x # xs) b = bind_res (put_region_keys kCacheConfig x b) (put_regions kCacheConfig xs)"

definition local_update_first :: "bool \<Rightarrow> nat \<Rightarrow> nat \<Rightarrow> 'db server \<Rightarrow> bitbuffer res" where
  "local_update_first kSendLocalPlayerUpdate r k sv =
     (if kSendLocalPlayerUpdate
      then GetLocalPlayerUpdate 1 (player_index (session_at sv k)) (player_heap sv r) empty_bitbuffer sv
      else Inr empty_bitbuffer)"

definition SendMapRegion :: "nat \<Rightarrow> nat \<Rightarrow> bool \<Rightarrow> 'db server \<Rightarrow> 'db server res" where
  "SendMapRegion r k kSendLocalPlayerUpdate sv =
     (let p = player_heap sv r; t = player_tile p
      in bind_res (local_update_first kSendLocalPlayerUpdate r k sv) (\<lambda>b.
         let b = bb_put_data (- map_size) b;
             b = bb_lift (put_shifted_neg_be (if force_next_map_load_refresh p then 1 else 0 :: u8)) b;
             b = bb_lift (put_data_be (ucast (chunk_x t) :: u16)) b;
             b = bb_lift (put_data_be (ucast (chunk_y t) :: u16)) b
         in bind_res (cache_config_at 718 (config sv)) (\<lambda>kCacheConfig.
            bind_res (put_regions kCacheConfig (GetMapRegions t map_tiles) b) (\<lambda>b.
              Inr (on_session k (Send (make_packet kMapRegion (base b))) sv)))))"

text \<open>The dynamic map: one bit per region, followed for a real region by the low 18 bits of its
  identifier, the least significant first.\<close>

definition region_bits :: "u32 \<Rightarrow> bool list" where
  "region_bits kRegion = (if kRegion = 0 then [False] else True # map (bit kRegion) [0..<18])"

definition SendDynamicMapRegion :: "nat \<Rightarrow> nat \<Rightarrow> bool \<Rightarrow> 'db server \<Rightarrow> 'db server res" where
  "SendDynamicMapRegion r k kSendLocalPlayerUpdate sv =
     (let p = player_heap sv r; t = player_tile p
      in bind_res (local_update_first kSendLocalPlayerUpdate r k sv) (\<lambda>b.
         let b = bb_lift (put_shifted_neg_be (2 :: u8)) b;
             b = bb_lift (put_data_le (ucast (chunk_y t) :: u16)) b;
             b = bb_lift (put_shifted_pos_le (ucast (chunk_x t) :: u16)) b;
             b = bb_lift (put_shifted_neg_be (if force_next_map_load_refresh p then 1 else 0 :: u8)) b;
             b = bb_put_data (- map_size) b;
             regions = GetDynamicMapRegions t map_tiles;
             b = bb_lift (put_bitset_be (concat (map region_bits (fst regions)))) b
         in bind_res (cache_config_at 718 (config sv)) (\<lambda>kCacheConfig.
            bind_res (put_regions kCacheConfig (snd regions) b) (\<lambda>b.
              Inr (on_session k (Send (make_packet kDynamicMapRegion (base b))) sv)))))"

text \<open>\<open>SendMap\<close> tests the constant \<open>false\<close>.\<close>

definition SendMap :: "nat \<Rightarrow> nat \<Rightarrow> bool \<Rightarrow> 'db server \<Rightarrow> 'db server res" where
  "SendMap r k kSendLocalPlayerUpdate sv =
     bind_res (if False then SendDynamicMapRegion r k kSendLocalPlayerUpdate sv
               else SendMapRegion r k kSendLocalPlayerUpdate sv)
       (\<lambda>sv. Inr (on_player r (set_force_next_map_load_refresh False) sv))"

section \<open>Updates of the players in view\<close>

text \<open>Three bit fields in a row.\<close>

definition put_flags :: "(nat \<times> u8) list \<Rightarrow> bitbuffer \<Rightarrow> bitbuffer res" where
  "put_flags fs b = fold (\<lambda>(n, v) r. bind_res r (put_bits n v)) fs (Inr b)"

definition append_appearance :: "buffer \<Rightarrow> bitbuffer \<Rightarrow> buffer" where
  "append_appearance appearance b = put_bytes (bytes appearance) (base b)"

fun local_player_update :: "player list \<Rightarrow> buffer \<Rightarrow> bitbuffer \<Rightarrow> (buffer \<times> bitbuffer) res" where
  "local_player_update [] appearance b = Inr (appearance, b)"
| "local_player_update (p # ps) appearance b =
     (let appearance = put_data (0 :: u8) (GetPlayerAppearance p (put_data (0x10 :: u8) appearance))
      in bind_res (put_flags [(1, 1), (1, 1), (2, 0)] b) (local_player_update ps appearance))"

definition SendLocalPlayerUpdate :: "nat \<Rightarrow> 'db server \<Rightarrow> 'db server res" where
  "SendLocalPlayerUpdate k sv =
     (let ps = concat (map (\<lambda>(_, w). map (player_heap sv \<circ> snd) (players w)) (worlds sv))
      in bind_res (local_player_update ps empty_buffer empty_bitbuffer) (\<lambda>(appearance, b).
         Inr (on_session k (Send (make_packet kLocalPlayerUpdate (append_appearance appearance b))) sv)))"

text \<open>The mask says which blocks follow; it is widened by flags of its own.\<close>

definition data_mask :: "player \<Rightarrow> u32" where
  "data_mask p =
     (let e = entity p; m = 0x40000 OR 0x10;
          m = (if face_entity_last e \<noteq> - 2 then m OR 1 else m);
          m = (if \<not> has_id (slots e ! 0) 0 then m OR 4 else m);
          m = (if \<not> has_id (slots e ! 1) 0 then m OR 0x8000 else m);
          m = (if \<not> has_id (slots e ! 2) 0 then m OR 0x400000 else m);
          m = (if \<not> has_id (slots e ! 3) 0 then m OR 0x800000 else m);
          m = (if update_movement_type p then m OR 0x80 else m);
          m = (if 255 \<le> m then m OR 2 else m)
      in if 65535 \<le> m then m OR 0x400 else m)"

definition put_mask :: "u32 \<Rightarrow> buffer \<Rightarrow> buffer" where
  "put_mask m b =
     (let b = put_data (ucast m :: u8) b;
          b = (if 255 < m then put_data (ucast (drop_bit 8 m) :: u8) b else b)
      in if 65535 < m then put_data (ucast (drop_bit 16 m) :: u8) b else b)"

definition put_graphics :: "graphics \<Rightarrow> buffer \<Rightarrow> buffer" where
  "put_graphics g b =
     (if \<not> has_id g 0
      then put_shifted_pos_be (GetSettingsHash2 g)
             (put_data_vbe (GetSettingsHash g) (put_data_be (graphics_id g) b))
      else b)"

definition entered_view :: "player \<Rightarrow> buffer" where
  "entered_view p =
     (let e = entity p;
          b = put_mask (data_mask p) empty_buffer;
          b = fold (\<lambda>i. put_graphics (slots e ! i)) [0, 1, 2, 3] b;
          b = GetPlayerAppearance p b;
          b = (if face_entity_last e \<noteq> - 2 then put_shifted_pos_be (face_entity_last e) b else b);
          b = put_data (0 :: u8) b
      in if update_movement_type p then put_shifted_pos_be (if is_running p then 2 else 1 :: u32) b else b)"

text \<open>What one player is told about a move from \<open>previous\<close> to \<open>current\<close>.\<close>

definition move_update :: "player \<Rightarrow> tile_columns \<Rightarrow> tile_columns \<Rightarrow> buffer res" where
  "move_update p previous current =
     (let before = WithinDistance (player_tile p) previous 14;
          after = WithinDistance (player_tile p) current 14
      in if before \<and> \<not> after
         then bind_res (put_flags [(1, 1), (1, 0), (2, 0), (1, 0)] empty_bitbuffer)
                (\<lambda>b. Inr (append_appearance empty_buffer b))
         else if \<not> before \<and> after
         then bind_res (put_flags [(1, 1), (1, 1), (2, 0)] empty_bitbuffer)
                (\<lambda>b. Inr (append_appearance (entered_view p) b))
         else Inr empty_buffer)"

fun move_loop :: "(nat \<times> nat) list \<Rightarrow> tile_columns \<Rightarrow> tile_columns \<Rightarrow> 'db server \<Rightarrow> 'db server res" where
  "move_loop [] previous current sv = Inr sv"
| "move_loop ((i, r) # ps) previous current sv =
     (case player_sessions sv (of_nat i) of
        None \<Rightarrow> move_loop ps previous current sv
      | Some k \<Rightarrow>
          (case session_heap sv k of
             None \<Rightarrow> move_loop ps previous current sv
           | Some _ \<Rightarrow>
               bind_res (move_update (player_heap sv r) previous current) (\<lambda>b.
                 move_loop ps previous current
                   (on_session k (Send (make_packet kLocalPlayerUpdate b)) sv))))"

text \<open>\<open>HandleEvent(EventEntityMove)\<close>: the entity is the player object \<open>r\<close>.\<close>

definition HandleEvent_move :: "nat \<Rightarrow> tile_columns \<Rightarrow> 'db server \<Rightarrow> (bool \<times> 'db server) res" where
  "HandleEvent_move r kPreviousPosition sv =
     (case map_of (worlds sv) 1 of
        None \<Rightarrow> Inr (False, sv)
      | Some w \<Rightarrow> bind_res (move_loop (players w) kPreviousPosition (player_tile (player_heap sv r)) sv)
                    (\<lambda>sv. Inr (False, sv)))"

section \<open>Start of a game, and the screen\<close>

definition in_turn_on :: "nat \<Rightarrow> (session \<Rightarrow> session) list \<Rightarrow> 'db server \<Rightarrow> 'db server" where
  "in_turn_on k sends = on_session k (in_order sends)"

definition StartPlayer :: "nat \<Rightarrow> nat \<Rightarrow> 'db server \<Rightarrow> 'db server res" where
  "StartPlayer r k sv =
     bind_res (SendMap r k True sv) (\<lambda>sv.
     let p = player_heap sv r;
         sv = in_turn_on k [SendInterfaces p, SendRunEnergy p, SendPlayerHitPoints p, SendItemLook p,
                SendCustom161 p] sv
     in bind_res (bind_res (setting_of_copy ''server'' ''name'' (config sv)) json_string) (\<lambda>name.
     let sv = on_session k (SendMessage p 0 (ascii ''Welcome to '' @ name)) sv
     in bind_res (bind_res (setting_of_copy ''server'' ''source_url'' (config sv)) json_string) (\<lambda>url.
     let sv = on_session k (SendMessage p 0 (name @
                ascii '' is distributed under the GNU AGPL license. Please visit '' @ url @
                ascii '' to view the source code.'')) sv
     in bind_res (SendMultiCombatArea r k sv) (\<lambda>sv.
        Inr (in_turn_on k ([SendConfig Config_281 1000, SendConfig Config_1159 1, SendConfig Config_1160 (- 1),
                SendGameBarStages] @ map (SendPlayerSkill p) [0..<25]) sv)))))"

text \<open>\<open>sessions_.insert\<close> keeps an entry that is there.\<close>

definition HandleEvent_login :: "nat \<Rightarrow> nat \<Rightarrow> 'db server \<Rightarrow> (bool \<times> 'db server) res" where
  "HandleEvent_login r k sv =
     (let i = player_index (session_at sv k);
          sv = (if i \<in> dom (player_sessions sv) then sv
                else sv\<lparr>player_sessions := (player_sessions sv)(i \<mapsto> k)\<rparr>)
      in bind_res (StartPlayer r k sv) (\<lambda>sv.
         bind_res (HandleEvent_move r (tile_at 0 0 0) sv) (\<lambda>(_, sv). Inr (True, sv))))"

definition HandleEvent_screen :: "nat \<Rightarrow> u8 \<Rightarrow> u16 \<Rightarrow> u16 \<Rightarrow> 'db server \<Rightarrow> bool \<times> 'db server" where
  "HandleEvent_screen k mode width height sv =
     (case map_of (worlds sv) (player_world (session_at sv k)) of
        None \<Rightarrow> (False, sv)
      | Some w \<Rightarrow>
          (case player_at w (unat (player_index (session_at sv k))) of
             None \<Rightarrow> (False, sv)
           | Some r \<Rightarrow>
               let sv = on_player r (set_screen_height height \<circ> set_screen_width width \<circ> set_display_mode mode) sv
               in (True, on_session k (SendInterfaces (player_heap sv r)) sv)))"

end
