(* ===== verification/Xtea.thy ===== *)
theory Xtea
  imports Prelude "HOL-Library.While_Combinator"
begin

text \<open>
  The login block's cipher: \<open>EncryptXTEA\<close> and \<open>DecryptXTEA\<close>
  (\<open>common/include/openrs/common/crypt/xtea.h\<close>) over the block functions of the bundled
  CryptoPP (\<open>external/cryptopp/tea.cpp\<close>), ECB mode, no padding. The locale
  \<open>block_cipher\<close> states what a mode needs of its block functions; ECB is inverted once, inside
  it, and XTEA interprets it.
\<close>

section \<open>Block ciphers and ECB\<close>

text \<open>\<open>ECB_Mode\<close> transforms the complete blocks one by one, in the order of the input; with
  \<open>NO_PADDING\<close> a rest shorter than a block throws.\<close>

function ecb :: "nat \<Rightarrow> (u8 list \<Rightarrow> u8 list) \<Rightarrow> u8 list \<Rightarrow> u8 list res" where
  "ecb n f bs =
     (if bs = [] then Inr []
      else if n = 0 \<or> length bs < n then Inl (Runtime_error ''length is not a multiple of the block size'')
      else bind_res (ecb n f (drop n bs)) (\<lambda>rest. Inr (f (take n bs) @ rest)))"
  by pat_completeness auto
termination
  by (relation "measure (\<lambda>(n, f, bs). length bs)") auto

declare ecb.simps [simp del]

locale block_cipher =
  fixes block :: nat
    and enc :: "'k \<Rightarrow> u8 list \<Rightarrow> u8 list"
    and dec :: "'k \<Rightarrow> u8 list \<Rightarrow> u8 list"
  assumes block_pos: "0 < block"
    and length_enc: "length b = block \<Longrightarrow> length (enc k b) = block"
    and dec_enc: "length b = block \<Longrightarrow> dec k (enc k b) = b"
begin

lemma ecb_enc_ok:
  assumes "block dvd length bs"
  shows "\<exists>cs. ecb block (enc k) bs = Inr cs \<and> length cs = length bs \<and> ecb block (dec k) cs = Inr bs"
  using assms
proof (induction "length bs" arbitrary: bs rule: less_induct)
  case less
  show ?case
  proof (cases "bs = []")
    case True
    then show ?thesis by (simp add: ecb.simps)
  next
    case False
    then have len: "block \<le> length bs" using less.prems by (simp add: dvd_imp_le)
    have "block dvd length (drop block bs)" using less.prems len by (simp add: dvd_diff_nat)
    moreover have "length (drop block bs) < length bs" using False block_pos by simp
    ultimately obtain cs where cs: "ecb block (enc k) (drop block bs) = Inr cs"
      "length cs = length (drop block bs)" "ecb block (dec k) cs = Inr (drop block bs)"
      using less.hyps by blast
    let ?c = "enc k (take block bs)"
    have c: "length ?c = block" "dec k ?c = take block bs"
      using len by (simp_all add: length_enc dec_enc)
    have "ecb block (enc k) bs = Inr (?c @ cs)"
      using False len block_pos cs by (simp add: ecb.simps [of block "enc k" bs])
    moreover have "ecb block (dec k) (?c @ cs) = Inr bs"
      using c cs block_pos by (subst ecb.simps) auto
    ultimately show ?thesis using c cs len by auto
  qed
qed

lemma ecb_partial_block:
  assumes "\<not> block dvd length bs"
  shows "\<exists>e. ecb block f bs = Inl e"
  using assms
proof (induction "length bs" arbitrary: bs rule: less_induct)
  case less
  then have ne: "bs \<noteq> []" by auto
  show ?case
  proof (cases "length bs < block")
    case True
    with ne show ?thesis by (simp add: ecb.simps)
  next
    case False
    then have "\<not> block dvd length (drop block bs)"
      using less.prems by (simp add: dvd_minus_self)
    moreover have "length (drop block bs) < length bs" using ne block_pos by simp
    ultimately obtain e where "ecb block f (drop block bs) = Inl e" using less.hyps by blast
    with ne False block_pos show ?thesis by (simp add: ecb.simps [of block f bs])
  qed
qed

end

section \<open>XTEA\<close>

type_synonym xtea_key = "u32 list"

definition DELTA :: u32 where
  "DELTA = 0x9e3779b9"

text \<open>\<open>GetUserKey\<close> reads four big-endian words; 32 rounds give the limit of the sum.\<close>

definition xtea_key_words :: "u8 list \<Rightarrow> xtea_key" where
  "xtea_key_words key = map (\<lambda>i. of_be (take 4 (drop (4 * i) key))) [0..<4]"

definition xtea_limit :: u32 where
  "xtea_limit = 32 * DELTA"

definition mix :: "u32 \<Rightarrow> u32" where
  "mix z = ((push_bit 4 z XOR drop_bit 5 z) + z)"

definition key_low :: "xtea_key \<Rightarrow> u32 \<Rightarrow> u32" where
  "key_low m_k sm = sm + m_k ! unat (sm AND 3)"

definition key_high :: "xtea_key \<Rightarrow> u32 \<Rightarrow> u32" where
  "key_high m_k sm = sm + m_k ! unat (drop_bit 11 sm AND 3)"

text \<open>One turn of each loop; the loops run until the sum reaches its limit, after 32 turns.\<close>

definition enc_step :: "xtea_key \<Rightarrow> u32 \<times> u32 \<times> u32 \<Rightarrow> u32 \<times> u32 \<times> u32" where
  "enc_step m_k = (\<lambda>(y, z, sm).
     let y = y + (mix z XOR key_low m_k sm);
         sm = sm + DELTA;
         z = z + (mix y XOR key_high m_k sm)
     in (y, z, sm))"

definition dec_step :: "xtea_key \<Rightarrow> u32 \<times> u32 \<times> u32 \<Rightarrow> u32 \<times> u32 \<times> u32" where
  "dec_step m_k = (\<lambda>(y, z, sm).
     let z = z - (mix y XOR key_high m_k sm);
         sm = sm - DELTA;
         y = y - (mix z XOR key_low m_k sm)
     in (y, z, sm))"

definition enc_loop :: "xtea_key \<Rightarrow> u32 \<times> u32 \<times> u32 \<Rightarrow> (u32 \<times> u32 \<times> u32) option" where
  "enc_loop m_k = while_option (\<lambda>(y, z, sm). sm \<noteq> xtea_limit) (enc_step m_k)"

definition dec_loop :: "xtea_key \<Rightarrow> u32 \<times> u32 \<times> u32 \<Rightarrow> (u32 \<times> u32 \<times> u32) option" where
  "dec_loop m_k = while_option (\<lambda>(y, z, sm). sm \<noteq> 0) (dec_step m_k)"

text \<open>The block functions: big-endian words in and out.\<close>

definition block_words :: "u8 list \<Rightarrow> u32 \<times> u32" where
  "block_words b = (of_be (take 4 b), of_be (take 4 (drop 4 b)))"

definition words_block :: "u32 \<Rightarrow> u32 \<Rightarrow> u8 list" where
  "words_block y z = be_bytes y @ be_bytes z"

definition xtea_enc :: "xtea_key \<Rightarrow> u8 list \<Rightarrow> u8 list option" where
  "xtea_enc m_k b = (case block_words b of (y, z) \<Rightarrow>
     map_option (\<lambda>(y, z, _). words_block y z) (enc_loop m_k (y, z, 0)))"

definition xtea_dec :: "xtea_key \<Rightarrow> u8 list \<Rightarrow> u8 list option" where
  "xtea_dec m_k b = (case block_words b of (y, z) \<Rightarrow>
     map_option (\<lambda>(y, z, _). words_block y z) (dec_loop m_k (y, z, xtea_limit)))"

text \<open>\<open>EncryptXTEA\<close> and \<open>DecryptXTEA\<close>. A key that is not 16 bytes long is refused with
  \<open>InvalidKeyLength\<close>. \<open>the\<close> is justified by \<open>xtea_total\<close> below.\<close>

definition EncryptXTEA :: "u8 list \<Rightarrow> u8 list \<Rightarrow> u8 list res" where
  "EncryptXTEA kKeys kInput =
     (if length kKeys \<noteq> 16 then Inl (Runtime_error ''XTEA: not a valid key length'')
      else ecb 8 (the \<circ> xtea_enc (xtea_key_words kKeys)) kInput)"

definition DecryptXTEA :: "u8 list \<Rightarrow> u8 list \<Rightarrow> u8 list res" where
  "DecryptXTEA kKeys kInput =
     (if length kKeys \<noteq> 16 then Inl (Runtime_error ''XTEA: not a valid key length'')
      else ecb 8 (the \<circ> xtea_dec (xtea_key_words kKeys)) kInput)"

section \<open>The loops run for 32 turns and invert each other\<close>

lemma while_option_turns:
  "\<forall>i < n. P ((c ^^ i) s) \<Longrightarrow> \<not> P ((c ^^ n) s) \<Longrightarrow> while_option P c s = Some ((c ^^ n) s)"
proof (induction n arbitrary: s)
  case 0
  then show ?case by (simp add: while_option_unfold)
next
  case (Suc n)
  have "P s" using Suc.prems(1) by (metis funpow_0 zero_less_Suc)
  moreover have "while_option P c (c s) = Some ((c ^^ n) (c s))"
  proof (rule Suc.IH)
    have e: "(c ^^ i) (c s) = (c ^^ Suc i) s" for i by (simp add: funpow_swap1)
    show "\<forall>i < n. P ((c ^^ i) (c s))" unfolding e using Suc.prems(1) Suc_less_eq by blast
    show "\<not> P ((c ^^ n) (c s))" unfolding e by (rule Suc.prems(2))
  qed
  ultimately show ?case by (subst while_option_unfold) (simp add: funpow_swap1)
qed

lemma enc_step_sum: "snd (snd ((enc_step m_k ^^ i) (y, z, s))) = s + of_nat i * DELTA"
  by (induction i) (auto simp: enc_step_def Let_def split_beta algebra_simps)

lemma dec_step_sum: "snd (snd ((dec_step m_k ^^ i) (y, z, s))) = s - of_nat i * DELTA"
  by (induction i) (auto simp: dec_step_def Let_def split_beta algebra_simps)

lemma dec_enc_step: "dec_step m_k (enc_step m_k s) = s"
  by (auto simp: enc_step_def dec_step_def Let_def split_beta)

lemma dec_enc_steps: "(dec_step m_k ^^ n) ((enc_step m_k ^^ n) s) = s"
proof (induction n)
  case (Suc n)
  have "(dec_step m_k ^^ Suc n) ((enc_step m_k ^^ Suc n) s)
      = (dec_step m_k ^^ n) (dec_step m_k (enc_step m_k ((enc_step m_k ^^ n) s)))"
    by (simp add: funpow_swap1)
  then show ?case by (simp add: dec_enc_step Suc)
qed simp

lemma DELTA_multiples:
  assumes "i < 32"
  shows "of_nat i * DELTA \<noteq> xtea_limit" "xtea_limit - of_nat i * DELTA \<noteq> 0"
proof -
  have "\<forall>i \<in> set [0..<32]. of_nat i * DELTA \<noteq> xtea_limit" by code_simp
  then show "of_nat i * DELTA \<noteq> xtea_limit" using assms by simp
  then show "xtea_limit - of_nat i * DELTA \<noteq> 0" by auto
qed

lemma enc_loop_32: "enc_loop m_k (y, z, 0) = Some ((enc_step m_k ^^ 32) (y, z, 0))"
  unfolding enc_loop_def
  by (rule while_option_turns) (use DELTA_multiples in \<open>simp_all add: split_beta enc_step_sum xtea_limit_def\<close>)

lemma dec_loop_32: "dec_loop m_k (y, z, xtea_limit) = Some ((dec_step m_k ^^ 32) (y, z, xtea_limit))"
  unfolding dec_loop_def
  by (rule while_option_turns) (use DELTA_multiples in \<open>simp_all add: split_beta dec_step_sum xtea_limit_def\<close>)

lemma block_words_block [simp]: "block_words (words_block y z) = (y, z)"
  by (simp add: block_words_def words_block_def)

lemma words_block_words:
  "length b = 8 \<Longrightarrow> words_block (fst (block_words b)) (snd (block_words b)) = b"
  by (simp add: block_words_def words_block_def be_bytes_of_be)

lemma xtea_total:
  "(\<exists>c. xtea_enc m_k b = Some c \<and> length c = 8) \<and> (\<exists>c. xtea_dec m_k b = Some c \<and> length c = 8)"
  by (simp add: xtea_enc_def xtea_dec_def split_beta enc_loop_32 dec_loop_32 words_block_def)

text \<open>The two XTEA block functions, whose loops compare a wrapping 32-bit sum
  with their limit, stop for every key and block, after 32 turns.\<close>

lemma xtea_terminates:
  "(\<exists>c. xtea_enc m_k b = Some c \<and> length c = 8) \<and> (\<exists>c. xtea_dec m_k b = Some c \<and> length c = 8)"
  by (rule xtea_total)

lemma xtea_enc_eq: "xtea_enc m_k b = Some (case block_words b of (y, z) \<Rightarrow>
    case (enc_step m_k ^^ 32) (y, z, 0) of (y, z, _) \<Rightarrow> words_block y z)"
  by (simp add: xtea_enc_def split_beta enc_loop_32)

lemma xtea_dec_eq: "xtea_dec m_k b = Some (case block_words b of (y, z) \<Rightarrow>
    case (dec_step m_k ^^ 32) (y, z, xtea_limit) of (y, z, _) \<Rightarrow> words_block y z)"
  by (simp add: xtea_dec_def split_beta dec_loop_32)

lemma xtea_dec_enc: "length b = 8 \<Longrightarrow> the (xtea_dec m_k (the (xtea_enc m_k b))) = b"
proof -
  assume b: "length b = 8"
  obtain y z where w: "block_words b = (y, z)" by fastforce
  obtain y' z' s where e: "(enc_step m_k ^^ 32) (y, z, 0) = (y', z', s)" by (metis prod_cases3)
  have "s = xtea_limit" using enc_step_sum [of 32 m_k y z 0] e by (simp add: xtea_limit_def)
  then have "(dec_step m_k ^^ 32) (y', z', xtea_limit) = (y, z, 0)"
    using dec_enc_steps [of 32 m_k "(y, z, 0)"] e by simp
  then show ?thesis using words_block_words [OF b] w e by (simp add: xtea_enc_eq xtea_dec_eq)
qed

interpretation xtea: block_cipher 8 "\<lambda>m_k. the \<circ> xtea_enc m_k" "\<lambda>m_k. the \<circ> xtea_dec m_k"
proof unfold_locales
  show "length ((the \<circ> xtea_enc k) b) = 8" for k b using xtea_total [of k b] by auto
qed (simp_all add: xtea_dec_enc)

lemma xtea_inverse:
  assumes "length key = 16" and "8 dvd length bs"
  shows "\<exists>cs. EncryptXTEA key bs = Inr cs \<and> length cs = length bs \<and> DecryptXTEA key cs = Inr bs"
  using assms xtea.ecb_enc_ok [of bs "xtea_key_words key"]
  by (simp add: EncryptXTEA_def DecryptXTEA_def)

text \<open>Property C12. \<open>DecryptXTEA\<close> inverts \<open>EncryptXTEA\<close>, under any 16-byte key, on every input
  of whole blocks, and the cipher text has the length of the input.\<close>

theorem xtea_roundtrip:
  assumes "length key = 16" and "8 dvd length bs"
  shows "\<exists>cs. EncryptXTEA key bs = Inr cs \<and> length cs = length bs \<and> DecryptXTEA key cs = Inr bs"
  by (rule xtea_inverse [OF assms])

theorem xtea_roundtrip_witness:
  "\<exists>cs. EncryptXTEA (replicate 16 7) (replicate 24 1) = Inr cs \<and> length cs = 24
     \<and> DecryptXTEA (replicate 16 7) cs = Inr (replicate 24 1)"
  using xtea_roundtrip [of "replicate 16 7" "replicate 24 1"] by simp

text \<open>Both ciphers refuse, with an exception, a key of another length and an input
  that is not made of whole 8-byte blocks: a login block whose length the client did not pad
  ends in an exception, not in a decrypted rest.\<close>

lemma xtea_refuses:
  assumes "length key \<noteq> 16 \<or> \<not> 8 dvd length bs"
  shows "\<exists>e e'. EncryptXTEA key bs = Inl e \<and> DecryptXTEA key bs = Inl e'"
  using assms xtea.ecb_partial_block by (auto simp: EncryptXTEA_def DecryptXTEA_def)

lemma xtea_refuses_witness:
  "\<exists>e e'. EncryptXTEA (replicate 16 0) [1, 2, 3] = Inl e \<and> DecryptXTEA (replicate 16 0) [1, 2, 3] = Inl e'"
  by (rule xtea_refuses) (simp add: dvd_def, presburger)

end
