(* ===== verification/Handlers.thy ===== *)
theory Handlers
  imports WorldManager Xtea
begin

text \<open>
  The packet handlers (\<open>net/codec/handler/global/*\<close>) with the managers they call
  (\<open>manager/cache/cachemanager.cpp\<close>, \<open>grabmanager.h\<close>, \<open>databasemanager.h\<close>), and
  \<open>Session::Read\<close>, which runs them. A handler gets the number \<open>k\<close> of its session in the heap.
  What the handlers call outside of the program is a parameter of type \<open>env\<close>.
\<close>

record 'db env =
  database :: "'db database"
  cryptography :: crypto
  rsa :: "cstring \<Rightarrow> cstring \<Rightarrow> u8 list \<Rightarrow> u8 list res"
  whirlpool :: "u8 list \<Rightarrow> u8 list"
  random_block :: "nat \<Rightarrow> u8 list"
  random_bool :: "nat \<Rightarrow> bool"
  random_skin :: "nat \<Rightarrow> nat"

text \<open>\<open>rsa exponent modulus bytes\<close> is the result of \<open>ApplyFunction\<close> in its shortest big-endian
  form, or what CryptoPP throws for such a key. The random values are drawn once per player object, whose number selects them.\<close>

section \<open>Managers\<close>

definition Manager_GetArchiveData :: "u32 \<Rightarrow> u32 \<Rightarrow> 'db server \<Rightarrow> (bool \<times> u8 list \<times> 'db server) res" where
  "Manager_GetArchiveData kIndexId kArchiveId sv =
     bind_res (if kIndexId = 255 then Inr (main_index (cache_object sv)) else GetStore (cache_object sv) kIndexId)
       (\<lambda>ix. case GetArchiveData ix kArchiveId [] (cache_files sv) of
          (ok, out, h) \<Rightarrow> Inr (ok, out, sv\<lparr>cache_files := h\<rparr>))"

definition WriteKeysToBuffer :: "config_manager \<Rightarrow> buffer \<Rightarrow> buffer res" where
  "WriteKeysToBuffer cm b =
     bind_res (bind_res (setting ''grab'' ''keys'' cm) json_u32s) (\<lambda>ks. Inr (fold (\<lambda>k. put_data_be k) ks b))"

text \<open>The backend is chosen by the mode; any other mode does nothing.\<close>

definition with_backend :: "'db server \<Rightarrow> 'r \<Rightarrow> (backend \<Rightarrow> 'db \<Rightarrow> 'r res \<times> 'db) \<Rightarrow> ('r \<times> 'db server) res" where
  "with_backend sv none f =
     bind_res (bind_res (setting ''database'' ''mode'' (config sv)) json_string) (\<lambda>mode.
       let use = (\<lambda>be. case f be (database_state sv) of
             (Inl e, _) \<Rightarrow> Inl e | (Inr r, s) \<Rightarrow> Inr (r, sv\<lparr>database_state := s\<rparr>))
       in if mode = ascii ''mysql'' then use Mysql
          else if mode = ascii ''sqlite'' then use Sqlite
          else Inr (none, sv))"

definition GetModel :: "'db env \<Rightarrow> string \<Rightarrow> sql_value \<Rightarrow> player_model list \<Rightarrow> 'db server
    \<Rightarrow> ((bool \<times> player_model list) \<times> 'db server) res" where
  "GetModel env kWhereField kWhereValue out sv =
     with_backend sv (False, out) (\<lambda>be. SelectWhere be (database env) kWhereField kWhereValue out)"

definition CreateModel :: "'db env \<Rightarrow> player_model \<Rightarrow> 'db server \<Rightarrow> ((bool \<times> player_model) \<times> 'db server) res" where
  "CreateModel env m sv = with_backend sv (False, m) (\<lambda>be. Save be (database env) m)"

section \<open>Requests for the cache\<close>

text \<open>The loop that copies \<open>n\<close> bytes and puts a marker before every block of 512.\<close>

fun copy_chunks :: "nat \<Rightarrow> buffer \<Rightarrow> buffer \<Rightarrow> (bool \<times> buffer) res" where
  "copy_chunks 0 d out = Inr (True, out)"
| "copy_chunks (Suc n) d out =
     if_get_u8 d (Inr (False, out)) (\<lambda>x d.
       copy_chunks n d (put_data x (if buf_size out mod 512 = 0 then put_data (255 :: u8) out else out)))"

definition PackCacheData :: "u8 \<Rightarrow> u32 \<Rightarrow> u8 \<Rightarrow> u32 \<Rightarrow> buffer \<Rightarrow> buffer \<Rightarrow> (bool \<times> buffer) res" where
  "PackCacheData kIndexId kArchiveId kSettings kRealLength d out =
     copy_chunks (buf_size d) d
       (put_data_be kRealLength (put_data kSettings (put_data_be kArchiveId (put_data kIndexId out))))"

text \<open>The checksums, revisions and digests of all indexes; the counter runs over 32 bits. An
  index that is not there is described by 72 zero bytes.\<close>

definition index_entry :: "cache \<Rightarrow> nat \<Rightarrow> buffer \<Rightarrow> buffer" where
  "index_entry c i b =
     (case GetStore c (of_nat i) of
        Inr store \<Rightarrow>
          put_bytes (index_whirlpool store)
            (put_data_be (table_revision (index_table store)) (put_data_be (index_crc store) b))
      | Inl _ \<Rightarrow> put_bytes (replicate 64 0) (put_data (0 :: u32) (put_data (0 :: u32) b)))"

definition ukeys_table :: "cache \<Rightarrow> buffer" where
  "ukeys_table c = fold (index_entry c) [0..<unat (GetTypeCount c)]
     (put_data (ucast (GetTypeCount c) :: u8) empty_buffer)"

definition SendUKeys :: "'db env \<Rightarrow> nat \<Rightarrow> 'db server \<Rightarrow> 'db server res" where
  "SendUKeys env k sv =
     (let c = cache_object sv
      in if 255 < GetTypeCount c then Inr sv
         else
           let b = ukeys_table c; ukeys_hash = 0 # whirlpool env (bytes b)
           in bind_res (bind_res (setting ''grab'' ''private_exponent'' (config sv)) json_string) (\<lambda>private_exponent.
              bind_res (bind_res (setting ''grab'' ''modulus'' (config sv)) json_string) (\<lambda>modulus.
              bind_res (rsa env private_exponent modulus ukeys_hash) (\<lambda>encrypted_hash.
                let b = put_bytes (0 # encrypted_hash) b
                in bind_res (PackCacheData 255 255 0 (of_nat (buf_size b)) b empty_buffer) (\<lambda>(ok, out).
                   Inr (if ok then on_session k (Send (make_packet kGrabCache out)) sv else sv))))))"

text \<open>The answer to one request: the header of the container and its data in chunks.\<close>

definition archive_reply :: "bool \<Rightarrow> u8 \<Rightarrow> u32 \<Rightarrow> u8 list \<Rightarrow> buffer option res" where
  "archive_reply priority kIndexId kArchiveId cache_data =
     if_get_u8 (buf_of cache_data) (Inr None) (\<lambda>compr d.
     if_get_u32 d (Inr None) (\<lambda>len d.
       let settings = (if priority then compr else compr OR 0x80);
           out = put_data_le len (put_data_le settings (put_data_le kArchiveId (put_data_le kIndexId empty_buffer)));
           real_length = (if compr \<noteq> 0 then betoh len + 4 else betoh len)
       in bind_res (copy_chunks (unat real_length) d out) (\<lambda>(ok, out). Inr (if ok then Some out else None))))"

text \<open>One request. The flag tells whether the loop goes on. \<open>GetArchiveData\<close> throws a
  \<open>runtime_error\<close> for an unknown store, which ends the loop.\<close>

definition grab_request :: "'db env \<Rightarrow> nat \<Rightarrow> u8 \<Rightarrow> u8 \<Rightarrow> u32 \<Rightarrow> 'db server \<Rightarrow> (bool \<times> 'db server) res" where
  "grab_request env k priority kIndexId kArchiveId sv =
     (if priority = 7 then Inr (False, on_session k (set_status kDisconnected) sv)
      else if priority \<noteq> 0 \<and> priority \<noteq> 1 then Inr (True, sv)
      else if betoh kArchiveId = 255 \<and> kIndexId = 255
      then bind_res (SendUKeys env k sv) (\<lambda>sv. Inr (True, sv))
      else (case Manager_GetArchiveData (ucast kIndexId) (betoh kArchiveId) sv of
              Inl (Runtime_error _) \<Rightarrow> Inr (False, sv)
            | Inl e \<Rightarrow> Inl e
            | Inr (False, _, sv) \<Rightarrow> Inr (True, sv)
            | Inr (True, cache_data, sv) \<Rightarrow>
                bind_res (archive_reply (priority = 1) kIndexId kArchiveId cache_data) (\<lambda>r.
                  case r of
                    None \<Rightarrow> Inr (False, sv)
                  | Some out \<Rightarrow> Inr (True, on_session k (Send (make_packet kGrabCache out)) sv))))"

function grab_loop :: "'db env \<Rightarrow> nat \<Rightarrow> buffer \<Rightarrow> 'db server \<Rightarrow> 'db server res" where
  "grab_loop env k b sv =
     (if position b = buf_size b then Inr sv
      else if_get 1 b (Inr sv) (\<lambda>priority b1.
           if_get 1 b1 (Inr sv) (\<lambda>index_id b2.
           if_get 4 b2 (Inr sv) (\<lambda>archive_id b3.
             bind_res (grab_request env k (of_le priority) (of_le index_id) (of_le archive_id) sv) (\<lambda>(go, sv').
               if go then grab_loop env k b3 sv' else Inr sv')))))"
  by pat_completeness auto
termination
  by (relation "measure (\<lambda>(env, k, b, sv). buf_size b - position b)") (auto dest!: get_data_SomeD)

declare grab_loop.simps [simp del]

definition GrabPacketHandler_Handle :: "'db env \<Rightarrow> packet \<Rightarrow> nat \<Rightarrow> 'db server \<Rightarrow> 'db server res" where
  "GrabPacketHandler_Handle env p k sv = grab_loop env k (packet_data p) sv"

section \<open>The first packet of a connection\<close>

definition start_download :: "nat \<Rightarrow> u32 \<Rightarrow> 'db server \<Rightarrow> 'db server" where
  "start_download k kClientBuild = on_session k
     (SetHandler Grab_handler \<circ> SetEncoder Grab_encoder \<circ> SetDecoder Grab_decoder
      \<circ> set_status kDownloadingCache \<circ> set_client_build kClientBuild)"

definition handshake :: "packet \<Rightarrow> nat \<Rightarrow> 'db server \<Rightarrow> 'db server res" where
  "handshake p k sv =
     if_get_u32 (packet_data p) (Inr sv) (\<lambda>client_revision b.
     if_get_u32 b (Inr sv) (\<lambda>_ b.
       if betoh client_revision \<noteq> 718 then Inr (on_session k (SendOpCode kClientOutdated) sv)
       else bind_res (get_string b) (\<lambda>_.
         let sv = start_download k (betoh client_revision) sv
         in bind_res (WriteKeysToBuffer (config sv) empty_buffer) (\<lambda>keys.
            Inr (on_session k (Send (make_packet kStartUp keys)) sv)))))"

definition start_login :: "nat \<Rightarrow> 'db server \<Rightarrow> 'db server" where
  "start_login k = on_session k
     (SendOpCode kStartUp \<circ> SetHandler Login_handler \<circ> SetEncoder Login_encoder \<circ> SetDecoder Login_decoder
      \<circ> set_status kLoggingIn)"

definition PacketHandler_Handle :: "packet \<Rightarrow> nat \<Rightarrow> 'db server \<Rightarrow> 'db server res" where
  "PacketHandler_Handle p k sv =
     (if packet_type p = kHandshake \<and> status (session_at sv k) = kConnected then handshake p k sv
      else if packet_type p = kLogin \<and> status (session_at sv k) = kConnected then Inr (start_login k sv)
      else Inr (on_session k (set_status kDisconnected) sv))"

section \<open>A client in the world\<close>

definition WorldPacketHandler_Handle :: "packet \<Rightarrow> nat \<Rightarrow> 'db server \<Rightarrow> 'db server res" where
  "WorldPacketHandler_Handle p k sv =
     (if packet_type p = kPing
      then Inr (on_session k (Send (new_packet\<lparr>packet_type := kPing\<rparr>)) sv)
      else if packet_type p = kScreen
      then if_get_u8 (packet_data p) (Inr sv) (\<lambda>mode b.
           if_get_u16 b (Inr sv) (\<lambda>width b.
           if_get_u16 b (Inr sv) (\<lambda>height b.
           if_get_u8 b (Inr sv) (\<lambda>_ b.
             Inr (snd (HandleEvent_screen k mode (betoh width) (betoh height) sv))))))
      else Inr sv)"

end
