(* ===== verification/Logins.thy ===== *)
theory Logins
  imports Handlers
begin

text \<open>
  Logging in (\<open>net/codec/handler/global/loginpackethandler.cpp\<close>): the RSA block with the keys
  and the password, the XTEA block with the rest, the account in the database, and the entry
  into the world. A refusal sends one code and ends the handler.
\<close>

section \<open>Fields\<close>

text \<open>A step of the handler: the answer when a field is missing or wrong, and what to do next.\<close>

type_synonym 'db reply = "'db server res"

definition refuse :: "nat \<Rightarrow> PacketType \<Rightarrow> 'db server \<Rightarrow> 'db reply" where
  "refuse k t sv = Inr (on_session k (SendOpCode t) sv)"

definition if_get_string :: "buffer \<Rightarrow> 'r res \<Rightarrow> (cstring \<Rightarrow> buffer \<Rightarrow> 'r res) \<Rightarrow> 'r res" where
  "if_get_string b no yes = bind_res (get_string b) (\<lambda>(ok, s, b). if ok then yes s b else no)"

abbreviation skip :: "nat \<Rightarrow> buffer \<Rightarrow> buffer" where
  "skip n \<equiv> seek Seek_cur n"

section \<open>The two encrypted blocks\<close>

text \<open>The RSA block: \<open>next\<close> gets the keys, the password and the packet behind the block.\<close>

definition read_rsa_block :: "'db env \<Rightarrow> nat \<Rightarrow> packet \<Rightarrow> 'db server
    \<Rightarrow> (u8 list \<Rightarrow> cstring \<Rightarrow> buffer \<Rightarrow> 'db reply) \<Rightarrow> 'db reply" where
  "read_rsa_block env k p sv next =
     if_get_u16 (skip 1 (packet_data p)) (Inr sv) (\<lambda>rsa_block_size b.
       let kRsaBlockSize = unat (betoh rsa_block_size)
       in if remaining b < kRsaBlockSize then refuse k kErrorSession sv
          else bind_res (bind_res (setting ''login'' ''private_exponent'' (config sv)) json_string) (\<lambda>private_exponent.
               bind_res (bind_res (setting ''login'' ''modulus'' (config sv)) json_string) (\<lambda>modulus.
               bind_res (rsa env private_exponent modulus (take kRsaBlockSize (unread b))) (\<lambda>plain.
                 let decrypted = buf_of plain;
                     b = skip kRsaBlockSize b
                 in if_get_u8 decrypted (refuse k kErrorSession sv) (\<lambda>header d.
                      if header \<noteq> 10 then refuse k kErrorSession sv
                      else if remaining d < 16 then refuse k kErrorSession sv
                      else
                        let xtea_keys = take 16 (unread d)
                        in if_get_u64 (skip 16 d) (refuse k kErrorSession sv) (\<lambda>rsa_block d.
                             if rsa_block \<noteq> 0 then refuse k kErrorSession sv
                             else if_get_string d (refuse k kErrorInvalidLogin sv) (\<lambda>pw _.
                               if length pw < 3 \<or> 30 < length pw then refuse k kErrorInvalidLogin sv
                               else next xtea_keys pw b)))))))"

text \<open>The XTEA block starts at the position and is cut to whole blocks of eight bytes.\<close>

definition decode_rest :: "u8 list \<Rightarrow> buffer \<Rightarrow> buffer res" where
  "decode_rest xtea_keys b =
     bind_res (DecryptXTEA xtea_keys (take (remaining b - remaining b mod 8) (unread b))) (\<lambda>bs. Inr (buf_of bs))"

definition read_user :: "nat \<Rightarrow> buffer \<Rightarrow> 'db server
    \<Rightarrow> (cstring \<Rightarrow> u8 \<Rightarrow> u16 \<Rightarrow> u16 \<Rightarrow> buffer \<Rightarrow> 'db reply) \<Rightarrow> 'db reply" where
  "read_user k d sv next =
     if_get_u8 d (refuse k kErrorSession sv) (\<lambda>header d.
       if header \<noteq> 1 then refuse k kErrorSession sv
       else if_get_string d (refuse k kErrorInvalidLogin sv) (\<lambda>user d.
            if_get_u8 d (refuse k kErrorSession sv) (\<lambda>mode d.
            if_get_u16 d (refuse k kErrorSession sv) (\<lambda>width d.
            if_get_u16 d (refuse k kErrorSession sv) (\<lambda>height d.
              next user mode width height d)))))"

text \<open>The parts of the block the server has no use for.\<close>

definition skip_settings :: "nat \<Rightarrow> buffer \<Rightarrow> 'db server \<Rightarrow> (buffer \<Rightarrow> 'db reply) \<Rightarrow> 'db reply" where
  "skip_settings k d sv next =
     (let no = refuse k kErrorSession sv
      in if_get_string (skip 24 (skip 1 d)) no (\<lambda>_ d.
         if_get_u8 (skip 4 d) no (\<lambda>block_length d.
         if_get_u8 (skip 8 (skip 4 (skip (unat block_length) d))) no (\<lambda>has_additional_info d.
         let rest = (\<lambda>d. if_get_string (skip 4 (skip 1 (skip 1 (skip 1 (skip 1 d))))) no
                           (\<lambda>_ d. next (skip 1 d)))
         in if has_additional_info = 1 then if_get_string d no (\<lambda>_ d. rest d) else rest d))))"

text \<open>The checksums of at most 32 indexes; an unknown store throws.\<close>

fun check_crcs :: "nat \<Rightarrow> nat list \<Rightarrow> buffer \<Rightarrow> 'db server \<Rightarrow> 'db reply \<Rightarrow> 'db reply" where
  "check_crcs k [] d sv next = next"
| "check_crcs k (i # is) d sv next =
     bind_res (GetStore (cache_object sv) (of_nat i)) (\<lambda>store.
       if_get_u32 d (refuse k kErrorSession sv) (\<lambda>crc d.
         if index_crc store \<noteq> betoh crc then refuse k kClientOutdated sv
         else check_crcs k is d sv next))"

definition crc_indexes :: "'db server \<Rightarrow> nat list" where
  "crc_indexes sv = [0..<unat (min 32 (GetTypeCount (cache_object sv)))]"

section \<open>The account\<close>

definition register :: "'db env \<Rightarrow> nat \<Rightarrow> cstring \<Rightarrow> cstring \<Rightarrow> 'db server \<Rightarrow> player_model res" where
  "register env r user pw sv =
     bind_res (bind_res (setting_of_copy ''game'' ''starting_location'' (config sv)) json_u32s) (\<lambda>start.
       let s = GenerateRandomString (cryptography env) (random_block env r) [];
           w = EncodePassword (cryptography env) pw s [] 10
       in if length start < 3 then Inl (Undefined ''starting location'')
          else bind_res ((if random_bool env r then SetDefaultFemale else SetDefaultMale) new_appearance) (\<lambda>a.
               bind_res (SetAppearanceColour Skin (of_nat (random_skin env r)) a) (\<lambda>a.
                 Inr (new_player_model
                   \<lparr>account := new_player_columns\<lparr>username := user, salt := s, password := w\<rparr>,
                    looks := a,
                    tile := new_tile (ucast (ucast (start ! 0) :: u16)) (ucast (ucast (start ! 1) :: u16))
                              (ucast (ucast (start ! 2) :: u8))\<rparr>))))"

text \<open>A name that is not in the database is registered on the spot; the result of storing it is
  ignored. \<open>next\<close> gets the player's model and the server.\<close>

definition find_account :: "'db env \<Rightarrow> nat \<Rightarrow> nat \<Rightarrow> cstring \<Rightarrow> cstring \<Rightarrow> 'db server
    \<Rightarrow> (player_model \<Rightarrow> 'db server \<Rightarrow> 'db reply) \<Rightarrow> 'db reply" where
  "find_account env k r user pw sv next =
     bind_res (GetModel env ''username'' (Sql_text user) [] sv) (\<lambda>((found, models), sv).
       if \<not> found
       then bind_res (register env r user pw sv) (\<lambda>m.
            bind_res (CreateModel env m sv) (\<lambda>((_, m), sv). next m sv))
       else if length models \<noteq> 1 then refuse k kErrorInvalidLoginServer sv
       else
         let m = hd models
         in if CheckPassword (cryptography env) pw 10 (assign_model new_player m) then next m sv
            else refuse k kErrorInvalidLogin sv)"

section \<open>Entering the world\<close>

fun world_type_code :: "WorldType \<Rightarrow> u8" where
  "world_type_code Free = 0" | "world_type_code Members = 1" | "world_type_code Subscription = 2"

definition SendLoginDetails :: "nat \<Rightarrow> nat \<Rightarrow> 'db server \<Rightarrow> 'db reply" where
  "SendLoginDetails r k sv =
     (let m = model (player_heap sv r)
      in if 255 < sint (rights (account m)) then Inl (Thrown_pointer ''Invalid player.rights value.'')
         else if 65535 < sint (model_id m) then Inl (Thrown_pointer ''Invalid player.id value.'')
         else bind_res (world_checked 1 sv) (\<lambda>w.
           Inr (on_session k (Send (make_packet kLoginDetails (built
             [put_data_be (ucast (rights (account m)) :: u8), put_data_be (0 :: u8), put_data_be (0 :: u8),
              put_data_be (0 :: u8), put_data_be (1 :: u8), put_data_be (0 :: u8),
              put_data_be (ucast (model_id m) :: u16), put_data_be (world_type_code (world_type w)),
              put_data_be (0 :: u8), put_data_be (0 :: u8), put_data_be (0 :: u8),
              put_data_be (world_type_code (world_type w)), put_string (username (account m))]))) sv)))"

definition enter_world :: "nat \<Rightarrow> nat \<Rightarrow> u8 \<Rightarrow> u16 \<Rightarrow> u16 \<Rightarrow> player_model \<Rightarrow> 'db server \<Rightarrow> 'db reply" where
  "enter_world k r mode width height m sv =
     (let sv = on_player r (\<lambda>_. set_screen_height (betoh height) (set_screen_width (betoh width)
                 (set_display_mode mode (assign_model new_player m)))) sv;
          sv = on_session k (set_player_world 1 \<circ> SetHandler World_handler \<circ> SetEncoder World_encoder
                 \<circ> SetDecoder World_decoder) sv
      in case add_player_to 1 r sv of (i, sv) \<Rightarrow>
           let sv = on_session k (set_player_index i) sv
           in bind_res (SendLoginDetails r k sv) (\<lambda>sv.
              bind_res (HandleEvent_login r k sv) (\<lambda>(_, sv). Inr sv)))"

definition HandleLoginWorld :: "'db env \<Rightarrow> packet \<Rightarrow> nat \<Rightarrow> 'db server \<Rightarrow> 'db reply" where
  "HandleLoginWorld env p k sv =
     read_rsa_block env k p sv (\<lambda>xtea_keys pw b.
     bind_res (decode_rest xtea_keys b) (\<lambda>d.
     read_user k d sv (\<lambda>user mode width height d.
     skip_settings k d sv (\<lambda>d.
     check_crcs k (crc_indexes sv) d sv (
       let r = next_player sv; sv = sv\<lparr>next_player := r + 1\<rparr>
       in find_account env k r user pw sv (enter_world k r mode width height))))))"

definition LoginPacketHandler_Handle :: "'db env \<Rightarrow> packet \<Rightarrow> nat \<Rightarrow> 'db server \<Rightarrow> 'db reply" where
  "LoginPacketHandler_Handle env p k sv =
     (let sv = on_session k ResetDecoder sv
      in if_get_u16 (packet_data p) (Inr sv) (\<lambda>packet_size b.
           if unat (betoh packet_size) \<noteq> remaining b then Inr sv
           else if_get_u32 b (Inr sv) (\<lambda>build b.
                if_get_u32 b (Inr sv) (\<lambda>_ b.
                  if betoh build \<noteq> 718
                  then Inr (on_session k (SendOpCode kClientOutdated \<circ> ResetEncoder) sv)
                  else
                    let sv = on_session k (set_client_build (betoh build)) sv
                    in if packet_type p = kLoginWorld
                       then HandleLoginWorld env (p\<lparr>packet_data := b\<rparr>) k sv else Inr sv))))"

section \<open>Dispatch, and reading a session\<close>

definition Handle :: "'db env \<Rightarrow> packet \<Rightarrow> nat \<Rightarrow> 'db server \<Rightarrow> 'db reply" where
  "Handle env p k sv =
     (case session_handler (session_at sv k) of
        Base_handler \<Rightarrow> PacketHandler_Handle p k sv
      | Grab_handler \<Rightarrow> GrabPacketHandler_Handle env p k sv
      | Login_handler \<Rightarrow> LoginPacketHandler_Handle env p k sv
      | World_handler \<Rightarrow> WorldPacketHandler_Handle p k sv)"

text \<open>The loop of \<open>Session::Read\<close>. The input buffer is private to it; whether it ends is a theorem
  (\<open>None\<close> would be a loop that does not). The flag is \<open>False\<close> when a decoder gives up.\<close>

partial_function (option) read_loop :: "'db env \<Rightarrow> nat \<Rightarrow> buffer \<Rightarrow> 'db server
    \<Rightarrow> (bool \<times> buffer \<times> 'db server) res option" where
  "read_loop env k b sv =
     (if remaining b = 0 then Some (Inr (True, b, sv))
      else (case Decode (session_decoder (session_at sv k)) b new_packet of
              Inl e \<Rightarrow> Some (Inl e)
            | Inr (ok, p, b') \<Rightarrow>
                if \<not> ok then Some (Inr (False, b', sv))
                else (case Handle env p k sv of
                        Inl e \<Rightarrow> Some (Inl e)
                      | Inr sv' \<Rightarrow> read_loop env k b' sv')))"

definition Read :: "'db env \<Rightarrow> nat \<Rightarrow> read_result list \<Rightarrow> nat \<Rightarrow> 'db server
    \<Rightarrow> (read_result list \<times> 'db server) res option" where
  "Read env now rs k sv =
     (case getMessageData now kReadSize rs (socket (session_at sv k)) of
        (r, rs, so) \<Rightarrow>
          let sv = on_session k (socket_update (\<lambda>_. so)) sv
          in case r of
               None \<Rightarrow> Some (Inr (rs, on_session k (set_status kDisconnected) sv))
             | Some [] \<Rightarrow> Some (Inr (rs, on_session k (set_status kDisconnected) sv))
             | Some dat \<Rightarrow>
                 (case read_loop env k (put_bytes dat (buffer_input (session_at sv k))) sv of
                    None \<Rightarrow> None
                  | Some (Inl e) \<Rightarrow> Some (Inl e)
                  | Some (Inr (False, b, sv)) \<Rightarrow> Some (Inr (rs, on_session k (buffer_input_update (\<lambda>_. b)) sv))
                  | Some (Inr (True, b, sv)) \<Rightarrow>
                      Some (Inr (rs, on_session k (buffer_input_update (\<lambda>_. clear_buffer b)
                        \<circ> bytes_received_update (\<lambda>n. size_add n (length dat))) sv))))"

end
