(* ===== verification/Modes.thy ===== *)
theory Modes
  imports Logins
begin

text \<open>
  The life of a session as a state machine. A mode is the status together with the decoder, the
  encoder and the handler in use; the steps between modes are those the packet handlers make.
  What the managers send leaves every session as it is but for its output, and a handler
  changes the mode of no session but its own.
\<close>

section \<open>Results that end well\<close>

text \<open>What holds of the result unless there is a fault. The handlers are nested reads, so their
  properties are proved from the outside in by the rules of this section.\<close>

definition ends :: "('a \<Rightarrow> bool) \<Rightarrow> 'a res \<Rightarrow> bool" where
  "ends P r = (case r of Inl _ \<Rightarrow> True | Inr x \<Rightarrow> P x)"

named_theorems ends_intros \<open>what holds of a result unless there is a fault\<close>

lemma ends_simps [simp]: "ends P (Inl e)" "ends P (Inr x) \<longleftrightarrow> P x"
  by (simp_all add: ends_def)

lemma endsD: "ends P r \<Longrightarrow> r = Inr x \<Longrightarrow> P x"
  by simp

lemma ends_mono: "ends P r \<Longrightarrow> (\<And>x. P x \<Longrightarrow> Q x) \<Longrightarrow> ends Q r"
  by (cases r) auto

lemma ends_bind [ends_intros]: "(\<And>x. m = Inr x \<Longrightarrow> ends P (f x)) \<Longrightarrow> ends P (bind_res m f)"
  by (cases m) auto

lemma ends_bind_ends: "ends Q m \<Longrightarrow> (\<And>x. Q x \<Longrightarrow> ends P (f x)) \<Longrightarrow> ends P (bind_res m f)"
  by (cases m) auto

lemma ends_if [ends_intros]: "(c \<Longrightarrow> ends P x) \<Longrightarrow> (\<not> c \<Longrightarrow> ends P y) \<Longrightarrow> ends P (if c then x else y)"
  by simp

lemma ends_if_get_some:
  "ends P no \<Longrightarrow> (\<And>bs c. get_data n b = Inr (Some (bs, c)) \<Longrightarrow> ends P (yes bs c)) \<Longrightarrow> ends P (if_get n b no yes)"
  by (auto simp: if_get_def split: sum.splits option.splits)

lemma ends_if_get [ends_intros]:
  "ends P no \<Longrightarrow> (\<And>bs c. ends P (yes bs c)) \<Longrightarrow> ends P (if_get n b no yes)"
  by (auto simp: if_get_def split: sum.splits option.splits)

lemma ends_if_get_word [ends_intros]:
  "ends P no \<Longrightarrow> (\<And>w c. ends P (yes8 w c)) \<Longrightarrow> ends P (if_get_u8 b no yes8)"
  "ends P no \<Longrightarrow> (\<And>w c. ends P (yes16 w c)) \<Longrightarrow> ends P (if_get_u16 b no yes16)"
  "ends P no \<Longrightarrow> (\<And>w c. ends P (yes32 w c)) \<Longrightarrow> ends P (if_get_u32 b no yes32)"
  "ends P no \<Longrightarrow> (\<And>w c. ends P (yes64 w c)) \<Longrightarrow> ends P (if_get_u64 b no yes64)"
  unfolding if_get_defs by (blast intro: ends_if_get)+

lemma ends_if_get_string [ends_intros]:
  "ends P no \<Longrightarrow> (\<And>s c. ends P (yes s c)) \<Longrightarrow> ends P (if_get_string b no yes)"
  unfolding if_get_string_def by (rule ends_bind) auto

section \<open>Sending changes nothing else\<close>

definition said :: "session \<Rightarrow> session \<Rightarrow> bool" where
  "said s t \<longleftrightarrow> (\<exists>b. t = s\<lparr>buffer_output := b\<rparr>)"

definition quiet :: "(session \<Rightarrow> session) \<Rightarrow> bool" where
  "quiet f \<longleftrightarrow> (\<forall>s. said s (f s))"

lemma said_refl [simp, intro]: "said s s"
  unfolding said_def by (rule exI [of _ "buffer_output s"]) simp

lemma said_trans [trans]: "said s t \<Longrightarrow> said t u \<Longrightarrow> said s u"
  by (auto simp: said_def)

lemma quietD: "quiet f \<Longrightarrow> said s (f s)"
  by (simp add: quiet_def)

named_theorems quiet_simps \<open>the operations that only send\<close>

lemma quiet_Send [quiet_simps]: "quiet (Send p)"
  by (auto simp: quiet_def said_def Send_output)

lemma quiet_comp [quiet_simps]: "quiet f \<Longrightarrow> quiet g \<Longrightarrow> quiet (f \<circ> g)"
  unfolding quiet_def comp_def by (blast intro: said_trans)

lemma quiet_SendOpCode [quiet_simps]: "quiet (SendOpCode t)"
  unfolding SendOpCode_def [abs_def] by (rule quiet_Send)

lemma in_order_Nil: "in_order [] = id" and in_order_Cons: "in_order (f # fs) = in_order fs \<circ> f"
  by (auto simp: in_order_def fun_eq_iff)

lemma quiet_in_order [quiet_simps]: "list_all quiet fs \<Longrightarrow> quiet (in_order fs)"
proof (induction fs)
  case Nil
  then show ?case by (simp add: in_order_Nil quiet_def)
next
  case (Cons f fs)
  then show ?case unfolding in_order_Cons by (intro quiet_comp) simp_all
qed

lemma quiet_config [quiet_simps]:
  "quiet SendGameBarStagesOther" "quiet SendGameBarStagesPrivate" "quiet (SendConfig c v)"
  "quiet (SendGlobalConfig g v)" "quiet (SendFileConfig f w)" "quiet SendGameBarStages"
  by (simp_all add: quiet_simps SendGameBarStagesOther_def SendGameBarStagesPrivate_def SendConfig_def
      SendConfig1_def SendConfig2_def SendGlobalConfig_def SendGlobalConfig1_def SendGlobalConfig2_def
      SendFileConfig_def SendFileConfig1_def SendFileConfig2_def SendGameBarStages_def)

lemma quiet_tabs [quiet_simps]:
  "quiet (SendTab w t i c)" "quiet (SendTabFor p t u i)" "quiet (SendInterfaceComponentText i co txt)"
  "quiet (SendInterfaceComponentSettings i co m n h)" "quiet (SendHideInterfaceComponent i co hid)"
  "quiet (SendPlayerOption txt sl first cur)" "quiet (SendWindowPane w wt)"
  by (simp_all add: quiet_simps SendTab_def SendTabFor_def SendInterfaceComponentText_def
      SendInterfaceComponentSettings_def SendHideInterfaceComponent_def SendPlayerOption_def SendWindowPane_def)

lemma quiet_player_tabs [quiet_simps]:
  "quiet (SendTabCombatStyles p)" "quiet (SendTabTaskSystem p)" "quiet (SendTabSkills p)"
  "quiet (SendTabSettings p)" "quiet (SendTabPrayerBook p)" "quiet (SendTabEmotes p)"
  "quiet (SendTabQuests p)" "quiet (SendTabInventory p)" "quiet (SendTabEquipment p)"
  "quiet (SendTabSqueelOfFortune p)" "quiet (SendTabTimer p)" "quiet SendUnlockAttackStyleButtons"
  "quiet SendUnlockEmotesBook"
  by (simp_all add: quiet_simps SendTabCombatStyles_def SendTabTaskSystem_def SendTabSkills_def
      SendTabSettings_def SendTabPrayerBook_def SendTabEmotes_def SendTabQuests_def SendTabInventory_def
      SendTabEquipment_def SendTabSqueelOfFortune_def SendTabTimer_def SendUnlockAttackStyleButtons_def
      SendUnlockEmotesBook_def SendUnlockInterfaceComponentOptionsSlot_def)

lemma quiet_both_interfaces [quiet_simps]:
  "quiet (SendFixedInterfaces p)" "quiet (SendResizableInterfaces p)"
  unfolding SendFixedInterfaces_def SendResizableInterfaces_def
  by (rule quiet_in_order, simp add: quiet_simps)+

lemma quiet_interfaces [quiet_simps]: "quiet (SendInterfaces p)"
  unfolding SendInterfaces_def by (rule quiet_in_order) (simp add: quiet_simps)

lemma quiet_world [quiet_simps]:
  "quiet (SendRunEnergy p)" "quiet (SendPlayerHitPoints p)" "quiet (SendItemLook p)"
  "quiet (SendCustom161 p)" "quiet (SendMessage p t msg)" "quiet (SendPlayerSkill p i)"
  by (simp_all add: quiet_simps SendRunEnergy_def SendPlayerHitPoints_def SendItemLook_def
      SendCustom161_def SendMessage_def SendPlayerSkill_def Let_def)

section \<open>What a handler does to the sessions\<close>

text \<open>Session \<open>k\<close> is changed as \<open>R\<close> says, the others are sent something at most.\<close>

definition serves :: "nat \<Rightarrow> (session \<Rightarrow> session \<Rightarrow> bool) \<Rightarrow> 'db server \<Rightarrow> 'db server \<Rightarrow> bool" where
  "serves k R sv sv' \<longleftrightarrow>
     (\<forall>j. rel_option (if j = k then R else said) (session_heap sv j) (session_heap sv' j))"

definition talks :: "'db server \<Rightarrow> 'db server \<Rightarrow> bool" where
  "talks sv sv' \<longleftrightarrow> (\<forall>j. rel_option said (session_heap sv j) (session_heap sv' j))
     \<and> (\<forall>r. model (player_heap sv' r) = model (player_heap sv r)) \<and> worlds sv' = worlds sv"

lemma talks_same:
  "session_heap sv' = session_heap sv \<Longrightarrow> player_heap sv' = player_heap sv \<Longrightarrow> worlds sv' = worlds sv \<Longrightarrow> talks sv sv'"
  by (simp add: talks_def option.rel_refl)

lemma talks_refl [simp, intro]: "talks sv sv"
  by (rule talks_same) simp_all

lemma rel_option_trans:
  "rel_option A x y \<Longrightarrow> rel_option B y z \<Longrightarrow> (\<And>a b c. A a b \<Longrightarrow> B b c \<Longrightarrow> C a c) \<Longrightarrow> rel_option C x z"
  by (cases x; cases y; cases z) auto

lemma talks_trans [trans]: "talks a b \<Longrightarrow> talks b c \<Longrightarrow> talks a c"
  unfolding talks_def by (auto intro: rel_option_trans said_trans)

lemma talks_on_session [simp]: "quiet f \<Longrightarrow> talks sv (on_session k f sv)"
  by (auto simp: talks_def quietD option.rel_map option.rel_refl)

lemma talks_on_player [simp]: "(\<And>p. model (f p) = model p) \<Longrightarrow> talks sv (on_player r f sv)"
  by (simp add: talks_def option.rel_refl)

lemma talks_serves: "talks sv sv' \<Longrightarrow> (\<And>s t. said s t \<Longrightarrow> R s t) \<Longrightarrow> serves k R sv sv'"
  unfolding talks_def serves_def by (auto intro: option.rel_mono_strong)

lemma serves_mono:
  assumes "serves k R sv sv'" "\<And>s t. R s t \<Longrightarrow> S s t"
  shows "serves k S sv sv'"
  unfolding serves_def
proof
  fix j
  show "rel_option (if j = k then S else said) (session_heap sv j) (session_heap sv' j)"
    using assms(1) [unfolded serves_def, rule_format, of j] assms(2)
    by (auto intro: option.rel_mono_strong split: if_splits)
qed

lemma serves_trans:
  assumes "serves k A a b" "serves k B b c" "\<And>s t u. A s t \<Longrightarrow> B t u \<Longrightarrow> C s u"
  shows "serves k C a c"
  unfolding serves_def
proof
  fix j
  show "rel_option (if j = k then C else said) (session_heap a j) (session_heap c j)"
    using assms(1,2) [unfolded serves_def, rule_format, of j] assms(3)
    by (cases "j = k") (auto elim: rel_option_trans intro: said_trans)
qed

lemma serves_on_session: "(\<And>s. R s (f s)) \<Longrightarrow> serves k R sv (on_session k f sv)"
  by (auto simp: serves_def option.rel_map option.rel_refl)

lemma serves_alive: "serves k R sv sv' \<Longrightarrow> session_heap sv' j = None \<longleftrightarrow> session_heap sv j = None"
  unfolding serves_def by (metis option.rel_distinct option.exhaust)


section \<open>The world manager\<close>

lemma screen_keeps_model [simp]:
  "model (set_force_next_map_load_refresh b p) = model p" "model (set_display_mode d p) = model p"
  "model (set_screen_width w p) = model p" "model (set_screen_height h p) = model p"
  by (simp_all add: set_force_next_map_load_refresh_def set_display_mode_def set_screen_width_def set_screen_height_def)

text \<open>Every operation of the world manager talks.\<close>

lemma talks_after: "talks a b \<Longrightarrow> ends (talks b) r \<Longrightarrow> ends (talks a) r"
  by (cases r) (auto intro: talks_trans)

lemma talks_map_regions [ends_intros]:
  "ends (talks sv) (SendMapRegion r k first sv)" "ends (talks sv) (SendDynamicMapRegion r k first sv)"
  unfolding SendMapRegion_def SendDynamicMapRegion_def Let_def
  by (intro ends_intros; simp add: quiet_simps)+

lemma talks_SendMap: "ends (talks sv) (SendMap r k first sv)"
  unfolding SendMap_def if_False
  by (rule ends_bind_ends [OF talks_map_regions(1)]) (auto intro: talks_trans)

lemma talks_SendMultiCombatArea: "ends (talks sv) (SendMultiCombatArea r k sv)"
  unfolding SendMultiCombatArea_def by (intro ends_intros) (simp add: quiet_simps)

lemma talks_move_loop: "ends (talks sv) (move_loop ps previous current sv)"
proof (induction ps previous current sv rule: move_loop.induct)
  case (1 previous current sv)
  then show ?case by simp
next
  case (2 i r ps previous current sv)
  show ?case
  proof (cases "Option.bind (player_sessions sv (of_nat i)) (session_heap sv)")
    case None
    then show ?thesis using 2(1,2) by (auto split: option.splits)
  next
    case (Some s)
    then obtain k where k: "player_sessions sv (of_nat i) = Some k" "session_heap sv k = Some s"
      by (auto simp: bind_eq_Some_conv)
    show ?thesis
    proof (cases "move_update (player_heap sv r) previous current")
      case (Inr b)
      show ?thesis
        using talks_after [OF talks_on_session [OF quiet_Send] 2(3) [OF k Inr]] k Inr by simp
    qed (use k in simp)
  qed
qed

lemma talks_HandleEvent_move: "ends (\<lambda>(_, sv'). talks sv sv') (HandleEvent_move r previous sv)"
  unfolding HandleEvent_move_def
  by (auto split: option.splits intro!: ends_bind elim: endsD [OF talks_move_loop])

lemma talks_in_turn: "list_all quiet fs \<Longrightarrow> talks sv (in_turn_on k fs sv)"
  by (simp add: in_turn_on_def quiet_in_order)

lemma talks_StartPlayer: "ends (talks sv) (StartPlayer r k sv)"
  unfolding StartPlayer_def Let_def
proof (rule ends_bind_ends [OF talks_SendMap], erule talks_after, rule ends_bind, rule ends_bind,
    rule ends_bind_ends [OF talks_after [OF _ talks_SendMultiCombatArea]])
  fix sv1 :: "'a server" and name url
  let ?p = "player_heap sv1 r"
  let ?a = "in_turn_on k [SendInterfaces ?p, SendRunEnergy ?p, SendPlayerHitPoints ?p, SendItemLook ?p, SendCustom161 ?p] sv1"
  have "talks sv1 ?a" by (rule talks_in_turn) (simp add: quiet_simps)
  moreover have "talks s (on_session k (SendMessage ?p 0 m') (on_session k (SendMessage ?p 0 m) s))" for m m' s
    by (rule talks_trans [OF talks_on_session talks_on_session]) (simp_all add: quiet_simps)
  ultimately show "talks sv1 (on_session k (SendMessage ?p 0 (name @
      ascii '' is distributed under the GNU AGPL license. Please visit '' @ url @
      ascii '' to view the source code.'')) (on_session k (SendMessage ?p 0 (ascii ''Welcome to '' @ name)) ?a))"
    by (rule talks_trans)
next
  fix sv1 :: "'a server" and name url sv2
  assume "talks sv1 sv2"
  moreover have "talks sv2 (in_turn_on k ([SendConfig Config_281 1000, SendConfig Config_1159 1,
      SendConfig Config_1160 (- 1), SendGameBarStages] @ map (SendPlayerSkill (player_heap sv1 r)) [0..<25]) sv2)"
    by (rule talks_in_turn) (simp add: quiet_simps list_all_iff)
  ultimately show "ends (talks sv1) (Inr (in_turn_on k ([SendConfig Config_281 1000, SendConfig Config_1159 1,
      SendConfig Config_1160 (- 1), SendGameBarStages] @ map (SendPlayerSkill (player_heap sv1 r)) [0..<25]) sv2))"
    unfolding ends_simps by (rule talks_trans)
qed

lemma talks_HandleEvent_login: "ends (\<lambda>(_, sv'). talks sv sv') (HandleEvent_login r k sv)"
proof -
  let ?i = "player_index (session_at sv k)"
  let ?sv = "if ?i \<in> dom (player_sessions sv) then sv
    else sv\<lparr>player_sessions := (player_sessions sv)(?i \<mapsto> k)\<rparr>"
  have "talks sv ?sv" by (rule talks_same) simp_all
  then have "ends (talks sv) (StartPlayer r k ?sv)" by (rule talks_after) (rule talks_StartPlayer)
  then show ?thesis
    unfolding HandleEvent_login_def Let_def
  proof (rule ends_bind_ends, intro ends_bind)
    fix sv1 x
    assume t: "talks sv sv1" and m: "HandleEvent_move r (tile_at 0 0 0) sv1 = Inr x"
    show "ends (\<lambda>(_, sv'). talks sv sv') (case x of (_, sv) \<Rightarrow> Inr (True, sv))"
      using endsD [OF talks_HandleEvent_move m] t by (auto split: prod.splits intro: talks_trans)
  qed
qed

lemma talks_HandleEvent_screen: "talks sv (snd (HandleEvent_screen k mode width height sv))"
  unfolding HandleEvent_screen_def
  by (auto simp: Let_def quiet_simps split: option.splits intro!: talks_trans [OF talks_on_player talks_on_session])


section \<open>Modes\<close>

type_synonym mode = "SessionStatus \<times> decoder \<times> encoder \<times> handler"

definition mode :: "session \<Rightarrow> mode" where
  "mode s = (status s, session_decoder s, session_encoder s, session_handler s)"

inductive mode_step :: "mode \<Rightarrow> mode \<Rightarrow> bool" where
  download: "mode_step (kConnected, d, e, Base_handler) (kDownloadingCache, Grab_decoder, Grab_encoder, Grab_handler)"
| login: "mode_step (kConnected, d, e, Base_handler) (kLoggingIn, Login_decoder, Login_encoder, Login_handler)"
| drop: "mode_step (st, d, e, h) (kDisconnected, d, e, h)"
| refused: "mode_step (st, d, e, Login_handler) (st, Base_decoder, e, Login_handler)"
| outdated: "mode_step (st, d, e, Login_handler) (st, Base_decoder, Base_encoder, Login_handler)"
| enter: "mode_step (st, Login_decoder, e, Login_handler) (st, World_decoder, World_encoder, World_handler)"

inductive_cases mode_stepE: "mode_step m m'"

definition new_mode :: mode where
  "new_mode = (kConnected, Base_decoder, Base_encoder, Base_handler)"

text \<open>The modes a session can be in: the codecs and the handler belong together, except that a
  session whose login has failed is left with the base decoder.\<close>

fun mode_ok :: "mode \<Rightarrow> bool" where
  "mode_ok (st, d, e, Base_handler) \<longleftrightarrow> d = Base_decoder \<and> e = Base_encoder \<and> st \<in> {kConnected, kDisconnected}"
| "mode_ok (st, d, e, Grab_handler) \<longleftrightarrow> d = Grab_decoder \<and> e = Grab_encoder \<and> st \<in> {kDownloadingCache, kDisconnected}"
| "mode_ok (st, d, e, Login_handler) \<longleftrightarrow>
     (d, e) \<in> {(Login_decoder, Login_encoder), (Base_decoder, Login_encoder), (Base_decoder, Base_encoder)}
     \<and> st \<in> {kLoggingIn, kDisconnected}"
| "mode_ok (st, d, e, World_handler) \<longleftrightarrow> d = World_decoder \<and> e = World_encoder \<and> st \<in> {kLoggingIn, kDisconnected}"

lemma mode_ok_new [simp]: "mode_ok new_mode"
  by (simp add: new_mode_def)

lemma mode_ok_step: "mode_step m m' \<Longrightarrow> mode_ok m \<Longrightarrow> mode_ok m'"
proof (erule mode_stepE)
  fix st d e h
  assume "mode_ok m" "m = (st, d, e, h)" "m' = (kDisconnected, d, e, h)"
  then show "mode_ok m'" by (cases h) auto
qed auto

lemma mode_ok_steps: "mode_step\<^sup>*\<^sup>* m m' \<Longrightarrow> mode_ok m \<Longrightarrow> mode_ok m'"
  by (induction rule: rtranclp_induct) (auto intro: mode_ok_step)

text \<open>The change of a session by its own packets.\<close>

definition moves :: "session \<Rightarrow> session \<Rightarrow> bool" where
  "moves s t \<longleftrightarrow> mode_step\<^sup>*\<^sup>* (mode s) (mode t) \<and> socket t = socket s"

lemma said_moves: "said s t \<Longrightarrow> moves s t"
  by (auto simp: said_def moves_def mode_def)

lemma moves_refl [simp]: "moves s s"
  by (simp add: moves_def)

lemma moves_trans [trans]: "moves s t \<Longrightarrow> moves t u \<Longrightarrow> moves s u"
  by (auto simp: moves_def)

lemma moves_step: "mode_step (mode s) (mode t) \<Longrightarrow> socket t = socket s \<Longrightarrow> moves s t"
  by (auto simp: moves_def)

lemma talks_moves: "talks sv sv' \<Longrightarrow> serves k moves sv sv'"
  by (rule talks_serves) (auto intro: said_moves)

lemma serves_moves_trans: "serves k moves a b \<Longrightarrow> serves k moves b c \<Longrightarrow> serves k moves a c"
  by (erule (1) serves_trans) (rule moves_trans)

lemma serves_own:
  assumes "session_heap sv k = Some s" "R s (f s)"
  shows "serves k R sv (on_session k f sv)"
  using assms by (auto simp: serves_def option.rel_refl)

section \<open>Handlers and modes\<close>

lemma ends_option [ends_intros]:
  "(x = None \<Longrightarrow> ends P a) \<Longrightarrow> (\<And>y. x = Some y \<Longrightarrow> ends P (f y)) \<Longrightarrow> ends P (case x of None \<Rightarrow> a | Some y \<Rightarrow> f y)"
  by (cases x) auto

text \<open>Only the login decoder finds a packet that enters the world.\<close>

lemma Decoder_types:
  "ends (\<lambda>(ok, p', b'). ok \<longrightarrow> packet_type p' \<in> {kHandshake, kLogin, kGrabCache}) (Decoder_Decode b p)"
  unfolding Decoder_Decode_def Let_def
  by (intro ends_intros) (auto simp: Decoder_codes_def assign_data_def split: if_splits)

lemma sized_types:
  "ends (\<lambda>(ok, p', b'). packet_type p' = packet_type p) (sized_default n b p)"
  "ends (\<lambda>(ok, p', b'). packet_type p' = packet_type p) (sized_u32 n b p)"
  "ends (\<lambda>(ok, p', b'). packet_type p' = packet_type p) (sized_u16 n b p)"
  "ends (\<lambda>(ok, p', b'). packet_type p' = packet_type p) (sized_u8 n b p)"
  unfolding sized_u8_def sized_u16_def sized_u32_def sized_default_def Let_def
  by (intro ends_intros | simp add: assign_data_def)+

lemma WorldDecoder_types:
  "ends (\<lambda>(ok, p', b'). ok \<longrightarrow> packet_type p' \<noteq> kLoginWorld) (WorldDecoder_Decode b p)"
  unfolding WorldDecoder_Decode_def
proof (intro ends_intros)
  show "ends (\<lambda>(ok, p', b'). ok \<longrightarrow> packet_type p' \<noteq> kLoginWorld) (Decoder_Decode (step_back c) p)" for c
    by (rule ends_mono [OF Decoder_types]) auto
  show "ends (\<lambda>(ok, p', b'). ok \<longrightarrow> packet_type p' \<noteq> kLoginWorld) (sized n c (p\<lparr>packet_type := t\<rparr>))"
    if "map_of WorldDecoder_codes w = Some t" for w c t n
  proof -
    have "t \<noteq> kLoginWorld" using map_of_SomeD [OF that] by (auto simp: WorldDecoder_codes_def)
    then show ?thesis
      unfolding sized_def by (intro ends_if; intro ends_mono [OF sized_types(1)] ends_mono [OF sized_types(2)]
        ends_mono [OF sized_types(3)] ends_mono [OF sized_types(4)]; auto)
  qed
qed simp_all

lemma Decode_world_login:
  assumes "Decode d b p = Inr (True, p', b')" "packet_type p' = kLoginWorld"
  shows "d = Login_decoder"
proof (cases d)
  case Base_decoder
  then show ?thesis using endsD [OF Decoder_types] assms by fastforce
next
  case Grab_decoder
  then show ?thesis using assms by (auto simp: GrabDecoder_Decode_def Let_def split: if_splits)
next
  case World_decoder
  then show ?thesis using endsD [OF WorldDecoder_types] assms by fastforce
qed


text \<open>The first packet.\<close>

lemma moves_PacketHandler:
  assumes "session_heap sv k = Some s" "session_handler s = Base_handler"
  shows "ends (serves k moves sv) (PacketHandler_Handle p k sv)"
proof -
  have at: "session_at sv k = s" using assms(1) by (simp add: session_at_def)
  have "ends (serves k moves sv) (handshake p k sv)" if "status s = kConnected"
  proof -
    have "moves s ((SetHandler Grab_handler \<circ> SetEncoder Grab_encoder \<circ> SetDecoder Grab_decoder
        \<circ> set_status kDownloadingCache \<circ> set_client_build c) s)" for c
      using assms(2) that by (intro moves_step) (auto simp: mode_def session_ops intro: mode_step.intros)
    then have "serves k moves sv (start_download k c sv)" for c
      unfolding start_download_def by (rule serves_own [OF assms(1)])
    moreover have "serves k moves a (on_session k (Send q) a)" for a :: "'a server" and q
      by (intro talks_moves talks_on_session quiet_Send)
    ultimately have "serves k moves sv (on_session k (Send q) (start_download k c sv))" for q c
      by (blast intro: serves_moves_trans)
    then show ?thesis
      unfolding handshake_def Let_def
      by (intro ends_intros) (simp_all add: talks_moves quiet_simps)
  qed
  moreover have "serves k moves sv (start_login k sv)" if "status s = kConnected"
  proof -
    let ?f = "SetHandler Login_handler \<circ> SetEncoder Login_encoder \<circ> SetDecoder Login_decoder \<circ> set_status kLoggingIn"
    have "moves s (?f s)"
      using assms(2) that by (intro moves_step) (auto simp: mode_def session_ops intro: mode_step.intros)
    moreover have "moves (?f s) (SendOpCode kStartUp (?f s))"
      by (rule said_moves [OF quietD [OF quiet_SendOpCode]])
    ultimately have "moves s ((SendOpCode kStartUp \<circ> SetHandler Login_handler \<circ> SetEncoder Login_encoder
        \<circ> SetDecoder Login_decoder \<circ> set_status kLoggingIn) s)"
      unfolding comp_def by (rule moves_trans)
    then show ?thesis unfolding start_login_def by (rule serves_own [OF assms(1)])
  qed
  moreover have "serves k moves sv (on_session k (set_status kDisconnected) sv)"
    by (rule serves_own [OF assms(1)], rule moves_step)
      (auto simp: mode_def set_status_def intro: mode_step.intros)
  ultimately show ?thesis unfolding PacketHandler_Handle_def at by auto
qed

text \<open>Requests for the cache.\<close>

lemma moves_disconnect: "serves k moves sv (on_session k (set_status kDisconnected) sv)"
  by (rule serves_on_session, rule moves_step)
    (auto simp: mode_def set_status_def intro: mode_step.intros)

lemma talks_SendUKeys: "ends (talks sv) (SendUKeys env k sv)"
  unfolding SendUKeys_def Let_def
  by (intro ends_intros) (auto simp: quiet_simps split: prod.splits)

lemma talks_Manager_GetArchiveData: "ends (\<lambda>(_, _, sv'). talks sv sv') (Manager_GetArchiveData i a sv)"
  unfolding Manager_GetArchiveData_def
  by (intro ends_intros) (auto split: prod.splits intro: talks_same)

lemma moves_grab_request: "ends (\<lambda>(_, sv'). serves k moves sv sv') (grab_request env k priority i a sv)"
proof -
  let ?P = "\<lambda>(_ :: bool, sv'). serves k moves sv sv'"
  have ukeys: "ends ?P (bind_res (SendUKeys env k sv) (\<lambda>sv. Inr (True, sv)))"
    by (rule ends_bind_ends [OF talks_SendUKeys]) (simp add: talks_moves)
  have reply: "ends ?P (bind_res (archive_reply pr i a dat) (\<lambda>r. case r of None \<Rightarrow> Inr (False, sv1)
      | Some out \<Rightarrow> Inr (True, on_session k (Send (make_packet kGrabCache out)) sv1)))"
    if "talks sv sv1" for pr dat sv1
    by (intro ends_intros) (use that in \<open>auto intro!: talks_moves intro: talks_trans simp: quiet_simps\<close>)
  show ?thesis
    unfolding grab_request_def
    using talks_Manager_GetArchiveData [of sv "ucast i" "betoh a"] ukeys reply moves_disconnect [of k sv]
    by (auto simp: talks_moves split: sum.splits fault.splits prod.splits bool.splits)
qed

lemma moves_grab_loop: "ends (serves k moves sv) (grab_loop env k b sv)"
proof (induction env k b sv rule: grab_loop.induct)
  case (1 env k b sv)
  show ?case
    unfolding grab_loop.simps [of env k b sv]
  proof (intro ends_if)
    assume ne: "position b \<noteq> buf_size b"
    show "ends (serves k moves sv) (if_get 1 b (Inr sv) (\<lambda>priority b1. if_get 1 b1 (Inr sv) (\<lambda>index_id b2.
        if_get 4 b2 (Inr sv) (\<lambda>archive_id b3. bind_res (grab_request env k (of_le priority) (of_le index_id)
          (of_le archive_id) sv) (\<lambda>(go, sv'). if go then grab_loop env k b3 sv' else Inr sv')))))"
    proof (rule ends_if_get_some; (rule ends_if_get_some)?; (rule ends_if_get_some)?)
      fix pr b1 ix b2 ar b3
      assume g: "get_data 1 b = Inr (Some (pr, b1))" "get_data 1 b1 = Inr (Some (ix, b2))"
        "get_data 4 b2 = Inr (Some (ar, b3))"
      show "ends (serves k moves sv) (bind_res (grab_request env k (of_le pr) (of_le ix) (of_le ar) sv)
          (\<lambda>(go, sv'). if go then grab_loop env k b3 sv' else Inr sv'))"
      proof (rule ends_bind)
        fix r assume r: "grab_request env k (of_le pr) (of_le ix) (of_le ar) sv = Inr r"
        obtain go sv' where go: "r = (go, sv')" by (cases r)
        have m: "serves k moves sv sv'" using endsD [OF moves_grab_request r] go by simp
        have "ends (serves k moves sv') (grab_loop env k b3 sv')" if go
          by (rule 1) (use ne g r go that in auto)
        then show "ends (serves k moves sv) (case r of (go, sv') \<Rightarrow> if go then grab_loop env k b3 sv' else Inr sv')"
          using m go by (auto intro: ends_mono serves_moves_trans)
      qed
    qed (simp_all add: talks_moves)
  qed (simp add: talks_moves)
qed

end
