(* ===== verification/Accounts.thy ===== *)
theory Accounts
  imports Modes
begin

text \<open>
  What a login does: the account it ends in is the one the encrypted blocks name, with the
  password they carry; a refusal leaves the worlds as they are. The readers of the blocks are
  written with the rest of the handler as an argument; \<open>settled\<close> says that such a reader has
  either decided without it or passes it one value that does not depend on it.
\<close>

section \<open>Readers\<close>

definition settled :: "('r res \<Rightarrow> bool) \<Rightarrow> (('x \<Rightarrow> 'r res) \<Rightarrow> 'r res) \<Rightarrow> bool" where
  "settled Q F \<longleftrightarrow> (\<exists>r. Q r \<and> (\<forall>next. F next = r)) \<or> (\<exists>x. \<forall>next. F next = next x)"

named_theorems settled_intros

lemma settled_const: "Q r \<Longrightarrow> settled Q (\<lambda>_. r)"
  by (auto simp: settled_def)

lemma settled_next: "settled Q (\<lambda>next. next x)"
  by (auto simp: settled_def)

lemma settled_bind [settled_intros]:
  "(\<And>e. Q (Inl e)) \<Longrightarrow> (\<And>x. m = Inr x \<Longrightarrow> settled Q (f x)) \<Longrightarrow> settled Q (\<lambda>next. bind_res m (\<lambda>x. f x next))"
  by (cases m) (auto intro: settled_const)

lemma settled_if [settled_intros]:
  "(c \<Longrightarrow> settled Q F) \<Longrightarrow> (\<not> c \<Longrightarrow> settled Q G) \<Longrightarrow> settled Q (\<lambda>next. if c then F next else G next)"
  by (cases c) simp_all

lemma settled_if_get:
  "(\<And>e. Q (Inl e)) \<Longrightarrow> settled Q no \<Longrightarrow> (\<And>bs c. settled Q (yes bs c))
     \<Longrightarrow> settled Q (\<lambda>next. if_get n b (no next) (\<lambda>bs c. yes bs c next))"
proof (cases "get_data n b")
  case (Inr r)
  then show "settled Q no \<Longrightarrow> (\<And>bs c. settled Q (yes bs c)) \<Longrightarrow> ?thesis"
    by (cases r) (auto simp: if_get_def)
qed (simp add: if_get_def settled_const)

lemma settled_if_get_word [settled_intros]:
  "(\<And>e. Q (Inl e)) \<Longrightarrow> settled Q no \<Longrightarrow> (\<And>w c. settled Q (yes8 w c))
     \<Longrightarrow> settled Q (\<lambda>next. if_get_u8 b (no next) (\<lambda>w c. yes8 w c next))"
  "(\<And>e. Q (Inl e)) \<Longrightarrow> settled Q no \<Longrightarrow> (\<And>w c. settled Q (yes16 w c))
     \<Longrightarrow> settled Q (\<lambda>next. if_get_u16 b (no next) (\<lambda>w c. yes16 w c next))"
  "(\<And>e. Q (Inl e)) \<Longrightarrow> settled Q no \<Longrightarrow> (\<And>w c. settled Q (yes64 w c))
     \<Longrightarrow> settled Q (\<lambda>next. if_get_u64 b (no next) (\<lambda>w c. yes64 w c next))"
  unfolding if_get_defs by (rule settled_if_get; assumption)+

lemma settled_if_get_string [settled_intros]:
  "(\<And>e. Q (Inl e)) \<Longrightarrow> settled Q no \<Longrightarrow> (\<And>s c. settled Q (yes s c))
     \<Longrightarrow> settled Q (\<lambda>next. if_get_string b (no next) (\<lambda>s c. yes s c next))"
  unfolding if_get_string_def by (rule settled_bind, assumption) (simp add: split_beta settled_if)

text \<open>The answers of a handler that has not entered the world.\<close>

definition refusal :: "nat \<Rightarrow> 'db server \<Rightarrow> 'db server res \<Rightarrow> bool" where
  "refusal k sv r = ends (talks sv) r"

lemma refusal_simps [simp]: "refusal k sv (Inl e)" "refusal k sv (Inr sv)" "refusal k sv (refuse k t sv)"
  by (simp_all add: refusal_def refuse_def quiet_simps)

lemma settled_rsa_block:
  "settled (refusal k sv) (\<lambda>next. read_rsa_block env k p sv (\<lambda>ks pw b. next (ks, pw, b)))"
  unfolding read_rsa_block_def Let_def
  by (intro settled_intros settled_next settled_const refusal_simps)

lemma settled_user:
  "settled (refusal k sv) (\<lambda>next. read_user k d sv (\<lambda>user mode w h d. next (user, mode, w, h, d)))"
  unfolding read_user_def
  by (intro settled_intros settled_next settled_const refusal_simps)

lemma settled_ends:
  assumes "settled Q F" "\<And>r. Q r \<Longrightarrow> ends P r" "\<And>x. (\<forall>next. F next = next x) \<Longrightarrow> ends P (f x)"
  shows "ends P (F f)"
  using assms unfolding settled_def by metis

section \<open>The account\<close>

text \<open>The name and the password that a packet carries.\<close>

definition offered :: "'db env \<Rightarrow> nat \<Rightarrow> packet \<Rightarrow> 'db server \<Rightarrow> cstring \<Rightarrow> cstring \<Rightarrow> bool" where
  "offered env k p sv user pw \<longleftrightarrow> (\<exists>ks b d mode w h rest.
     (\<forall>next. read_rsa_block env k p sv next = next ks pw b) \<and> decode_rest ks b = Inr d
     \<and> (\<forall>next. read_user k d sv next = next user mode w h rest))"

text \<open>The account: the only row of that name, whose password the offered one must match, or a
  fresh one when there is none.\<close>

definition owns :: "'db env \<Rightarrow> nat \<Rightarrow> cstring \<Rightarrow> cstring \<Rightarrow> 'db server \<Rightarrow> player_model \<Rightarrow> bool" where
  "owns env r user pw sv m \<longleftrightarrow>
     (\<exists>found models sv1. GetModel env ''username'' (Sql_text user) [] sv = Inr ((found, models), sv1)
       \<and> (if found then models = [m] \<and> CheckPassword (cryptography env) pw 10 (assign_model new_player m)
          else \<exists>m0 ok sv2. register env r user pw sv1 = Inr m0 \<and> CreateModel env m0 sv1 = Inr ((ok, m), sv2)))"

definition db_only :: "'db server \<Rightarrow> 'db server \<Rightarrow> bool" where
  "db_only sv sv' \<longleftrightarrow> (\<exists>s. sv' = sv\<lparr>database_state := s\<rparr>)"

lemma db_only_refl [simp]: "db_only sv sv"
  unfolding db_only_def by (rule exI [of _ "database_state sv"]) simp

lemma db_only_trans: "db_only a b \<Longrightarrow> db_only b c \<Longrightarrow> db_only a c"
  by (auto simp: db_only_def)

lemma db_only_talks: "db_only sv sv' \<Longrightarrow> talks sv sv'"
  by (auto simp: db_only_def intro: talks_same)

lemma with_backend_db_only: "ends (\<lambda>(_, sv'). db_only sv sv') (with_backend sv none f)"
  unfolding with_backend_def Let_def
  by (intro ends_intros) (auto simp: db_only_def intro: exI [of _ "database_state sv"] split: prod.splits sum.splits)

lemma ends_find_account:
  assumes "\<And>t sv1. db_only sv sv1 \<Longrightarrow> ends P (refuse k t sv1)"
    and "\<And>m sv1. db_only sv sv1 \<Longrightarrow> owns env r user pw sv m \<Longrightarrow> ends P (next m sv1)"
  shows "ends P (find_account env k r user pw sv next)"
  unfolding find_account_def
proof (rule ends_bind)
  fix x assume g: "GetModel env ''username'' (Sql_text user) [] sv = Inr x"
  obtain found models sv1 where x: "x = ((found, models), sv1)" by (metis surj_pair)
  have d: "db_only sv sv1" using endsD [OF with_backend_db_only g [unfolded GetModel_def]] x by simp
  have new: "ends P (next m sv2)"
    if "register env r user pw sv1 = Inr m0" "CreateModel env m0 sv1 = Inr ((ok, m), sv2)" "\<not> found" for m0 ok m sv2
  proof (rule assms(2))
    have "db_only sv1 sv2" using endsD [OF with_backend_db_only that(2) [unfolded CreateModel_def]] by simp
    then show "db_only sv sv2" using d by (rule db_only_trans [rotated])
    show "owns env r user pw sv m"
      unfolding owns_def using g x that by auto
  qed
  have old: "owns env r user pw sv (hd models)"
    if "found" "length models = 1" "CheckPassword (cryptography env) pw 10 (assign_model new_player (hd models))"
  proof -
    have "models = [hd models]" using that(2) by (cases models) auto
    moreover have "GetModel env ''username'' (Sql_text user) [] sv = Inr ((True, models), sv1)" using g x that(1) by simp
    ultimately show ?thesis unfolding owns_def using that(3) by (metis (full_types))
  qed
  show "ends P (case x of (y, sv1) \<Rightarrow> (case y of (found, models) \<Rightarrow> \<lambda>sv1.
      if \<not> found then bind_res (register env r user pw sv1) (\<lambda>m. bind_res (CreateModel env m sv1)
          (\<lambda>((_, m), sv). next m sv))
      else if length models \<noteq> 1 then refuse k kErrorInvalidLoginServer sv1
      else let m = hd models in if CheckPassword (cryptography env) pw 10 (assign_model new_player m) then next m sv1
           else refuse k kErrorInvalidLogin sv1) sv1)"
    unfolding x prod.case Let_def
  proof (intro ends_if ends_bind)
    fix m0 y assume "\<not> found" "register env r user pw sv1 = Inr m0" "CreateModel env m0 sv1 = Inr y"
    then show "ends P (case y of (x, sv) \<Rightarrow> (case x of (_, m) \<Rightarrow> \<lambda>sv. next m sv) sv)"
      using new by (cases y) auto
  next
    assume "\<not> \<not> found" "\<not> length models \<noteq> 1"
      "CheckPassword (cryptography env) pw 10 (assign_model new_player (hd models))"
    then show "ends P (next (hd models) sv1)" using assms(2) [OF d old] by simp
  qed (rule assms(1) [OF d])+
qed

section \<open>Entering\<close>

text \<open>The session is switched to the world, and the new player object has the account.\<close>

definition entering :: "session \<Rightarrow> session \<Rightarrow> bool" where
  "entering s t \<longleftrightarrow> mode t = (status s, World_decoder, World_encoder, World_handler) \<and> socket t = socket s"

lemma said_entering: "entering s t \<Longrightarrow> said t u \<Longrightarrow> entering s u"
  by (auto simp: entering_def said_def mode_def)

lemma serves_talks: "serves k R a b \<Longrightarrow> talks b c \<Longrightarrow> (\<And>s t u. R s t \<Longrightarrow> said t u \<Longrightarrow> R s u) \<Longrightarrow> serves k R a c"
  by (erule serves_trans [OF _ talks_serves, of k R a b c said R]) auto

lemma talks_serves_trans: "talks a b \<Longrightarrow> serves k R b c \<Longrightarrow> (\<And>s t u. said s t \<Longrightarrow> R t u \<Longrightarrow> R s u) \<Longrightarrow> serves k R a c"
  by (rule serves_trans [OF talks_serves, of a b said k R c R]) auto

lemma talks_SendLoginDetails: "ends (talks sv) (SendLoginDetails r k sv)"
  unfolding SendLoginDetails_def Let_def
  by (intro ends_intros) (simp_all add: quiet_simps)

lemma enter_world_enters:
  "ends (\<lambda>sv'. serves k entering sv sv' \<and> model (player_heap sv' r) = m) (enter_world k r md width height m sv)"
proof -
  let ?p = "set_screen_height (betoh height) (set_screen_width (betoh width) (set_display_mode md (assign_model new_player m)))"
  let ?f = "set_player_world 1 \<circ> SetHandler World_handler \<circ> SetEncoder World_encoder \<circ> SetDecoder World_decoder"
  let ?sv1 = "on_session k ?f (on_player r (\<lambda>_. ?p) sv)"
  obtain i sv2 where a: "add_player_to 1 r ?sv1 = (i, sv2)" by fastforce
  then have h: "session_heap sv2 = session_heap ?sv1" "player_heap sv2 = player_heap ?sv1"
    by (auto simp: add_player_to_def set_world_def split: prod.splits)
  let ?sv3 = "on_session k (set_player_index i) sv2"
  have e: "serves k entering sv ?sv3"
    unfolding serves_def by (auto simp: h option.rel_map option.rel_refl entering_def mode_def session_ops)
  have m: "model (player_heap ?sv3 r) = m" by (simp add: h assign_model_def)
  have "ends (talks ?sv3) (bind_res (SendLoginDetails r k ?sv3) (\<lambda>sv. bind_res (HandleEvent_login r k sv) (\<lambda>(_, sv). Inr sv)))"
    by (rule ends_bind_ends [OF talks_SendLoginDetails], rule ends_bind_ends [OF talks_HandleEvent_login])
      (auto split: prod.splits intro: talks_trans)
  then have "ends (\<lambda>sv'. serves k entering sv sv' \<and> model (player_heap sv' r) = m)
      (bind_res (SendLoginDetails r k ?sv3) (\<lambda>sv. bind_res (HandleEvent_login r k sv) (\<lambda>(_, sv). Inr sv)))"
    by (rule ends_mono) (use m serves_talks [OF e _ said_entering] in \<open>auto simp: talks_def\<close>)
  then show ?thesis unfolding enter_world_def Let_def a prod.case .
qed


section \<open>The login handler\<close>

lemma ends_skip_settings:
  assumes "\<And>t. ends P (refuse k t sv)" "\<And>d. ends P (next d)"
  shows "ends P (skip_settings k d sv next)"
  unfolding skip_settings_def Let_def by (intro ends_intros assms)

lemma ends_check_crcs:
  "(\<And>t. ends P (refuse k t sv)) \<Longrightarrow> ends P next \<Longrightarrow> ends P (check_crcs k is d sv next)"
proof (induction k "is" d sv "next" rule: check_crcs.induct)
  case (2 k i "is" d sv "next")
  show ?case unfolding check_crcs.simps
    by (intro ends_bind ends_if_get_word ends_if 2(2)) (rule 2(1) [OF _ _ 2(2,3)])
qed simp

lemma refuse_talks [simp]: "talks sv sv1 \<Longrightarrow> ends (talks sv) (refuse k t sv1)"
  by (auto simp: refuse_def quiet_simps intro: talks_trans)

lemma HandleLoginWorld_outcome:
  "ends (\<lambda>sv'. talks sv sv' \<or>
       (\<exists>user pw m. offered env k p sv user pw
         \<and> owns env (next_player sv) user pw (sv\<lparr>next_player := next_player sv + 1\<rparr>) m
         \<and> serves k entering sv sv' \<and> model (player_heap sv' (next_player sv)) = m))
     (HandleLoginWorld env p k sv)" (is "ends ?P _")
proof -
  let ?r = "next_player sv" and ?sv = "sv\<lparr>next_player := next_player sv + 1\<rparr>"
  have refused: "ends ?P r" if "ends (talks sv) r" for r
    using that by (rule ends_mono) blast
  have same: "talks sv ?sv" by (rule talks_same) simp_all
  have account: "ends ?P (find_account env k ?r user pw ?sv (enter_world k ?r md w h))"
    if "offered env k p sv user pw" for user pw md w h
  proof (rule ends_find_account)
    fix t sv1 assume "db_only ?sv sv1"
    then show "ends ?P (refuse k t sv1)"
      by (intro refused refuse_talks talks_trans [OF same]) (rule db_only_talks)
  next
    fix m sv1 assume d: "db_only ?sv sv1" and o: "owns env ?r user pw ?sv m"
    have "session_heap sv1 = session_heap sv" using d by (auto simp: db_only_def)
    then have s: "serves k entering sv sv' \<longleftrightarrow> serves k entering sv1 sv'" for sv'
      by (simp add: serves_def)
    show "ends ?P (enter_world k ?r md w h m sv1)"
      by (rule ends_mono [OF enter_world_enters [of k sv1 ?r m]]) (use that o s in blast)
  qed
  have user: "ends ?P (read_user k d sv (\<lambda>user md w h d. skip_settings k d sv (\<lambda>d.
      check_crcs k (crc_indexes sv) d sv (find_account env k ?r user pw ?sv (enter_world k ?r md w h)))))"
    if "\<forall>next. read_rsa_block env k p sv next = next ks pw b" "decode_rest ks b = Inr d" for ks pw b d
  proof (rule settled_ends [OF settled_user [of k sv d], where f = "\<lambda>(user, md, w, h, d). skip_settings k d sv (\<lambda>d.
      check_crcs k (crc_indexes sv) d sv (find_account env k ?r user pw ?sv (enter_world k ?r md w h)))",
      unfolded prod.case])
    fix x assume x: "\<forall>next. read_user k d sv (\<lambda>user md w h d. next (user, md, w, h, d)) = next x"
    obtain user md w h d' where xe: "x = (user, md, w, h, d')" by (metis surj_pair)
    have "\<forall>next. read_user k d sv next = next user md w h d'"
      using x [THEN spec, of "\<lambda>(u, m, w, h, d). f u m w h d" for f] unfolding xe by simp
    then have "offered env k p sv user pw" unfolding offered_def using that by blast
    then show "ends ?P (case x of (user, md, w, h, d) \<Rightarrow> skip_settings k d sv (\<lambda>d.
        check_crcs k (crc_indexes sv) d sv (find_account env k ?r user pw ?sv (enter_world k ?r md w h))))"
      unfolding xe prod.case by (intro ends_skip_settings ends_check_crcs account refused refuse_talks talks_refl)
  qed (rule refused, simp only: refusal_def)
  have "ends ?P (read_rsa_block env k p sv (\<lambda>ks pw b. bind_res (decode_rest ks b) (\<lambda>d.
      read_user k d sv (\<lambda>user md w h d. skip_settings k d sv (\<lambda>d.
      check_crcs k (crc_indexes sv) d sv (find_account env k ?r user pw ?sv (enter_world k ?r md w h)))))))"
  proof (rule settled_ends [OF settled_rsa_block [of k sv env p], where f = "\<lambda>(ks, pw, b). bind_res (decode_rest ks b) (\<lambda>d.
      read_user k d sv (\<lambda>user md w h d. skip_settings k d sv (\<lambda>d.
      check_crcs k (crc_indexes sv) d sv (find_account env k ?r user pw ?sv (enter_world k ?r md w h)))))",
      unfolded prod.case])
    fix x assume x: "\<forall>next. read_rsa_block env k p sv (\<lambda>ks pw b. next (ks, pw, b)) = next x"
    obtain ks pw b where xe: "x = (ks, pw, b)" by (metis surj_pair)
    have "\<forall>next. read_rsa_block env k p sv next = next ks pw b"
      using x [THEN spec, of "\<lambda>(ks, pw, b). f ks pw b" for f] unfolding xe by simp
    then show "ends ?P (case x of (ks, pw, b) \<Rightarrow> bind_res (decode_rest ks b) (\<lambda>d.
      read_user k d sv (\<lambda>user md w h d. skip_settings k d sv (\<lambda>d.
      check_crcs k (crc_indexes sv) d sv (find_account env k ?r user pw ?sv (enter_world k ?r md w h))))))"
      unfolding xe prod.case by (intro ends_bind user)
  qed (rule refused, simp only: refusal_def)
  then show ?thesis unfolding HandleLoginWorld_def Let_def .
qed

text \<open>Property C3. A login packet puts its session into the world only with the name and the
  password that its encrypted blocks carry, and only as the one account of that name whose
  stored password they match, or as a fresh account when the database reports none of that name;
  the session and its new player object are then set up for that account. In every other case
  the handler sends an answer at most: no session changes but in its output, no player's
  account changes, and the worlds stay as they are.\<close>

theorem login_authenticates:
  "ends (\<lambda>sv'. talks sv sv' \<or>
       (\<exists>user pw m. offered env k p sv user pw
         \<and> owns env (next_player sv) user pw (sv\<lparr>next_player := next_player sv + 1\<rparr>) m
         \<and> serves k entering sv sv' \<and> model (player_heap sv' (next_player sv)) = m))
     (HandleLoginWorld env p k sv)"
  by (rule HandleLoginWorld_outcome)

end
