(* ===== verification/Reads.thy ===== *)
theory Reads
  imports Accounts
begin

text \<open>
  Reading a session: every packet moves its session along the steps of the state machine, the
  read loop ends whatever the peer sends, and what the first packets do.
\<close>

section \<open>One packet\<close>

lemma on_session_comp: "on_session k f (on_session k g sv) = on_session k (f \<circ> g) sv"
  by (simp add: on_session_def option.map_comp)

lemma moves_LoginPacketHandler:
  assumes s: "session_heap sv k = Some s" "session_handler s = Login_handler"
    and dec: "packet_type p = kLoginWorld \<Longrightarrow> session_decoder s = Login_decoder"
  shows "ends (serves k moves sv) (LoginPacketHandler_Handle env p k sv)"
proof -
  let ?sv = "on_session k ResetDecoder sv"
  have reset: "serves k moves sv ?sv"
    by (rule serves_own [OF s(1)], rule moves_step)
      (auto simp: mode_def session_ops s(2) intro: mode_step.intros)
  have outdated: "serves k moves sv (on_session k (SendOpCode t \<circ> ResetEncoder) ?sv)" for t
  proof -
    have "moves s (ResetEncoder (ResetDecoder s))"
      by (rule moves_step) (auto simp: mode_def session_ops s(2) intro: mode_step.intros)
    then have "moves s ((SendOpCode t \<circ> ResetEncoder \<circ> ResetDecoder) s)"
      unfolding comp_def by (rule moves_trans) (rule said_moves [OF quietD [OF quiet_SendOpCode]])
    then have "serves k moves sv (on_session k (SendOpCode t \<circ> ResetEncoder \<circ> ResetDecoder) sv)"
      by (rule serves_own [OF s(1)])
    then show ?thesis by (simp add: on_session_comp comp_assoc)
  qed
  have world: "ends (serves k moves sv) (HandleLoginWorld env (p\<lparr>packet_data := b\<rparr>) k (on_session k (set_client_build c) ?sv))"
    if "packet_type p = kLoginWorld" for b c
  proof (rule ends_mono [OF HandleLoginWorld_outcome])
    fix sv'
    let ?f = "\<lambda>s. set_client_build c (ResetDecoder s)" and ?sv2 = "on_session k (set_client_build c) ?sv"
    have own: "serves k (\<lambda>u t. u = s \<and> t = ?f s) sv ?sv2"
      using serves_own [OF s(1), of "\<lambda>u t. u = s \<and> t = ?f s" ?f] by (simp add: on_session_comp comp_def)
    assume "talks ?sv2 sv' \<or> (\<exists>user pw m. offered env k (p\<lparr>packet_data := b\<rparr>) ?sv2 user pw
        \<and> owns env (next_player ?sv2) user pw (?sv2\<lparr>next_player := next_player ?sv2 + 1\<rparr>) m
        \<and> serves k entering ?sv2 sv' \<and> model (player_heap sv' (next_player ?sv2)) = m)"
    then have "serves k (\<lambda>s t. said s t \<or> entering s t) ?sv2 sv'"
      by (auto intro: talks_serves serves_mono)
    then show "serves k moves sv sv'"
    proof (rule serves_trans [OF own])
      fix u t v
      assume u: "u = s \<and> t = ?f s" and v: "said t v \<or> entering t v"
      have "mode_step (mode s) (mode v)" "socket v = socket s"
        using u v s(2) dec [OF that]
        by (auto simp: said_def entering_def mode_def session_ops intro: mode_step.intros)
      then show "moves u v" using u by (auto intro: moves_step)
    qed
  qed
  have "serves k moves ?sv (on_session k (set_client_build c) ?sv)" for c
    by (rule serves_on_session) (simp add: moves_def mode_def set_client_build_def)
  then have build: "serves k moves sv (on_session k (set_client_build c) ?sv)" for c
    by (rule serves_moves_trans [OF reset])
  show ?thesis
    unfolding LoginPacketHandler_Handle_def Let_def
    by (intro ends_intros) (use reset outdated world build in simp_all)
qed

lemma talks_WorldPacketHandler: "ends (talks sv) (WorldPacketHandler_Handle p k sv)"
  unfolding WorldPacketHandler_Handle_def
  by (intro ends_intros) (simp_all add: quiet_simps talks_HandleEvent_screen)

lemma moves_Handle:
  assumes "session_heap sv k = Some s" "packet_type p = kLoginWorld \<Longrightarrow> session_decoder s = Login_decoder"
  shows "ends (serves k moves sv) (Handle env p k sv)"
proof -
  have at: "session_at sv k = s" using assms(1) by (simp add: session_at_def)
  show ?thesis
  proof (cases "session_handler s")
    case Base_handler
    then show ?thesis using moves_PacketHandler [OF assms(1)] by (simp add: Handle_def at)
  next
    case Grab_handler
    then show ?thesis using moves_grab_loop by (simp add: Handle_def at GrabPacketHandler_Handle_def)
  next
    case Login_handler
    then show ?thesis using moves_LoginPacketHandler [OF assms(1) _ assms(2)] by (simp add: Handle_def at)
  next
    case World_handler
    have "ends (serves k moves sv) (WorldPacketHandler_Handle p k sv)"
      by (rule ends_mono [OF talks_WorldPacketHandler]) (rule talks_moves)
    then show ?thesis using World_handler by (simp add: Handle_def at)
  qed
qed

section \<open>The loop\<close>

text \<open>An input past the end of its bytes, as the grab decoder can leave it, stops every decoder.\<close>

lemma overrun_stops:
  assumes "buf_size b < position b" "Decode d b p = Inr (ok, p', b')"
  shows "\<not> ok"
proof -
  have none: "get_data 1 b = Inr None \<or> (\<exists>e. get_data 1 b = Inl e)"
    using assms(1) by (auto simp: get_data_def size_add_def)
  show ?thesis
  proof (cases d)
    case Grab_decoder
    then show ?thesis using assms by (auto simp: GrabDecoder_Decode_def split: if_splits)
  qed (use none assms(2) in \<open>auto simp: Decoder_Decode_def LoginDecoder_Decode_def WorldDecoder_Decode_def
      if_get_u8_def if_get_def\<close>)
qed

lemma Decode_keeps:
  "input_ok b \<Longrightarrow> Decode d b p = Inr (True, p', b') \<Longrightarrow> bytes b' = bytes b \<and> position b < position b'"
  by (cases d) (simp_all add: base_decoder.keeps base_decoder.progress login_decoder.keeps login_decoder.progress
      world_decoder.keeps world_decoder.progress grab_decoder.keeps grab_decoder.progress)

lemma read_loop_returns:
  assumes "input_ok b"
  shows "read_loop env k b sv \<noteq> None"
  using assms
proof (induction "buf_size b - position b" arbitrary: b sv rule: less_induct)
  case less
  show ?case
  proof (cases "remaining b = 0")
    case False
    show ?thesis
    proof (cases "Decode (session_decoder (session_at sv k)) b new_packet")
      case (Inr r)
      obtain ok p b' where r: "r = (ok, p, b')" by (metis surj_pair)
      show ?thesis
      proof (cases ok)
        case True
        then have d: "Decode (session_decoder (session_at sv k)) b new_packet = Inr (True, p, b')"
          using Inr r by simp
        have b': "bytes b' = bytes b" "position b < position b'" using Decode_keeps [OF less.prems d] by auto
        show ?thesis
        proof (cases "Handle env p k sv")
          case (Inr sv')
          have "read_loop env k b' sv' \<noteq> None"
          proof (cases "position b' \<le> buf_size b'")
            case True
            have "input_ok b'" using less.prems True b' by (simp add: input_ok_def buf_ok_def)
            moreover have "position b < buf_size b" using True b' by simp
            ultimately show ?thesis using less.hyps [of b' sv'] b' by simp
          next
            case False
            then have "Decode d b' q \<noteq> Inr (True, p', c)" for d q p' c
              using overrun_stops [of b' d q True p' c] by auto
            then show ?thesis by (subst read_loop.simps) (auto split: sum.splits)
          qed
          then show ?thesis using d Inr False by (subst read_loop.simps) simp
        qed (use d False in \<open>subst read_loop.simps, simp\<close>)
      qed (use Inr r False in \<open>subst read_loop.simps, simp\<close>)
    qed (use False in \<open>subst read_loop.simps, simp\<close>)
  qed (subst read_loop.simps, simp)
qed

lemma getMessageData_bound:
  "getMessageData now m rs so = (Some dat, rs', so') \<Longrightarrow> length dat \<le> m"
  using read_data_readable [of "[]" m rs]
  by (auto simp: getMessageData_def split: prod.splits option.splits)


lemma Read_total:
  assumes "position (buffer_input (session_at sv k)) \<le> buf_size (buffer_input (session_at sv k))"
    and "2 * (buf_size (buffer_input (session_at sv k)) + kReadSize) < size_max"
    and "session_heap sv k \<noteq> None"
  shows "Read env now rs k sv \<noteq> None"
proof -
  let ?s = "session_at sv k"
  obtain r rs' so where g: "getMessageData now kReadSize rs (socket ?s) = (r, rs', so)" by (metis surj_pair)
  let ?sv = "on_session k (socket_update (\<lambda>_. so)) sv"
  have in_eq: "buffer_input (session_at ?sv k) = buffer_input ?s"
    using assms(3) by (auto simp: session_at_def)
  show ?thesis
  proof (cases r)
    case (Some dat)
    have "length dat \<le> kReadSize" using getMessageData_bound g Some by blast
    then have "input_ok (put_bytes dat (buffer_input ?s))"
      using assms(1,2) by (auto simp: input_ok_def buf_ok_def kReadSize_def)
    from read_loop_returns [OF this, of env k ?sv] show ?thesis
      using g Some in_eq by (cases dat) (auto simp: Read_def Let_def split: option.splits sum.splits prod.splits bool.splits)
  qed (use g in \<open>simp add: Read_def Let_def\<close>)
qed

section \<open>Reading what the peer sends\<close>

text \<open>Property C6. Whatever the peer sends, and whatever the state of the session and of the server,
  reading a session returns: the input can hold what is read without its size wrapping around.\<close>

theorem Read_returns:
  assumes "position (buffer_input (session_at sv k)) \<le> buf_size (buffer_input (session_at sv k))"
    and "2 * (buf_size (buffer_input (session_at sv k)) + kReadSize) < size_max"
    and "session_heap sv k \<noteq> None"
  shows "Read env now rs k sv \<noteq> None"
  by (rule Read_total [OF assms])

section \<open>The handshake\<close>

text \<open>The handshake of a client of build 718: the code, the size, the build, a sub-build and a token.\<close>

definition handshake_bytes :: "u32 \<Rightarrow> cstring \<Rightarrow> u8 list" where
  "handshake_bytes sub token =
     [15, of_nat (length token + 9)] @ be_bytes (718 :: u32) @ be_bytes sub @ token @ [0]"


lemma read_data_once:
  "bs \<noteq> [] \<Longrightarrow> length bs < m \<Longrightarrow> read_data m [] [Got bs] = (Some bs, [])"
  by (simp add: read_data.simps [of m "[]"] read_data.simps [of m bs])

lemma Decoder_at:
  assumes b: "at_bytes b (c # n # body @ rest)" and c: "map_of Decoder_codes c = Some t"
    and n: "unat n = length body" "body \<noteq> []"
  shows "Decoder_Decode b p = Inr (True, p\<lparr>packet_type := t, packet_data := (packet_data p)\<lparr>bytes := body\<rparr>\<rparr>,
    advance (length body + 2) b)"
proof -
  have b1: "at_bytes (advance 1 b) (n # body @ rest)"
    using at_bytes_advance [of b "[c]" "n # body @ rest" 1] b by simp
  have b2: "at_bytes (advance 2 b) (body @ rest)"
    using at_bytes_advance [of b "[c, n]" "body @ rest" 2] b by simp
  have ok: "buf_ok b" "buf_ok (advance 1 b)" "buf_ok (advance 2 b)" using b b1 b2 by (auto simp: at_bytes_def)
  have u: "unread (advance 2 b) = body @ rest" using b2 by (simp only: at_bytes_def)
  have len: "buf_size b = position b + 2 + length body + length rest"
    using length_unread [of b] ok(1) b by (simp add: at_bytes_def buf_ok_def)
  have r1: "remaining (advance 1 b) \<noteq> 0"
    using remaining_unread [OF ok(2)] b1 by (simp only: at_bytes_def) simp
  have s: "skip_data (assign_data (length body) (advance 2 b) q) (advance 2 b) = advance (length body + 2) b" for q
  proof -
    have "buf_size (packet_data (assign_data (length body) (advance 2 b) q)) = length body"
      unfolding assign_data_def u by simp
    moreover have "length body \<le> length (unread (advance 2 b))" unfolding u by simp
    ultimately show ?thesis
      unfolding skip_data_def by (simp only: seek_cur_ok [OF ok(3)] advance_advance add.commute)
  qed
  have a: "assign_data (length body) (advance 2 b) q = q\<lparr>packet_data := (packet_data q)\<lparr>bytes := body\<rparr>\<rparr>" for q
    unfolding assign_data_def u by simp
  show ?thesis
    unfolding Decoder_Decode_def if_get_u8_at [OF b] c option.case Let_def if_get_u8_at [OF b1] advance_advance one_add_one n(1)
    using r1 n(2) len s [of "p\<lparr>packet_type := t\<rparr>"] by (simp add: a)
qed

lemma handshake_accepted:
  assumes "packet_data p = buf_of (be_bytes (718 :: u32) @ be_bytes (sub :: u32) @ token @ [0])"
    and "set token \<inter> {0, 10} = {}" "length token < 247"
    and keys: "bind_res (setting ''grab'' ''keys'' (config sv)) json_u32s = Inr ks"
  shows "handshake p k sv = Inr (on_session k (Send (make_packet kStartUp
    \<lparr>bytes = concat (map be_bytes ks), position = 0\<rparr>)) (start_download k 718 sv))"
proof -
  let ?b = "packet_data p"
  have b: "at_bytes ?b (be_bytes (718 :: u32) @ be_bytes sub @ token @ [0])"
    unfolding assms(1) by (rule at_bytes_buf_of) (use assms(3) in \<open>simp add: size_max_def\<close>)
  have b1: "at_bytes (advance 4 ?b) (be_bytes sub @ token @ [0])"
    by (rule at_bytes_advance [OF b]) simp
  have b2: "at_bytes (advance 8 ?b) (token @ [0])"
    using at_bytes_advance [OF b1, of 4] by simp
  have "\<exists>r. get_string (advance 8 ?b) = Inr r"
    using get_string_found [of "advance 8 ?b" token 0 "[]"] b2 assms(2) by (simp only: at_bytes_def) auto
  then obtain r where g: "get_string (advance 8 ?b) = Inr r" ..
  have "fold (\<lambda>k. put_data_be k) ks b = put_bytes (concat (map be_bytes ks)) b" for b
    by (induction ks arbitrary: b) (simp_all add: put_data_be_u32)
  then have w: "WriteKeysToBuffer (config (start_download k 718 sv)) empty_buffer
      = Inr \<lparr>bytes = concat (map be_bytes ks), position = 0\<rparr>"
    using keys by (simp add: WriteKeysToBuffer_def start_download_def empty_buffer_def put_bytes_def)
  show ?thesis
    unfolding handshake_def if_get_u32_at [OF b] if_get_u32_at [OF b1] using g w by simp
qed


section \<open>The first read\<close>

lemma cleared: "clear_buffer b = empty_buffer"
  by (cases b) (simp add: clear_buffer_def empty_buffer_def)

lemma Read_once:
  assumes s: "session_heap sv k = Some s" "buffer_input s = empty_buffer" and bs: "bs \<noteq> []" "length bs < kReadSize"
  shows "Read env now [Got bs] k sv =
    (let sv1 = on_session k (socket_update (last_active_update (\<lambda>_. now))) sv
     in case read_loop env k (buf_of bs) sv1 of
          None \<Rightarrow> None
        | Some (Inl e) \<Rightarrow> Some (Inl e)
        | Some (Inr (False, b, sv)) \<Rightarrow> Some (Inr ([], on_session k (buffer_input_update (\<lambda>_. b)) sv))
        | Some (Inr (True, b, sv)) \<Rightarrow>
            Some (Inr ([], on_session k (buffer_input_update (\<lambda>_. clear_buffer b)
              \<circ> bytes_received_update (\<lambda>n. size_add n (length bs))) sv)))"
proof -
  have "on_session k (socket_update (\<lambda>_. (socket s)\<lparr>last_active := now\<rparr>)) sv
      = on_session k (socket_update (last_active_update (\<lambda>_. now))) sv"
  proof -
    have "s\<lparr>socket := (socket s)\<lparr>last_active := now\<rparr>\<rparr> = socket_update (last_active_update (\<lambda>_. now)) s"
      by (cases s) simp
    then show ?thesis unfolding on_session_def s(1) option.map by (simp only:)
  qed
  moreover have "put_bytes bs (buffer_input s) = buf_of bs"
    using s(2) by (simp add: put_bytes_def empty_buffer_def buf_of_def)
  ultimately show ?thesis
    using s bs read_data_once [of bs kReadSize]
    by (cases bs) (hypsubst, simp add: Read_def getMessageData_def session_at_def Let_def)+
qed

lemma read_loop_handshake:
  assumes s: "session_heap sv k = Some s" "mode s = new_mode"
    and tok: "set token \<inter> {0, 10} = {}" "length token < 247"
    and keys: "bind_res (setting ''grab'' ''keys'' (config sv)) json_u32s = Inr ks"
    and room: "length (handshake_bytes sub token @ req) < kReadSize"
  shows "read_loop env k (buf_of (handshake_bytes sub token @ req)) sv =
    read_loop env k (advance (length (handshake_bytes sub token)) (buf_of (handshake_bytes sub token @ req)))
      (on_session k (Send (make_packet kStartUp \<lparr>bytes = concat (map be_bytes ks), position = 0\<rparr>))
        (start_download k 718 sv))"
proof -
  let ?body = "be_bytes (718 :: u32) @ be_bytes sub @ token @ [0]" and ?b = "buf_of (handshake_bytes sub token @ req)"
  have m: "status s = kConnected" "session_decoder s = Base_decoder" "session_handler s = Base_handler"
    using s(2) by (simp_all add: mode_def new_mode_def)
  have at: "session_at sv k = s" using s(1) by (simp add: session_at_def)
  have b: "at_bytes ?b (15 # of_nat (length token + 9) # ?body @ req)"
    using at_bytes_buf_of [of "handshake_bytes sub token @ req"] room
    by (simp add: handshake_bytes_def kReadSize_def size_max_def)
  have n: "unat (of_nat (length token + 9) :: u8) = length ?body"
    using tok(2) by (simp add: unat_of_nat del: of_nat_add)
  have d: "Decoder_Decode ?b new_packet = Inr (True, make_packet kHandshake (buf_of ?body),
      advance (length (handshake_bytes sub token)) ?b)"
    using Decoder_at [OF b _ n, of kHandshake new_packet]
    by (simp add: Decoder_codes_def new_packet_def make_packet_def empty_buffer_def buf_of_def handshake_bytes_def)
  have "buf_ok ?b" "unread ?b = 15 # of_nat (length token + 9) # ?body @ req" using b by (simp_all only: at_bytes_def)
  then have "remaining ?b \<noteq> 0" by (simp only: remaining_unread) simp
  then show ?thesis
    using d handshake_accepted [of "make_packet kHandshake (buf_of ?body)" sub token sv ks k] tok keys
    by (subst read_loop.simps) (simp add: at m Handle_def PacketHandler_Handle_def)
qed

text \<open>Property C14. A client of the right build is served: when the handshake of a fresh connection
  arrives, with any token that fits, reading it puts the session into the download of the cache
  and queues the answer, a zero and the keys of the configuration in big-endian order.\<close>

theorem handshake_answered:
  assumes "session_heap sv k = Some s" "mode s = new_mode" "buffer_input s = empty_buffer"
    and "set token \<inter> {0, 10} = {}" "length token < 247"
    and "bind_res (setting ''grab'' ''keys'' (config sv)) json_u32s = Inr ks"
  shows "\<exists>sv' t. Read env now [Got (handshake_bytes sub token)] k sv = Some (Inr ([], sv'))
    \<and> session_heap sv' k = Some t \<and> buffer_input t = empty_buffer \<and> client_build t = 718
    \<and> mode t = (kDownloadingCache, Grab_decoder, Grab_encoder, Grab_handler)
    \<and> bytes (buffer_output t) = bytes (buffer_output s) @ 0 # concat (map be_bytes ks)"
proof -
  let ?bs = "handshake_bytes sub token" and ?f = "socket_update (last_active_update (\<lambda>_. now))"
  let ?send = "Send (make_packet kStartUp \<lparr>bytes = concat (map be_bytes ks), position = 0\<rparr>)"
  let ?sv1 = "on_session k ?f sv"
  have len: "length ?bs < kReadSize" "?bs \<noteq> []"
    using assms(5) by (simp_all add: handshake_bytes_def kReadSize_def)
  have "remaining (advance (length ?bs) (buf_of ?bs)) = 0"
    using len(1) size_sub_le [of "length ?bs" "length ?bs"]
    by (simp add: remaining_def advance_def buf_of_def kReadSize_def size_max_def)
  then have "read_loop env k (buf_of ?bs) ?sv1
      = Some (Inr (True, advance (length ?bs) (buf_of ?bs), on_session k ?send (start_download k 718 ?sv1)))"
    using read_loop_handshake [of ?sv1 k "?f s" token ks sub "[]" env] assms len
    by (simp add: mode_def read_loop.simps [of env k "advance _ _"])
  then have "Read env now [Got ?bs] k sv = Some (Inr ([], on_session k (buffer_input_update (\<lambda>_. empty_buffer)
      \<circ> bytes_received_update (\<lambda>n. size_add n (length ?bs))) (on_session k ?send (start_download k 718 ?sv1))))"
    using Read_once [OF assms(1,3) len(2,1), of env now] by (simp add: Let_def cleared)
  then show ?thesis
    using assms(1)
    by (simp add: start_download_def session_ops mode_def Send_def Send_buffer_def GrabEncoder_Encode_def
        GrabEncoder_codes_def no_code_def put_bytes_def empty_buffer_def)
qed


section \<open>A request that comes too early\<close>

lemma grab_modes_stay:
  "mode_step\<^sup>*\<^sup>* m m' \<Longrightarrow> snd m = (Grab_decoder, Grab_encoder, Grab_handler) \<Longrightarrow> snd m' = snd m"
  by (induction rule: rtranclp_induct) (auto elim!: mode_stepE)

text \<open>When the grab decoder does not start at the front of the input it skips past its end, and the
  next round of the loop reads there.\<close>

lemma grab_overrun:
  assumes s: "session_heap sv k = Some s" "snd (mode s) = (Grab_decoder, Grab_encoder, Grab_handler)"
    and b: "input_ok b" "0 < position b" "6 \<le> length (unread b)" "hd (unread b) \<le> 7"
  shows "\<exists>e. read_loop env k b sv = Some (Inl e)"
proof -
  let ?c = "b\<lparr>position := size_add (position b) (buf_size b)\<rparr>"
  have ok: "buf_ok b" using b(1) ..
  have pos: "position b < buf_size b" using b(3) by (simp add: length_unread)
  have small: "position b + buf_size b < size_max" using b(1) pos by (simp add: input_ok_def)
  have at: "session_decoder (session_at sv k) = Grab_decoder" "session_handler (session_at sv k) = Grab_handler"
    using s by (simp_all add: session_at_def mode_def)
  have c: "position ?c = position b + buf_size b" "buf_size ?c = buf_size b"
    using small by (simp_all add: size_add_small)
  have r: "remaining ?c = size_max - position b"
    using size_sub_underflow [of "buf_size b" "position b + buf_size b"] b(2) small by (simp add: remaining_def size_add_small)
  obtain p where d: "GrabDecoder_Decode b new_packet = Inr (True, p, ?c)"
    using GrabDecoder_cases [OF ok, of new_packet] b(3,4) by (simp add: not_less [symmetric])
  have first: "read_loop env k b sv = (case Handle env p k sv of Inl e \<Rightarrow> Some (Inl e) | Inr sv' \<Rightarrow> read_loop env k ?c sv')"
  proof -
    have "remaining b \<noteq> 0" using remaining_unread [OF ok] b(3) by auto
    then show ?thesis using d at by (subst read_loop.simps) simp
  qed
  show ?thesis
  proof (cases "Handle env p k sv")
    case (Inr sv')
    have h: "Handle env p k sv = grab_loop env k (packet_data p) sv"
      using at by (simp add: Handle_def GrabPacketHandler_Handle_def)
    have "ends (serves k moves sv) (Handle env p k sv)" unfolding h by (rule moves_grab_loop)
    then have "rel_option moves (session_heap sv k) (session_heap sv' k)"
      unfolding Inr ends_simps serves_def by (auto dest: spec [of _ k])
    then obtain t where t: "session_heap sv' k = Some t" "moves s t"
      unfolding s(1) by (cases "session_heap sv' k") auto
    then have "snd (mode t) = (Grab_decoder, Grab_encoder, Grab_handler)"
      using grab_modes_stay [of "mode s" "mode t"] s(2) by (simp add: moves_def)
    then have "session_decoder (session_at sv' k) = Grab_decoder"
      using t(1) by (simp add: session_at_def mode_def)
    moreover have "GrabDecoder_Decode ?c new_packet = Inl Out_of_range"
      unfolding GrabDecoder_Decode_def r c using pos small by (auto simp: size_max_def)
    moreover have "remaining ?c \<noteq> 0" unfolding r using small by simp
    ultimately have "read_loop env k ?c sv' = Some (Inl Out_of_range)"
      by (subst read_loop.simps) simp
    then show ?thesis unfolding first Inr by simp
  qed (simp add: first)
qed

text \<open>Property C29. A client that does not wait for the answer to its handshake stops the server: when
  its first requests for the cache arrive together with the handshake, reading the session ends in an
  exception, whatever the requests ask for. The grab decoder copies the input from its start, but
  skips as much from the position on, so that the next round of the loop reads past the end.\<close>

theorem early_request_throws:
  assumes "session_heap sv k = Some s" "mode s = new_mode" "buffer_input s = empty_buffer"
    and "set token \<inter> {0, 10} = {}" "length token < 247"
    and "bind_res (setting ''grab'' ''keys'' (config sv)) json_u32s = Inr ks"
    and "6 \<le> length requests" "hd requests \<le> 7" "length requests < 512"
  shows "\<exists>e. Read env now [Got (handshake_bytes sub token @ requests)] k sv = Some (Inl e)"
proof -
  let ?bs = "handshake_bytes sub token @ requests" and ?f = "socket_update (last_active_update (\<lambda>_. now))"
  let ?send = "Send (make_packet kStartUp \<lparr>bytes = concat (map be_bytes ks), position = 0\<rparr>)"
  let ?sv1 = "on_session k ?f sv" and ?b = "advance (length (handshake_bytes sub token)) (buf_of ?bs)"
  let ?sv2 = "on_session k ?send (start_download k 718 ?sv1)"
  have len: "length ?bs < kReadSize" "?bs \<noteq> []" "handshake_bytes sub token \<noteq> []"
    using assms(5,9) by (simp_all add: handshake_bytes_def kReadSize_def)
  have loop: "read_loop env k (buf_of ?bs) ?sv1 = read_loop env k ?b ?sv2"
    using assms len by (intro read_loop_handshake [of _ _ "?f s"]) (simp_all add: mode_def)
  have b: "input_ok ?b" "0 < position ?b" "unread ?b = requests"
    using len by (simp_all add: input_ok_def buf_ok_def buf_of_def unread_def advance_def kReadSize_def size_max_def)
  have s2: "session_heap ?sv2 k = Some (?send (SetHandler Grab_handler (SetEncoder Grab_encoder (SetDecoder Grab_decoder
      (set_status kDownloadingCache (set_client_build 718 (?f s)))))))"
    using assms(1) by (simp add: start_download_def)
  have "\<exists>e. read_loop env k ?b ?sv2 = Some (Inl e)"
    by (rule grab_overrun [OF s2 _ b(1,2)]) (use b assms in \<open>simp_all add: mode_def session_ops Send_output\<close>)
  then show ?thesis
    using Read_once [OF assms(1,3) len(2,1), of env now] loop by (auto simp: Let_def)
qed


section \<open>Examples\<close>

text \<open>A server with the default configuration and one fresh connection, with an empty database and
  trivial cryptography.\<close>

definition sample_env :: "unit env" where
  "sample_env = \<lparr>database = (\<lambda>_ _ s. (Inr \<lparr>fetched = False, insert_id = 0, rows = []\<rparr>, s)),
     cryptography = \<lparr>pbkdf2 = (\<lambda>w _ _. w), base64 = id\<rparr>, rsa = (\<lambda>_ _ bs. Inr bs), whirlpool = (\<lambda>_. []),
     random_block = (\<lambda>_. []), random_bool = (\<lambda>_. False), random_skin = (\<lambda>_. 0)\<rparr>"

definition sample_server :: "unit server" where
  "sample_server = \<lparr>config = (new_config_manager [])\<lparr>json_config := default_config\<rparr>,
     cache_object = \<lparr>cache_streams = [], main_index = new_index 0 1, indexes = []\<rparr>,
     cache_files = (\<lambda>_. None), database_state = (), worlds = [(1, new_world)],
     player_sessions = Map.empty, player_heap = (\<lambda>_. new_player), next_player = 0,
     session_heap = [0 \<mapsto> new_session 0]\<rparr>"

lemma sample_session: "session_heap sample_server 0 = Some (new_session 0)"
  and sample_mode: "mode (new_session 0) = new_mode"
  and sample_input: "buffer_input (new_session 0) = empty_buffer"
  by (simp_all add: sample_server_def new_session_def session_ops mode_def new_mode_def)

lemma sample_keys: "bind_res (setting ''grab'' ''keys'' (config sample_server)) json_u32s = Inr (map of_nat grab_keys)"
proof -
  have "list_all (\<lambda>(a, b, v). setting a b (config sample_server) = Inr v) default_settings"
    by (rule default_setting) (simp add: sample_server_def)
  then show ?thesis by (simp add: default_settings_def json_u32s_def)
qed

theorem Read_returns_witness: "Read sample_env 1 [Got [1, 2, 3]] 0 sample_server \<noteq> None"
  using Read_returns [of sample_server 0 sample_env 1 "[Got [1, 2, 3]]"] sample_session sample_input
  by (simp add: session_at_def empty_buffer_def kReadSize_def size_max_def)

theorem handshake_answered_witness:
  "\<exists>sv' t. Read sample_env 1 [Got (handshake_bytes 1 [65])] 0 sample_server = Some (Inr ([], sv'))
    \<and> session_heap sv' 0 = Some t \<and> status t = kDownloadingCache"
  using handshake_answered [OF sample_session sample_mode sample_input, of "[65]" "map of_nat grab_keys" sample_env 1 1]
    sample_keys by (auto simp: mode_def)

theorem early_request_throws_witness:
  "\<exists>e. Read sample_env 1 [Got (handshake_bytes 1 [65] @ [0, 255, 0, 0, 0, 255])] 0 sample_server = Some (Inl e)"
  using early_request_throws [OF sample_session sample_mode sample_input, of "[65]" "map of_nat grab_keys"
      "[0, 255, 0, 0, 0, 255]" sample_env 1 1] sample_keys by simp


section \<open>A read moves its session\<close>

lemma read_loop_moves:
  assumes "read_loop env k b sv = Some y" "session_heap sv k \<noteq> None"
  shows "ends (\<lambda>(_, _, sv'). serves k moves sv sv') y"
proof -
  have "session_heap sv k \<noteq> None \<longrightarrow> ends (\<lambda>(_, _, sv'). serves k moves sv sv') y"
  proof (rule read_loop.raw_induct [where P =
      "\<lambda>env k b sv y. session_heap sv k \<noteq> None \<longrightarrow> ends (\<lambda>(_, _, sv'). serves k moves sv sv') y", OF _ assms(1)])
  fix f :: "'a env \<Rightarrow> nat \<Rightarrow> buffer \<Rightarrow> 'a server \<Rightarrow> (bool \<times> buffer \<times> 'a server) res option"
    and env k b and sv :: "'a server" and y
  assume IH: "\<And>env k b sv y. f env k b sv = Some y \<Longrightarrow>
      session_heap sv k \<noteq> None \<longrightarrow> ends (\<lambda>(_, _, sv'). serves k moves sv sv') y"
    and y: "(if remaining b = 0 then Some (Inr (True, b, sv))
      else (case Decode (session_decoder (session_at sv k)) b new_packet of
              Inl e \<Rightarrow> Some (Inl e)
            | Inr (ok, p, b') \<Rightarrow>
                if \<not> ok then Some (Inr (False, b', sv))
                else (case Handle env p k sv of
                        Inl e \<Rightarrow> Some (Inl e)
                      | Inr sv' \<Rightarrow> f env k b' sv'))) = Some y"
  show "session_heap sv k \<noteq> None \<longrightarrow> ends (\<lambda>(_, _, sv'). serves k moves sv sv') y"
  proof
    assume "session_heap sv k \<noteq> None"
    then obtain s where s: "session_heap sv k = Some s" by auto
    have at: "session_at sv k = s" using s by (simp add: session_at_def)
    have self: "serves k moves sv sv" by (rule talks_moves) simp
    have step: "ends (\<lambda>(_, _, sv'). serves k moves sv sv') y"
      if d: "Decode (session_decoder s) b new_packet = Inr (True, p, b')"
        and h: "Handle env p k sv = Inr sv'" and f: "f env k b' sv' = Some y" for p b' sv'
    proof -
      have m: "serves k moves sv sv'"
        using endsD [OF moves_Handle [OF s, of p env] h] Decode_world_login [OF d] by blast
      have "ends (\<lambda>(_, _, sv''). serves k moves sv' sv'') y"
        using IH [OF f] serves_alive [OF m, of k] s by simp
      then show ?thesis
        by (rule ends_mono) (use serves_moves_trans [OF m] in auto)
    qed
    show "ends (\<lambda>(_, _, sv'). serves k moves sv sv') y"
      using y self step unfolding at
      by (auto split: if_splits sum.splits prod.splits)
  qed
  qed
  then show ?thesis using assms(2) by simp
qed

text \<open>The same for a whole read, where the socket notes the time.\<close>

definition proceeds :: "session \<Rightarrow> session \<Rightarrow> bool" where
  "proceeds s t \<longleftrightarrow> mode_step\<^sup>*\<^sup>* (mode s) (mode t) \<and> socketId (socket t) = socketId (socket s)"

lemma proceeds_trans: "proceeds s t \<Longrightarrow> proceeds t u \<Longrightarrow> proceeds s u"
  by (auto simp: proceeds_def)

lemma moves_proceeds: "moves s t \<Longrightarrow> proceeds s t"
  by (simp add: moves_def proceeds_def)

lemma proceeds_same: "mode t = mode s \<Longrightarrow> socketId (socket t) = socketId (socket s) \<Longrightarrow> proceeds s t"
  by (simp add: proceeds_def)

lemma proceeds_disconnect: "proceeds s (set_status kDisconnected s)"
  by (auto simp: proceeds_def mode_def set_status_def intro: mode_step.intros)

lemma serves_proceeds_trans: "serves k proceeds a b \<Longrightarrow> serves k proceeds b c \<Longrightarrow> serves k proceeds a c"
  by (erule (1) serves_trans) (rule proceeds_trans)

lemma Read_proceeds:
  assumes "Read env now rs k sv = Some r" "session_heap sv k \<noteq> None"
  shows "ends (\<lambda>(_, sv'). serves k proceeds sv sv') r"
proof -
  obtain s where s: "session_heap sv k = Some s" using assms(2) by auto
  have at: "session_at sv k = s" using s by (simp add: session_at_def)
  obtain dat rs' so where g: "getMessageData now kReadSize rs (socket s) = (dat, rs', so)" by (metis surj_pair)
  have id: "socketId so = socketId (socket s)"
    using g by (auto simp: getMessageData_def split: prod.splits option.splits)
  let ?sv = "on_session k (socket_update (\<lambda>_. so)) sv"
  have p: "serves k proceeds sv ?sv"
    by (rule serves_own [OF s], rule proceeds_same) (simp_all add: mode_def id)
  have d: "serves k proceeds sv (on_session k (set_status kDisconnected) ?sv)"
    by (rule serves_proceeds_trans [OF p]) (rule serves_on_session, rule proceeds_disconnect)
  have loop: "ends (\<lambda>(_, _, sv'). serves k proceeds sv sv') y" if "read_loop env k b ?sv = Some y" for b y
  proof -
    have "ends (\<lambda>(_, _, sv'). serves k moves ?sv sv') y" by (rule read_loop_moves [OF that]) (simp add: s)
    then show ?thesis
      by (rule ends_mono) (auto intro: serves_proceeds_trans [OF p] serves_mono [OF _ moves_proceeds])
  qed
  have fin: "serves k proceeds sv (on_session k (buffer_input_update (\<lambda>_. b)) sv')"
    "serves k proceeds sv (on_session k (buffer_input_update (\<lambda>_. b) \<circ> bytes_received_update n) sv')"
    if "serves k proceeds sv sv'" for sv' b n
    by (rule serves_proceeds_trans [OF that], rule serves_on_session, rule proceeds_same, simp_all add: mode_def)+
  have "Read env now rs k sv = (case dat of
      None \<Rightarrow> Some (Inr (rs', on_session k (set_status kDisconnected) ?sv))
    | Some [] \<Rightarrow> Some (Inr (rs', on_session k (set_status kDisconnected) ?sv))
    | Some bs \<Rightarrow>
        (case read_loop env k (put_bytes bs (buffer_input (session_at ?sv k))) ?sv of
           None \<Rightarrow> None
         | Some (Inl e) \<Rightarrow> Some (Inl e)
         | Some (Inr (False, b, sv)) \<Rightarrow> Some (Inr (rs', on_session k (buffer_input_update (\<lambda>_. b)) sv))
         | Some (Inr (True, b, sv)) \<Rightarrow>
             Some (Inr (rs', on_session k (buffer_input_update (\<lambda>_. clear_buffer b)
               \<circ> bytes_received_update (\<lambda>n. size_add n (length bs))) sv))))"
    unfolding Read_def at g Let_def prod.case ..
  note read = this [unfolded assms(1)]
  show ?thesis
  proof (cases dat)
    case (Some bs)
    show ?thesis
    proof (cases bs)
      case Nil
      then show ?thesis using read Some d by simp
    next
      case (Cons x xs)
      obtain y where y: "read_loop env k (put_bytes bs (buffer_input (session_at ?sv k))) ?sv = Some y"
        using read Some Cons by (cases "read_loop env k (put_bytes bs (buffer_input (session_at ?sv k))) ?sv") simp_all
      show ?thesis
      proof (cases y)
        case (Inr z)
        obtain ok b sv' where z: "z = (ok, b, sv')" by (metis surj_pair)
        have "serves k proceeds sv sv'" using loop [OF y] Inr z by simp
        from fin [OF this] show ?thesis using read Some Cons y Inr z by (cases ok) simp_all
      qed (use read Some Cons y in simp)
    qed
  qed (use read d in simp)
qed

end
