(* ===== verification/Reactor.thy ===== *)
theory Reactor
  imports Reads
begin

text \<open>
  The reactor (\<open>net/reactor.h\<close>, \<open>net/reactor.cpp\<close>) over its poll object
  (\<open>net/io/epoll.h\<close>) and the channels (\<open>net/io/channel.h\<close>). The kernel is a parameter of each
  step: what it reports as ready, and the results of its calls per descriptor. A session object
  lives for as long as the table of sessions or a channel refers to it.
\<close>

section \<open>Ordered maps\<close>

text \<open>\<open>std::map\<close>: an association list in the order of the keys.\<close>

definition map_put :: "int \<Rightarrow> 'v \<Rightarrow> (int \<times> 'v) list \<Rightarrow> (int \<times> 'v) list" where
  "map_put k v m = insort_key fst (k, v) (AList.delete k m)"

lemma set_map_put [simp]: "set (map_put k v m) = insert (k, v) {x \<in> set m. fst x \<noteq> k}"
  by (auto simp: map_put_def set_insort_key AList.delete_eq)

lemma distinct_map_put [simp]: "distinct (map fst m) \<Longrightarrow> distinct (map fst (map_put k v m))"
  by (auto simp: map_put_def distinct_insort_key AList.distinct_delete AList.delete_notin_dom)

lemma set_delete [simp]: "set (AList.delete k m) = {x \<in> set m. fst x \<noteq> k}"
  by (auto simp: AList.delete_eq)

lemma map_of_insort: "k \<notin> fst ` set m \<Longrightarrow> map_of (insort_key fst (k, v) m) = (map_of m)(k \<mapsto> v)"
  by (induction m) (auto simp: fun_eq_iff)

lemma map_of_map_put [simp]: "map_of (map_put k v m) = (map_of m)(k \<mapsto> v)"
  by (simp only: map_put_def map_of_insort [OF AList.delete_notin_dom] AList.delete_conv' fun_upd_upd)

section \<open>The poll object\<close>

text \<open>A channel is a callback: the first is bound to \<open>DoAccept\<close>, the second to \<open>DoReadWrite\<close> and
  a session. What the poll waits for is a pair of flags, input and output.\<close>

datatype channel = Login_channel | Client_channel nat

type_synonym poll_mask = "bool \<times> bool"

abbreviation EPOLLIN :: poll_mask where
  "EPOLLIN \<equiv> (True, False)"

abbreviation EPOLLIN_OUT :: poll_mask where
  "EPOLLIN_OUT \<equiv> (True, True)"

datatype ctl = Ctl_add | Ctl_mod | Ctl_del

text \<open>The kernel during one call of \<open>Poll\<close>: the descriptors that are ready, the results of
  \<open>epoll_ctl\<close>, of accepting a client, and of reading from and writing to a descriptor; the time
  at a callback, and when the timeouts are checked.\<close>

record kernel =
  ready :: "(int \<times> poll_mask) list"
  ctl_ok :: "ctl \<Rightarrow> int \<Rightarrow> bool"
  accepted :: "int + string"
  nonblocking :: bool
  peer_known :: bool
  incoming :: "int \<Rightarrow> read_result list"
  outgoing :: "int \<Rightarrow> write_result list"
  clock :: "int \<Rightarrow> nat"
  timeout_clock :: nat

text \<open>\<open>polled\<close> is the set of registrations that the kernel has accepted, which it keeps; a
  registration refers to the channel that is under its descriptor in the map. \<open>delivered\<close> records
  what has been written for a session.\<close>

record 'db reactor =
  served :: "'db server"
  listener :: int
  sessions :: "(int \<times> nat) list"
  channel_map :: "(int \<times> channel) list"
  polled :: "int \<rightharpoonup> poll_mask"
  next_session :: nat
  delivered :: "(nat \<times> u8 list) list"

definition kMaxEvents :: nat where
  "kMaxEvents = 2000"

definition EPoll :: "nat \<Rightarrow> int \<Rightarrow> int res" where
  "EPoll n file_descriptor =
     (if kMaxEvents < n then Inl (Runtime_error ''Too many poll events requested.'')
      else if file_descriptor \<le> 0 then Inl (Runtime_error ''Could not create poll event'')
      else Inr file_descriptor)"

definition AddPollEvent :: "kernel \<Rightarrow> channel \<Rightarrow> poll_mask \<Rightarrow> int \<Rightarrow> 'db reactor \<Rightarrow> bool \<times> 'db reactor" where
  "AddPollEvent kn ch interest fd rt =
     (let rt = rt\<lparr>channel_map := map_put fd ch (channel_map rt)\<rparr>
      in if ctl_ok kn Ctl_add fd then (True, rt\<lparr>polled := (polled rt)(fd \<mapsto> interest)\<rparr>) else (False, rt))"

definition UpdatePollEvent :: "kernel \<Rightarrow> poll_mask \<Rightarrow> int \<Rightarrow> 'db reactor \<Rightarrow> bool \<times> 'db reactor" where
  "UpdatePollEvent kn interest fd rt =
     (if map_of (channel_map rt) fd = None then (False, rt)
      else if ctl_ok kn Ctl_mod fd then (True, rt\<lparr>polled := (polled rt)(fd \<mapsto> interest)\<rparr>) else (False, rt))"

text \<open>A registration whose channel has been erased from the map is a dangling pointer.\<close>

fun channels_of :: "(int \<times> poll_mask) list \<Rightarrow> (int \<times> channel) list \<Rightarrow> (channel \<times> poll_mask) list res" where
  "channels_of [] m = Inr []"
| "channels_of ((fd, ev) # evs) m =
     (case map_of m fd of
        None \<Rightarrow> Inl (Undefined ''dangling channel'')
      | Some ch \<Rightarrow> bind_res (channels_of evs m) (\<lambda>cs. Inr ((ch, ev) # cs)))"

definition Wait :: "kernel \<Rightarrow> 'db reactor \<Rightarrow> (channel \<times> poll_mask) list res" where
  "Wait kn rt = channels_of (take kMaxEvents (ready kn)) (channel_map rt)"

text \<open>A descriptor that is not registered, or no longer, cannot be removed.\<close>

definition RemovePollEvent :: "kernel \<Rightarrow> int \<Rightarrow> 'db reactor \<Rightarrow> 'db reactor res" where
  "RemovePollEvent kn fd rt =
     (let rt = rt\<lparr>channel_map := AList.delete fd (channel_map rt)\<rparr>
      in if polled rt fd \<noteq> None \<and> ctl_ok kn Ctl_del fd then Inr (rt\<lparr>polled := (polled rt)(fd := None)\<rparr>)
         else Inl (Runtime_error ''Could not remove poll event''))"

section \<open>The reactor\<close>

definition kDefaultTimeout :: "bool \<Rightarrow> nat" where
  "kDefaultTimeout ndebug = (if ndebug then 5000 else 500)"

definition on_served :: "('db server \<Rightarrow> 'db server) \<Rightarrow> 'db reactor \<Rightarrow> 'db reactor" where
  "on_served f rt = rt\<lparr>served := f (served rt)\<rparr>"

text \<open>Calls that may not return.\<close>

definition bind_run :: "'a res option \<Rightarrow> ('a \<Rightarrow> 'b res option) \<Rightarrow> 'b res option" where
  "bind_run m f = (case m of None \<Rightarrow> None | Some (Inl e) \<Rightarrow> Some (Inl e) | Some (Inr x) \<Rightarrow> f x)"

lemma bind_run_simps [simp]:
  "bind_run None f = None" "bind_run (Some (Inl e)) f = Some (Inl e)" "bind_run (Some (Inr x)) f = f x"
  by (simp_all add: bind_run_def)

lemma bind_run_SomeE:
  assumes "bind_run m f = Some (Inr y)"
  obtains x where "m = Some (Inr x)" "f x = Some (Inr y)"
  using assms by (auto simp: bind_run_def split: option.splits sum.splits)

text \<open>The constructor. Whether the listener could be registered is not looked at.\<close>

definition new_reactor :: "int \<Rightarrow> 'db server \<Rightarrow> 'db reactor" where
  "new_reactor s sv = \<lparr>served = sv, listener = s, sessions = [], channel_map = [], polled = Map.empty,
     next_session = 0, delivered = []\<rparr>"

definition Reactor :: "kernel \<Rightarrow> int res \<Rightarrow> int \<Rightarrow> 'db server \<Rightarrow> 'db reactor res" where
  "Reactor kn server_socket poll_descriptor sv =
     bind_res server_socket (\<lambda>s. bind_res (EPoll 100 poll_descriptor) (\<lambda>_.
       Inr (snd (AddPollEvent kn Login_channel EPOLLIN s (new_reactor s sv)))))"

text \<open>A session that could not be registered stays referred to by its channel.\<close>

definition DoAccept :: "kernel \<Rightarrow> 'db reactor \<Rightarrow> 'db reactor res" where
  "DoAccept kn rt =
     bind_res (accept_socket (listener rt) (accepted kn) (nonblocking kn) (clock kn (listener rt))) (\<lambda>so.
       if \<not> peer_known kn
       then Inl (Runtime_error ''Could not determine the peer name to accept a client.'')
       else if map_of (sessions rt) (socketId so) \<noteq> None then Inr rt
       else
         let k = next_session rt;
             rt = on_served (\<lambda>sv. sv\<lparr>session_heap := (session_heap sv)(k \<mapsto> new_session (clock kn (listener rt)))\<rparr>)
                    (rt\<lparr>next_session := k + 1\<rparr>)
         in case AddPollEvent kn (Client_channel k) EPOLLIN (socketId so) rt of
              (False, rt) \<Rightarrow> Inr rt
            | (True, rt) \<Rightarrow> Inr (on_served (on_session k (socket_update (\<lambda>_. so)))
                (rt\<lparr>sessions := map_put (socketId so) k (sessions rt)\<rparr>)))"

definition descriptor_of :: "nat \<Rightarrow> 'db reactor \<Rightarrow> int" where
  "descriptor_of k rt = socketId (socket (session_at (served rt) k))"

definition SessionDisconnect :: "kernel \<Rightarrow> nat \<Rightarrow> 'db reactor \<Rightarrow> 'db reactor res" where
  "SessionDisconnect kn k rt =
     (let s = session_at (served rt) k;
          rt = (if player_index s \<noteq> - 1
                then on_served (remove_player_from (player_world s) (player_index s)) rt else rt)
      in bind_res (RemovePollEvent kn (socketId (socket s)) rt) (\<lambda>rt.
           Inr (rt\<lparr>sessions := AList.delete (socketId (socket s)) (sessions rt)\<rparr>)))"

definition do_read :: "'db env \<Rightarrow> kernel \<Rightarrow> nat \<Rightarrow> 'db reactor \<Rightarrow> 'db reactor res option" where
  "do_read env kn k rt =
     (let fd = descriptor_of k rt
      in bind_run (Read env (clock kn fd) (incoming kn fd) k (served rt)) (\<lambda>(_, sv).
           Some (Inr (rt\<lparr>served := sv\<rparr>))))"

definition do_write :: "kernel \<Rightarrow> nat \<Rightarrow> 'db reactor \<Rightarrow> 'db reactor res option" where
  "do_write kn k rt =
     (let fd = descriptor_of k rt
      in bind_run (Write (clock kn fd) (outgoing kn fd) (session_at (served rt) k)) (\<lambda>(sent, _, s).
           let rt = on_served (on_session k (\<lambda>_. s)) (rt\<lparr>delivered := delivered rt @ [(k, sent)]\<rparr>)
           in Some (Inr (if HasOutput s then rt else snd (UpdatePollEvent kn EPOLLIN fd rt)))))"

definition DoReadWrite :: "'db env \<Rightarrow> kernel \<Rightarrow> poll_mask \<Rightarrow> nat \<Rightarrow> 'db reactor \<Rightarrow> 'db reactor res option" where
  "DoReadWrite env kn event k rt =
     bind_run (if fst event then do_read env kn k rt else Some (Inr rt)) (\<lambda>rt.
     bind_run (if snd event then do_write kn k rt else Some (Inr rt)) (\<lambda>rt.
       let s = session_at (served rt) k
       in if status s = kDisconnected then Some (SessionDisconnect kn k rt)
          else if HasOutput s then Some (Inr (snd (UpdatePollEvent kn EPOLLIN_OUT (descriptor_of k rt) rt)))
          else Some (Inr rt)))"

fun run_callbacks :: "'db env \<Rightarrow> kernel \<Rightarrow> (channel \<times> poll_mask) list \<Rightarrow> 'db reactor \<Rightarrow> 'db reactor res option" where
  "run_callbacks env kn [] rt = Some (Inr rt)"
| "run_callbacks env kn ((ch, ev) # cs) rt =
     bind_run (case ch of
         Login_channel \<Rightarrow> Some (DoAccept kn rt)
       | Client_channel k \<Rightarrow> DoReadWrite env kn ev k rt)
       (run_callbacks env kn cs)"

fun disconnect_all :: "kernel \<Rightarrow> nat list \<Rightarrow> 'db reactor \<Rightarrow> 'db reactor res" where
  "disconnect_all kn [] rt = Inr rt"
| "disconnect_all kn (k # ks) rt = bind_res (SessionDisconnect kn k rt) (disconnect_all kn ks)"

text \<open>The sessions whose last activity is too long ago.\<close>

definition timed_out :: "bool \<Rightarrow> kernel \<Rightarrow> 'db reactor \<Rightarrow> nat list" where
  "timed_out ndebug kn rt =
     map snd (filter (\<lambda>(fd, k).
       kDefaultTimeout ndebug \<le> timeout_clock kn - last_active (socket (session_at (served rt) k))) (sessions rt))"

definition check_timeouts :: "bool \<Rightarrow> kernel \<Rightarrow> 'db reactor \<Rightarrow> 'db reactor res" where
  "check_timeouts ndebug kn rt =
     (let late = timed_out ndebug kn rt
      in disconnect_all kn late (on_served (fold (\<lambda>k. on_session k (set_status kDisconnected)) late) rt))"

text \<open>At the end of \<open>Poll\<close> the sessions that nothing refers to any more are destroyed.\<close>

definition release :: "'db reactor \<Rightarrow> 'db reactor" where
  "release rt = on_served (\<lambda>sv. sv\<lparr>session_heap := (\<lambda>k.
     if k \<in> snd ` set (sessions rt) \<or> Client_channel k \<in> snd ` set (channel_map rt)
     then session_heap sv k else None)\<rparr>) rt"

definition Poll :: "'db env \<Rightarrow> bool \<Rightarrow> kernel \<Rightarrow> 'db reactor \<Rightarrow> 'db reactor res option" where
  "Poll env ndebug kn rt =
     bind_run (Some (Wait kn rt)) (\<lambda>event_clients.
     bind_run (run_callbacks env kn event_clients rt) (\<lambda>rt.
     bind_run (Some (check_timeouts ndebug kn rt)) (\<lambda>rt.
       Some (Inr (release rt)))))"

section \<open>What the kernel promises\<close>

text \<open>A descriptor is reported once and only while it is registered; an accepted descriptor is
  not one that is in use; a registration that exists can be removed.\<close>

definition kernel_ok :: "kernel \<Rightarrow> 'db reactor \<Rightarrow> bool" where
  "kernel_ok kn rt \<longleftrightarrow> distinct (map fst (ready kn)) \<and> fst ` set (ready kn) \<subseteq> dom (polled rt)
     \<and> (\<forall>fd. accepted kn = Inl fd \<longrightarrow> polled rt fd = None)
     \<and> (\<forall>fd. polled rt fd \<noteq> None \<or> accepted kn = Inl fd \<longrightarrow> ctl_ok kn Ctl_del fd)"

inductive reachable :: "'db env \<Rightarrow> bool \<Rightarrow> 'db reactor \<Rightarrow> bool" for env ndebug where
  start: "Reactor kn (Inr s) d sv = Inr rt \<Longrightarrow> ctl_ok kn Ctl_add s \<Longrightarrow> session_heap sv = Map.empty
    \<Longrightarrow> reachable env ndebug rt"
| poll: "reachable env ndebug rt \<Longrightarrow> kernel_ok kn rt \<Longrightarrow> Poll env ndebug kn rt = Some (Inr rt')
    \<Longrightarrow> reachable env ndebug rt'"

end
