(* ===== verification/Polls.thy ===== *)
theory Polls
  imports Reactor
begin

text \<open>
  The invariant of the reactor: the table of sessions, the channels and the registrations in the
  kernel agree, so that no callback follows a dangling pointer and no removal fails; every
  session in the table is alive and in a mode its own packets led to. It is kept by accepting,
  reading and writing, disconnecting and the check of the timeouts, hence by every \<open>Poll\<close>.
\<close>

section \<open>The invariant\<close>

text \<open>The table entry of a session is right: its object exists and owns the descriptor, its mode is
  one of those reachable from a new connection, and its channel is the one registered.\<close>

definition known :: "'db reactor \<Rightarrow> int \<Rightarrow> nat \<Rightarrow> bool" where
  "known rt fd k \<longleftrightarrow> (\<exists>s. session_heap (served rt) k = Some s \<and> socketId (socket s) = fd
       \<and> mode_step\<^sup>*\<^sup>* new_mode (mode s))
     \<and> map_of (channel_map rt) fd = Some (Client_channel k)"

definition table_ok :: "'db reactor \<Rightarrow> bool" where
  "table_ok rt \<longleftrightarrow> distinct (map fst (sessions rt)) \<and> listener rt \<notin> fst ` set (sessions rt)
     \<and> dom (polled rt) = insert (listener rt) (fst ` set (sessions rt))
     \<and> map_of (channel_map rt) (listener rt) = Some Login_channel
     \<and> (\<forall>(fd, k) \<in> set (sessions rt). known rt fd k)
     \<and> (\<forall>k. session_heap (served rt) k \<noteq> None \<longrightarrow> k < next_session rt)"

definition live :: "'db reactor \<Rightarrow> nat \<Rightarrow> bool" where
  "live rt k \<longleftrightarrow> status (session_at (served rt) k) \<noteq> kDisconnected"

definition reactor_ok :: "'db reactor \<Rightarrow> bool" where
  "reactor_ok rt \<longleftrightarrow> table_ok rt \<and> (\<forall>(fd, k) \<in> set (sessions rt). live rt k)"

definition removable :: "kernel \<Rightarrow> 'db reactor \<Rightarrow> bool" where
  "removable kn rt \<longleftrightarrow> (\<forall>fd. polled rt fd \<noteq> None \<or> accepted kn = Inl fd \<longrightarrow> ctl_ok kn Ctl_del fd)"

lemma table_okI:
  assumes "distinct (map fst (sessions rt))" "listener rt \<notin> fst ` set (sessions rt)"
    "dom (polled rt) = insert (listener rt) (fst ` set (sessions rt))"
    "map_of (channel_map rt) (listener rt) = Some Login_channel"
    "\<And>fd k. (fd, k) \<in> set (sessions rt) \<Longrightarrow> known rt fd k"
    "\<And>k. session_heap (served rt) k \<noteq> None \<Longrightarrow> k < next_session rt"
  shows "table_ok rt"
  using assms unfolding table_ok_def by blast

lemma table_okD:
  assumes "table_ok rt"
  shows "distinct (map fst (sessions rt))" "listener rt \<notin> fst ` set (sessions rt)"
    "dom (polled rt) = insert (listener rt) (fst ` set (sessions rt))"
    "map_of (channel_map rt) (listener rt) = Some Login_channel"
    "session_heap (served rt) k \<noteq> None \<Longrightarrow> k < next_session rt"
  using assms unfolding table_ok_def by blast+

lemma known_table: "table_ok rt \<Longrightarrow> (fd, k) \<in> set (sessions rt) \<Longrightarrow> known rt fd k"
  by (auto simp: table_ok_def)

lemma known_descriptor: "known rt fd k \<Longrightarrow> descriptor_of k rt = fd"
  by (auto simp: known_def descriptor_of_def session_at_def)

lemma table_session_unique:
  "table_ok rt \<Longrightarrow> (fd, k) \<in> set (sessions rt) \<Longrightarrow> (fd', k) \<in> set (sessions rt) \<Longrightarrow> fd' = fd"
  using known_table known_descriptor by metis

lemma table_entry_unique:
  "table_ok rt \<Longrightarrow> (fd, k) \<in> set (sessions rt) \<Longrightarrow> (fd, j) \<in> set (sessions rt) \<Longrightarrow> j = k"
  using known_table [of rt fd k] known_table [of rt fd j] by (simp add: known_def)

lemma table_polled: "table_ok rt \<Longrightarrow> polled rt fd \<noteq> None \<longleftrightarrow> fd = listener rt \<or> fd \<in> fst ` set (sessions rt)"
  unfolding table_ok_def by blast

lemma table_distinct: "table_ok rt \<Longrightarrow> distinct (map snd (sessions rt))"
proof -
  assume ok: "table_ok rt"
  then have "distinct (sessions rt)" by (simp add: table_ok_def distinct_map)
  moreover have "inj_on snd (set (sessions rt))"
    using table_session_unique [OF ok] by (auto intro!: inj_onI)
  ultimately show ?thesis by (simp add: distinct_map)
qed

section \<open>Steps on the table\<close>

text \<open>What changes the server only, as a session's own packets do.\<close>

lemma known_serves:
  assumes "serves k proceeds (served rt) sv" "known rt fd j"
  shows "known (rt\<lparr>served := sv\<rparr>) fd j"
proof -
  obtain s where s: "session_heap (served rt) j = Some s" "socketId (socket s) = fd"
    "mode_step\<^sup>*\<^sup>* new_mode (mode s)" using assms(2) by (auto simp: known_def)
  have "rel_option (if j = k then proceeds else said) (Some s) (session_heap sv j)"
    using assms(1) s(1) unfolding serves_def by metis
  then obtain t where t: "session_heap sv j = Some t" "(if j = k then proceeds else said) s t"
    by (auto simp: option_rel_Some1)
  have "proceeds s t" using t(2) by (auto split: if_splits intro: moves_proceeds said_moves)
  then show ?thesis using assms(2) s t(1) by (auto simp: known_def proceeds_def)
qed

lemma serves_domain: "serves k R sv sv' \<Longrightarrow> session_heap sv' j \<noteq> None \<longleftrightarrow> session_heap sv j \<noteq> None"
  unfolding serves_def by (metis option.rel_distinct(1) option.rel_distinct(2) option.exhaust)

lemma table_serves:
  assumes "serves k proceeds (served rt) sv" "table_ok rt"
  shows "table_ok (rt\<lparr>served := sv\<rparr>)"
  using assms known_serves [OF assms(1)] serves_domain [OF assms(1)] unfolding table_ok_def by auto

lemma live_serves:
  assumes "serves k R (served rt) sv" "session_heap (served rt) j \<noteq> None" "j \<noteq> k" "live rt j"
  shows "live (rt\<lparr>served := sv\<rparr>) j"
proof -
  have "rel_option said (session_heap (served rt) j) (session_heap sv j)"
    using assms(1,3) unfolding serves_def by metis
  then show ?thesis using assms(2,4) by (auto simp: live_def session_at_def option_rel_Some1 said_def)
qed

lemma table_update: "table_ok rt \<Longrightarrow> polled rt fd \<noteq> None \<Longrightarrow> table_ok (snd (UpdatePollEvent kn ev fd rt))"
  by (auto simp: UpdatePollEvent_def table_ok_def known_def)

lemma update_same [simp]:
  "served (snd (UpdatePollEvent kn ev fd rt)) = served rt"
  "sessions (snd (UpdatePollEvent kn ev fd rt)) = sessions rt"
  "listener (snd (UpdatePollEvent kn ev fd rt)) = listener rt"
  by (simp_all add: UpdatePollEvent_def)

text \<open>Disconnecting never fails and takes exactly the entry of the session out.\<close>

lemma removed_from_heap [simp]: "session_heap (remove_player_from w p sv) = session_heap sv"
  by (simp add: remove_player_from_def set_world_def Let_def)

lemma SessionDisconnect_ok:
  assumes "table_ok rt" "(fd, k) \<in> set (sessions rt)" "ctl_ok kn Ctl_del fd"
  obtains rt' where "SessionDisconnect kn k rt = Inr rt'" "table_ok rt'"
    "sessions rt' = AList.delete fd (sessions rt)" "listener rt' = listener rt"
    "session_heap (served rt') = session_heap (served rt)"
proof
  let ?s = "session_at (served rt) k"
  let ?sv = "if player_index ?s \<noteq> - 1 then remove_player_from (player_world ?s) (player_index ?s) (served rt)
    else served rt"
  let ?rt = "rt\<lparr>served := ?sv, channel_map := AList.delete fd (channel_map rt),
    polled := (polled rt)(fd := None), sessions := AList.delete fd (sessions rt)\<rparr>"
  have fd: "socketId (socket ?s) = fd"
    using known_descriptor [OF known_table [OF assms(1,2)]] by (simp add: descriptor_of_def)
  have "fd \<in> dom (polled rt)" unfolding table_okD(3) [OF assms(1)] using assms(2) by force
  then show "SessionDisconnect kn k rt = Inr ?rt"
    using fd assms(3) by (auto simp: SessionDisconnect_def RemovePollEvent_def on_served_def Let_def)
  have l: "listener rt \<noteq> fd" using assms(1,2) unfolding table_ok_def by force
  show "table_ok ?rt"
  proof (rule table_okI)
    show "dom (polled ?rt) = insert (listener ?rt) (fst ` set (sessions ?rt))"
      using l table_okD(3) [OF assms(1)] by auto
    show "map_of (channel_map ?rt) (listener ?rt) = Some Login_channel"
      using l table_okD(4) [OF assms(1)] by simp
    fix fd' k' assume "(fd', k') \<in> set (sessions ?rt)"
    then have "fd' \<noteq> fd" "known rt fd' k'" using known_table [OF assms(1)] by auto
    then show "known ?rt fd' k'" by (auto simp: known_def)
  next
    fix j assume "session_heap (served ?rt) j \<noteq> None"
    then have "session_heap (served rt) j \<noteq> None" by (simp split: if_splits)
    then show "j < next_session ?rt" using table_okD(5) [OF assms(1)] by simp
  qed (use table_okD [OF assms(1)] in \<open>auto simp: AList.distinct_delete\<close>)
qed (simp_all)

lemma DoAccept_ok:
  assumes "reactor_ok rt" "\<And>fd. accepted kn = Inl fd \<Longrightarrow> polled rt fd = None" "DoAccept kn rt = Inr rt'"
  shows "reactor_ok rt' \<and> listener rt' = listener rt \<and> set (sessions rt) \<subseteq> set (sessions rt')
    \<and> (\<forall>fd. polled rt' fd \<noteq> None \<longrightarrow> polled rt fd \<noteq> None \<or> accepted kn = Inl fd)"
proof -
  have ok: "table_ok rt" "\<And>fd k. (fd, k) \<in> set (sessions rt) \<Longrightarrow> live rt k"
    using assms(1) by (auto simp: reactor_ok_def)
  obtain so where so: "accept_socket (listener rt) (accepted kn) (nonblocking kn) (clock kn (listener rt)) = Inr so"
    using assms(3) by (cases "accept_socket (listener rt) (accepted kn) (nonblocking kn) (clock kn (listener rt))")
      (auto simp: DoAccept_def)
  let ?fd = "socketId so"
  let ?k = "next_session rt"
  have acc: "accepted kn = Inl ?fd"
    using so by (auto simp: accept_socket_def new_socket_def split: if_splits sum.splits)
  then have "polled rt ?fd = None" by (rule assms(2))
  then have new: "?fd \<noteq> listener rt" "?fd \<notin> fst ` set (sessions rt)"
    using table_polled [OF ok(1), of ?fd] by auto
  have none: "map_of (sessions rt) ?fd = None" using new(2) by (simp add: map_of_eq_None_iff)
  have fresh: "session_heap (served rt) ?k = None" using ok(1) unfolding table_ok_def by blast
  have other: "k \<noteq> ?k" if "(fd, k) \<in> set (sessions rt)" for fd k
    using known_table [OF ok(1) that] fresh by (auto simp: known_def)
  have peer: "peer_known kn" using assms(3) so by (auto simp: DoAccept_def split: if_splits)
  let ?s = "new_session (clock kn (listener rt))"
  have mode: "mode ?s = new_mode" by (simp add: new_session_def session_ops mode_def new_mode_def)
  let ?sv = "(served rt)\<lparr>session_heap := (session_heap (served rt))(?k \<mapsto> ?s)\<rparr>"
  let ?rt = "rt\<lparr>next_session := ?k + 1, served := ?sv, channel_map := map_put ?fd (Client_channel ?k) (channel_map rt)\<rparr>"
  have result: "rt' = (if ctl_ok kn Ctl_add ?fd
      then ?rt\<lparr>polled := (polled rt)(?fd \<mapsto> EPOLLIN), sessions := map_put ?fd ?k (sessions rt),
        served := on_session ?k (socket_update (\<lambda>_. so)) ?sv\<rparr>
      else ?rt)"
    using assms(3) so none peer
    by (auto simp: DoAccept_def AddPollEvent_def on_served_def Let_def split: if_splits)
  have keep: "fd \<noteq> ?fd" if "(fd, k) \<in> set (sessions rt)" for fd k using new(2) that by force
  have old: "known rt fd k" if "(fd, k) \<in> set (sessions rt)" for fd k using known_table [OF ok(1) that] .
  have known: "known rt' fd k" if "(fd, k) \<in> set (sessions rt)" for fd k
    using old [OF that] keep [OF that] other [OF that] by (auto simp: result known_def on_session_def)
  have "table_ok rt'"
  proof (rule table_okI)
    show "dom (polled rt') = insert (listener rt') (fst ` set (sessions rt'))"
      using table_okD(3) [OF ok(1)] keep by (auto simp: result)
    fix fd k assume in': "(fd, k) \<in> set (sessions rt')"
    show "known rt' fd k"
    proof (cases "(fd, k) \<in> set (sessions rt)")
      case False
      then have "ctl_ok kn Ctl_add ?fd" "fd = ?fd" "k = ?k" using in' by (auto simp: result split: if_splits)
      then show ?thesis using mode by (simp add: result known_def on_session_def mode_def)
    qed (rule known)
  qed (use table_okD [OF ok(1)] new keep in \<open>auto simp: result less_Suc_eq on_session_def split: if_splits\<close>)
  moreover have "live rt' k" if "(fd, k) \<in> set (sessions rt')" for fd k
  proof (cases "k = ?k")
    case True
    have "ctl_ok kn Ctl_add ?fd" using that other True by (auto simp: result split: if_splits)
    then show ?thesis using mode True
      by (simp add: result live_def session_at_def on_session_def mode_def new_mode_def)
  next
    case False
    then have "(fd, k) \<in> set (sessions rt)" using that by (auto simp: result split: if_splits)
    from ok(2) [OF this] show ?thesis using False
      by (auto simp: result live_def session_at_def on_session_def)
  qed
  moreover have "listener rt' = listener rt" "set (sessions rt) \<subseteq> set (sessions rt')"
    "\<forall>fd. polled rt' fd \<noteq> None \<longrightarrow> polled rt fd \<noteq> None \<or> accepted kn = Inl fd"
    using keep acc by (auto simp: result split: if_splits)
  ultimately show ?thesis unfolding reactor_ok_def by blast
qed


section \<open>Reading and writing\<close>

text \<open>What a callback does before it looks at the status: the table stays as it is, and no session
  but its own dies.\<close>

definition attends :: "nat \<Rightarrow> 'db reactor \<Rightarrow> 'db reactor \<Rightarrow> bool" where
  "attends k rt rt' \<longleftrightarrow> table_ok rt' \<and> listener rt' = listener rt \<and> sessions rt' = sessions rt
     \<and> (\<forall>(fd, j) \<in> set (sessions rt). j \<noteq> k \<and> live rt j \<longrightarrow> live rt' j)"

lemma attends_refl: "table_ok rt \<Longrightarrow> attends k rt rt"
  by (auto simp: attends_def)

lemma attends_trans: "attends k a b \<Longrightarrow> attends k b c \<Longrightarrow> attends k a c"
  by (auto simp: attends_def)

lemma attends_serves:
  assumes "table_ok rt" "serves k proceeds (served rt) sv"
  shows "attends k rt (rt\<lparr>served := sv\<rparr>)"
  using table_serves [OF assms(2,1)] live_serves [OF assms(2)] known_table [OF assms(1)]
  by (fastforce simp: attends_def known_def)

lemma attends_delivered: "table_ok rt \<Longrightarrow> attends k rt (rt\<lparr>delivered := ds\<rparr>)"
  by (simp add: attends_def table_ok_def known_def live_def)

lemma attends_update:
  assumes "table_ok rt" "(fd, j) \<in> set (sessions rt)"
  shows "attends k rt (snd (UpdatePollEvent kn ev fd rt))"
proof -
  have "polled rt fd \<noteq> None" using table_polled [OF assms(1)] assms(2) by force
  from table_update [OF assms(1) this] show ?thesis by (auto simp: attends_def live_def)
qed

lemma do_read_attends:
  assumes "table_ok rt" "(fd, k) \<in> set (sessions rt)" "do_read env kn k rt = Some (Inr rt')"
  shows "attends k rt rt'"
proof -
  obtain rs sv where r: "Read env (clock kn (descriptor_of k rt)) (incoming kn (descriptor_of k rt)) k (served rt)
      = Some (Inr (rs, sv))" "rt' = rt\<lparr>served := sv\<rparr>"
    using assms(3) by (auto simp: do_read_def Let_def elim!: bind_run_SomeE)
  have "session_heap (served rt) k \<noteq> None"
    using known_table [OF assms(1,2)] by (auto simp: known_def)
  from Read_proceeds [OF r(1) this] have "serves k proceeds (served rt) sv" by simp
  with r(2) show ?thesis using attends_serves [OF assms(1)] by simp
qed

lemma Write_same:
  "Write now ws s = Some (Inr (sent, ws', t)) \<Longrightarrow> proceeds s t"
  by (auto simp: Write_def putMessageData_def mode_def intro!: proceeds_same
      split: sum.splits option.splits prod.splits if_splits)

lemma do_write_attends:
  assumes "table_ok rt" "(fd, k) \<in> set (sessions rt)" "do_write kn k rt = Some (Inr rt')"
  shows "attends k rt rt'"
proof -
  have fd: "descriptor_of k rt = fd" by (rule known_descriptor [OF known_table [OF assms(1,2)]])
  obtain sent ws s where w: "Write (clock kn fd) (outgoing kn fd) (session_at (served rt) k) = Some (Inr (sent, ws, s))"
    and rt': "rt' = (let rt = on_served (on_session k (\<lambda>_. s)) (rt\<lparr>delivered := delivered rt @ [(k, sent)]\<rparr>)
           in if HasOutput s then rt else snd (UpdatePollEvent kn EPOLLIN fd rt))"
    using assms(3) fd by (auto simp: do_write_def Let_def elim!: bind_run_SomeE)
  let ?d = "rt\<lparr>delivered := delivered rt @ [(k, sent)]\<rparr>"
  let ?rt = "?d\<lparr>served := on_session k (\<lambda>_. s) (served ?d)\<rparr>"
  obtain s0 where s0: "session_heap (served rt) k = Some s0"
    using known_table [OF assms(1,2)] by (auto simp: known_def)
  have "serves k proceeds (served ?d) (on_session k (\<lambda>_. s) (served ?d))"
    by (rule serves_own [where s = s0]) (use s0 Write_same [OF w] in \<open>simp_all add: session_at_def\<close>)
  note serves = this
  have d: "attends k rt ?d" by (rule attends_delivered [OF assms(1)])
  then have "table_ok ?d" by (simp only: attends_def)
  from attends_trans [OF d attends_serves [OF this serves]] have a: "attends k rt ?rt" .
  then have "attends k ?rt (snd (UpdatePollEvent kn EPOLLIN fd ?rt))"
    by (intro attends_update [where j = k]) (use assms(2) in \<open>simp_all add: attends_def\<close>)
  from attends_trans [OF a this] a show ?thesis by (simp add: rt' on_served_def Let_def)
qed

lemma DoReadWrite_ok:
  assumes "reactor_ok rt" "(fd, k) \<in> set (sessions rt)" "ctl_ok kn Ctl_del fd"
    "DoReadWrite env kn ev k rt = Some (Inr rt')"
  shows "reactor_ok rt' \<and> listener rt' = listener rt
    \<and> {x \<in> set (sessions rt). fst x \<noteq> fd} \<subseteq> set (sessions rt') \<and> set (sessions rt') \<subseteq> set (sessions rt)"
proof -
  have ok: "table_ok rt" "\<And>fd k. (fd, k) \<in> set (sessions rt) \<Longrightarrow> live rt k"
    using assms(1) by (auto simp: reactor_ok_def)
  obtain rt1 where r: "(if fst ev then do_read env kn k rt else Some (Inr rt)) = Some (Inr rt1)"
    and wr: "bind_run (if snd ev then do_write kn k rt1 else Some (Inr rt1)) (\<lambda>rt.
       let s = session_at (served rt) k
       in if status s = kDisconnected then Some (SessionDisconnect kn k rt)
          else if HasOutput s then Some (Inr (snd (UpdatePollEvent kn EPOLLIN_OUT (descriptor_of k rt) rt)))
          else Some (Inr rt)) = Some (Inr rt')"
    using assms(4) unfolding DoReadWrite_def by (rule bind_run_SomeE)
  obtain rt2 where w: "(if snd ev then do_write kn k rt1 else Some (Inr rt1)) = Some (Inr rt2)"
    and end': "(let s = session_at (served rt2) k
       in if status s = kDisconnected then Some (SessionDisconnect kn k rt2)
          else if HasOutput s then Some (Inr (snd (UpdatePollEvent kn EPOLLIN_OUT (descriptor_of k rt2) rt2)))
          else Some (Inr rt2)) = Some (Inr rt')"
    using wr by (rule bind_run_SomeE)
  have a1: "attends k rt rt1"
    using r do_read_attends [OF ok(1) assms(2)] attends_refl [OF ok(1)] by (auto split: if_splits)
  then have t1: "table_ok rt1" "(fd, k) \<in> set (sessions rt1)" using assms(2) by (simp_all add: attends_def)
  have "attends k rt1 rt2"
    using w do_write_attends [OF t1] attends_refl [OF t1(1)] by (auto split: if_splits)
  with a1 have a2: "attends k rt rt2" by (rule attends_trans)
  then have t2: "table_ok rt2" "(fd, k) \<in> set (sessions rt2)" using assms(2) by (simp_all add: attends_def)
  have rest: "live rt2 j" if "(fd', j) \<in> set (sessions rt2)" "j \<noteq> k" for fd' j
    using a2 ok(2) that by (auto simp: attends_def)
  show ?thesis
  proof (cases "live rt2 k")
    case False
    then have d: "SessionDisconnect kn k rt2 = Inr rt'" using end' by (simp add: live_def Let_def)
    obtain rt3 where "SessionDisconnect kn k rt2 = Inr rt3" "table_ok rt3"
      "sessions rt3 = AList.delete fd (sessions rt2)" "listener rt3 = listener rt2"
      "session_heap (served rt3) = session_heap (served rt2)"
      by (rule SessionDisconnect_ok [OF t2 assms(3)])
    moreover have "j \<noteq> k" if "(fd', j) \<in> set (sessions rt2)" "fd' \<noteq> fd" for fd' j
      using table_session_unique [OF t2(1), of fd' j fd] t2(2) that by auto
    ultimately show ?thesis using d a2 rest
      by (auto simp: reactor_ok_def attends_def live_def session_at_def)
  next
    case True
    have "attends k rt2 (snd (UpdatePollEvent kn EPOLLIN_OUT (descriptor_of k rt2) rt2))"
      using known_descriptor [OF known_table [OF t2]] attends_update [OF t2] by simp
    then have "attends k rt2 rt' \<and> live rt' k"
      using True end' attends_refl [OF t2(1)] by (auto simp: live_def Let_def split: if_splits)
    moreover have "\<forall>(fd, j) \<in> set (sessions rt2). live rt2 j" using rest True by (metis (no_types, lifting) case_prodI2)
    ultimately show ?thesis using a2 by (fastforce simp: reactor_ok_def attends_def)
  qed
qed


section \<open>A poll\<close>

text \<open>A poll starts with events of registered descriptors; the channel of each is the listener's or
  that of the session in the table.\<close>

definition event_of :: "(int \<times> channel) list \<Rightarrow> 'db reactor \<Rightarrow> int \<Rightarrow> bool" where
  "event_of m rt fd \<longleftrightarrow> fd = listener rt \<and> map_of m fd = Some Login_channel
     \<or> (\<exists>k. (fd, k) \<in> set (sessions rt) \<and> map_of m fd = Some (Client_channel k))"

lemma event_of_polled: "table_ok rt \<Longrightarrow> polled rt fd \<noteq> None \<Longrightarrow> event_of (channel_map rt) rt fd"
  using table_polled [of rt fd] table_okD(4) [of rt] known_table [of rt fd]
  by (auto simp: event_of_def known_def)

lemma channels_of_events:
  "\<forall>fd \<in> fst ` set evs. event_of m rt fd \<Longrightarrow> \<exists>cs. channels_of evs m = Inr cs"
proof (induction evs)
  case (Cons e evs)
  obtain fd ev where e: "e = (fd, ev)" by (cases e)
  obtain cs where "channels_of evs m = Inr cs" using Cons by auto
  moreover obtain ch where "map_of m fd = Some ch" using Cons.prems e by (auto simp: event_of_def)
  ultimately show ?case using e by simp
qed simp

text \<open>The events of a poll that are still to be handled, and what they rely on. A callback leaves
  the others of its poll due.\<close>

definition due :: "kernel \<Rightarrow> (int \<times> channel) list \<Rightarrow> (int \<times> poll_mask) list \<Rightarrow> 'db reactor \<Rightarrow> bool" where
  "due kn m evs rt \<longleftrightarrow> distinct (map fst evs) \<and> (\<forall>fd \<in> fst ` set evs. event_of m rt fd)
     \<and> reactor_ok rt \<and> removable kn rt
     \<and> (listener rt \<in> fst ` set evs \<longrightarrow> (\<forall>fd. accepted kn = Inl fd \<longrightarrow> polled rt fd = None))"

lemma dueD:
  assumes "due kn m evs rt"
  shows "distinct (map fst evs)" "fd \<in> fst ` set evs \<Longrightarrow> event_of m rt fd" "reactor_ok rt" "table_ok rt"
    "removable kn rt" "listener rt \<in> fst ` set evs \<Longrightarrow> accepted kn = Inl fd \<Longrightarrow> polled rt fd = None"
  using assms by (auto simp: due_def reactor_ok_def)

lemma accept_due:
  assumes "due kn m ((listener rt, ev) # evs) rt" "DoAccept kn rt = Inr rt1"
  shows "due kn m evs rt1"
proof -
  have "polled rt fd = None" if "accepted kn = Inl fd" for fd using dueD(6) [OF assms(1)] that by simp
  note ok = DoAccept_ok [OF dueD(3) [OF assms(1)] this assms(2)]
  have "event_of m rt1 fd" if "fd \<in> fst ` set evs" for fd
  proof -
    have "event_of m rt fd" using dueD(2) [OF assms(1)] that by auto
    then show ?thesis using ok by (auto simp: event_of_def)
  qed
  moreover have "removable kn rt1" using ok dueD(5) [OF assms(1)] unfolding removable_def by blast
  moreover have "listener rt1 \<notin> fst ` set evs" using ok dueD(1) [OF assms(1)] by auto
  ultimately show ?thesis using ok dueD(1) [OF assms(1)] by (simp add: due_def)
qed

lemma read_write_due:
  assumes "due kn m ((fd, ev) # evs) rt" "(fd, k) \<in> set (sessions rt)" "DoReadWrite env kn ev k rt = Some (Inr rt1)"
  shows "due kn m evs rt1"
proof -
  have table: "table_ok rt" by (rule dueD(4) [OF assms(1)])
  have fresh: "fd \<notin> fst ` set evs" using dueD(1) [OF assms(1)] by auto
  have "polled rt fd \<noteq> None" using table_polled [OF table, of fd] assms(2) by force
  then have "ctl_ok kn Ctl_del fd" using dueD(5) [OF assms(1)] by (simp add: removable_def)
  note ok = DoReadWrite_ok [OF dueD(3) [OF assms(1)] assms(2) this assms(3)]
  have t1: "table_ok rt1" using ok by (simp add: reactor_ok_def)
  have less: "polled rt1 fd' \<noteq> None \<Longrightarrow> polled rt fd' \<noteq> None" for fd'
    using table_polled [OF t1, of fd'] table_polled [OF table, of fd'] ok by auto
  have "event_of m rt1 fd'" if "fd' \<in> fst ` set evs" for fd'
  proof -
    have "fd' \<noteq> fd" "event_of m rt fd'" using that fresh dueD(2) [OF assms(1)] by auto
    then show ?thesis using ok by (auto simp: event_of_def)
  qed
  moreover have "removable kn rt1" using less dueD(5) [OF assms(1)] by (auto simp: removable_def)
  moreover have "polled rt1 fd' = None" if "listener rt1 \<in> fst ` set evs" "accepted kn = Inl fd'" for fd'
  proof -
    have "listener rt \<in> fst ` set ((fd, ev) # evs)" using that(1) ok by auto
    then show ?thesis using dueD(6) [OF assms(1)] that(2) less by blast
  qed
  ultimately show ?thesis using ok dueD(1) [OF assms(1)] by (simp add: due_def)
qed

text \<open>The first of the events that are due: an accept at the listener, or the callback of a session.\<close>

lemma due_cases:
  assumes "due kn m ((fd, ev) # evs) rt" "channels_of ((fd, ev) # evs) m = Inr cs"
  obtains cs' where "channels_of evs m = Inr cs'" "cs = (Login_channel, ev) # cs'" "fd = listener rt"
  | k cs' where "channels_of evs m = Inr cs'" "cs = (Client_channel k, ev) # cs'" "(fd, k) \<in> set (sessions rt)"
  using dueD(2) [OF assms(1), of fd] assms(2) by (cases "channels_of evs m") (auto simp: event_of_def)

lemma run_callbacks_ok:
  "due kn m evs rt \<Longrightarrow> channels_of evs m = Inr cs \<Longrightarrow> run_callbacks env kn cs rt = Some (Inr rt')
    \<Longrightarrow> reactor_ok rt' \<and> removable kn rt'"
proof (induction evs arbitrary: cs rt)
  case Nil
  then show ?case by (simp add: due_def)
next
  case (Cons e evs)
  obtain fd ev where e: "e = (fd, ev)" by (cases e)
  note d = Cons.prems(1) [unfolded e]
  show ?case
    using d Cons.prems(2) [unfolded e]
  proof (cases rule: due_cases)
    case (1 cs')
    from Cons.prems(3) obtain rt1 where "DoAccept kn rt = Inr rt1" "run_callbacks env kn cs' rt1 = Some (Inr rt')"
      unfolding 1(2) by (auto elim: bind_run_SomeE)
    then show ?thesis using Cons.IH [OF accept_due [OF d [unfolded 1(3)]] 1(1)] by blast
  next
    case (2 k cs')
    from Cons.prems(3) obtain rt1 where "DoReadWrite env kn ev k rt = Some (Inr rt1)"
      "run_callbacks env kn cs' rt1 = Some (Inr rt')"
      unfolding 2(2) by (auto elim: bind_run_SomeE)
    then show ?thesis using Cons.IH [OF read_write_due [OF d 2(3)] 2(1)] by blast
  qed
qed

lemma poll_due:
  assumes "reactor_ok rt" "kernel_ok kn rt"
  shows "due kn (channel_map rt) (take kMaxEvents (ready kn)) rt"
proof -
  have "event_of (channel_map rt) rt fd" if "fd \<in> fst ` set (take kMaxEvents (ready kn))" for fd
  proof (rule event_of_polled)
    have "fd \<in> fst ` set (ready kn)" using that by (auto dest: in_set_takeD)
    then show "polled rt fd \<noteq> None" using assms(2) unfolding kernel_ok_def by blast
  qed (use assms(1) in \<open>simp add: reactor_ok_def\<close>)
  then show ?thesis
    using assms unfolding due_def kernel_ok_def removable_def
    by (auto simp: take_map [symmetric] simp del: take_map)
qed

section \<open>Timeouts\<close>

lemma disconnect_all_ok:
  assumes "table_ok rt" "distinct ks" "set ks \<subseteq> snd ` set (sessions rt)" "removable kn rt"
  shows "\<exists>rt'. disconnect_all kn ks rt = Inr rt' \<and> table_ok rt'
    \<and> set (sessions rt') = {x \<in> set (sessions rt). snd x \<notin> set ks}
    \<and> session_heap (served rt') = session_heap (served rt)"
  using assms
proof (induction ks arbitrary: rt)
  case Nil
  then show ?case by simp
next
  case (Cons k ks)
  obtain fd where fd: "(fd, k) \<in> set (sessions rt)" using Cons.prems(3) by auto
  have "polled rt fd \<noteq> None" using table_polled [OF Cons.prems(1), of fd] fd by force
  then have "ctl_ok kn Ctl_del fd" using Cons.prems(4) by (simp add: removable_def)
  from SessionDisconnect_ok [OF Cons.prems(1) fd this]
  obtain rt1 where r: "SessionDisconnect kn k rt = Inr rt1" "table_ok rt1"
    "sessions rt1 = AList.delete fd (sessions rt)" "listener rt1 = listener rt"
    "session_heap (served rt1) = session_heap (served rt)" .
  have gone: "fst x \<noteq> fd \<longleftrightarrow> snd x \<noteq> k" if "x \<in> set (sessions rt)" for x
    using table_session_unique [OF Cons.prems(1), of "fst x" "snd x" fd]
      table_entry_unique [OF Cons.prems(1), of "fst x" "snd x" k] that fd by auto
  then have s1: "set (sessions rt1) = {x \<in> set (sessions rt). snd x \<noteq> k}" by (auto simp: r(3))
  have "polled rt1 fd' \<noteq> None \<Longrightarrow> polled rt fd' \<noteq> None" for fd'
    using table_polled [OF r(2), of fd'] table_polled [OF Cons.prems(1), of fd'] r(4) s1 by auto
  then have rem: "removable kn rt1" using Cons.prems(4) by (auto simp: removable_def)
  have sub: "set ks \<subseteq> snd ` set (sessions rt1)"
  proof
    fix j assume "j \<in> set ks"
    then have "j \<in> snd ` set (sessions rt)" "j \<noteq> k" using Cons.prems(2,3) by auto
    then show "j \<in> snd ` set (sessions rt1)" unfolding s1 by force
  qed
  have dis: "distinct ks" using Cons.prems(2) by simp
  obtain rt' where "disconnect_all kn ks rt1 = Inr rt'" "table_ok rt'"
    "set (sessions rt') = {x \<in> set (sessions rt1). snd x \<notin> set ks}"
    "session_heap (served rt') = session_heap (served rt1)"
    using Cons.IH [OF r(2) dis sub rem] by blast
  then show ?case using r(1,5) s1 by (intro exI [of _ rt']) auto
qed

lemma set_status_twice [simp]: "set_status a (set_status b s) = set_status a s"
  by (simp add: set_status_def)

lemma marked_heap:
  "session_heap (fold (\<lambda>k. on_session k (set_status kDisconnected)) ks sv) j
     = (if j \<in> set ks then map_option (set_status kDisconnected) (session_heap sv j) else session_heap sv j)"
  by (induction ks arbitrary: sv) (auto simp: on_session_def option.map_comp comp_def)

lemma marked_serves:
  "serves k proceeds sv (on_session j (set_status kDisconnected) sv)" if "k = j"
  unfolding that by (rule serves_on_session) (rule proceeds_disconnect)

lemma table_marked:
  "table_ok rt \<Longrightarrow> table_ok (on_served (fold (\<lambda>k. on_session k (set_status kDisconnected)) ks) rt)"
proof (induction ks arbitrary: rt)
  case Nil
  then show ?case by (simp add: on_served_def)
next
  case (Cons k ks)
  have "table_ok (rt\<lparr>served := on_session k (set_status kDisconnected) (served rt)\<rparr>)"
    by (rule table_serves [OF marked_serves [OF refl] Cons.prems])
  from Cons.IH [OF this] show ?case by (simp add: on_served_def)
qed

lemma check_timeouts_ok:
  assumes "reactor_ok rt" "removable kn rt"
  obtains rt' where "check_timeouts ndebug kn rt = Inr rt'" "reactor_ok rt'"
    "list_all (\<lambda>(fd, k). timeout_clock kn - last_active (socket (session_at (served rt') k)) < kDefaultTimeout ndebug)
      (sessions rt')"
proof -
  let ?late = "timed_out ndebug kn rt"
  let ?rt = "on_served (fold (\<lambda>k. on_session k (set_status kDisconnected)) ?late) rt"
  have ok: "table_ok rt" "\<And>fd k. (fd, k) \<in> set (sessions rt) \<Longrightarrow> live rt k"
    using assms(1) by (auto simp: reactor_ok_def)
  have t: "table_ok ?rt" by (rule table_marked [OF ok(1)])
  have d: "distinct ?late"
    unfolding timed_out_def by (rule distinct_map_filter [OF table_distinct [OF ok(1)]])
  have sub: "set ?late \<subseteq> snd ` set (sessions ?rt)" by (auto simp: timed_out_def on_served_def)
  have rem: "removable kn ?rt" using assms(2) by (simp add: removable_def on_served_def)
  obtain rt' where r: "disconnect_all kn ?late ?rt = Inr rt'" "table_ok rt'"
    "set (sessions rt') = {x \<in> set (sessions ?rt). snd x \<notin> set ?late}"
    "session_heap (served rt') = session_heap (served ?rt)"
    using disconnect_all_ok [OF t d sub rem] by blast
  have same: "(fd, k) \<in> set (sessions rt)" "k \<notin> set ?late"
    "session_at (served rt') k = session_at (served rt) k" if "(fd, k) \<in> set (sessions rt')" for fd k
    using that r(3,4) by (auto simp: on_served_def session_at_def marked_heap)
  show thesis
  proof
    show "check_timeouts ndebug kn rt = Inr rt'" using r(1) by (simp add: check_timeouts_def Let_def)
    have "live rt' k" if "(fd, k) \<in> set (sessions rt')" for fd k
      using ok(2) [OF same(1) [OF that]] same(3) [OF that] by (simp add: live_def)
    then show "reactor_ok rt'" using r(2) by (auto simp: reactor_ok_def)
    have "timeout_clock kn - last_active (socket (session_at (served rt') k)) < kDefaultTimeout ndebug"
      if "(fd, k) \<in> set (sessions rt')" for fd k
    proof (rule ccontr)
      assume "\<not> ?thesis"
      then have "k \<in> set ?late" using same(1,3) [OF that] by (force simp: timed_out_def)
      then show False using same(2) [OF that] by simp
    qed
    then show "list_all (\<lambda>(fd, k). timeout_clock kn - last_active (socket (session_at (served rt') k)) < kDefaultTimeout ndebug)
        (sessions rt')"
      by (auto simp: list_all_iff)
  qed
qed

lemma release_ok:
  assumes "reactor_ok rt"
  shows "reactor_ok (release rt)" "sessions (release rt) = sessions rt"
    "(fd, k) \<in> set (sessions rt) \<Longrightarrow> session_at (served (release rt)) k = session_at (served rt) k"
proof -
  have keep: "session_heap (served (release rt)) k = session_heap (served rt) k"
    if "(fd, k) \<in> set (sessions rt)" for fd k
    using that by (force simp: release_def on_served_def)
  show at: "session_at (served (release rt)) k = session_at (served rt) k"
    if "(fd, k) \<in> set (sessions rt)" for fd k using keep [OF that] by (simp add: session_at_def)
  show same: "sessions (release rt) = sessions rt" by (simp add: release_def on_served_def)
  have t: "table_ok rt" using assms by (simp add: reactor_ok_def)
  have "table_ok (release rt)"
  proof (rule table_okI)
    fix fd k assume "(fd, k) \<in> set (sessions (release rt))"
    then have "(fd, k) \<in> set (sessions rt)" by (simp add: same)
    then show "known (release rt) fd k"
      using known_table [OF t] keep by (fastforce simp: known_def release_def on_served_def)
  next
    fix k assume "session_heap (served (release rt)) k \<noteq> None"
    then have "session_heap (served rt) k \<noteq> None" by (simp add: release_def on_served_def split: if_splits)
    then show "k < next_session (release rt)"
      using table_okD(5) [OF t] by (simp add: release_def on_served_def)
  qed (use table_okD [OF t] in \<open>simp_all add: release_def on_served_def\<close>)
  then show "reactor_ok (release rt)"
    using assms at same by (auto simp: reactor_ok_def live_def)
qed


section \<open>Every poll keeps the invariant\<close>

lemma Wait_ok:
  assumes "reactor_ok rt" "kernel_ok kn rt"
  shows "\<exists>cs. Wait kn rt = Inr cs"
  using dueD(2) [OF poll_due [OF assms]] unfolding Wait_def by (intro channels_of_events) blast

lemma Poll_ok:
  assumes "reactor_ok rt" "kernel_ok kn rt" "Poll env ndebug kn rt = Some (Inr rt')"
  shows "reactor_ok rt'
    \<and> list_all (\<lambda>(fd, k). timeout_clock kn - last_active (socket (session_at (served rt') k)) < kDefaultTimeout ndebug)
        (sessions rt')"
proof -
  obtain cs where cs: "Wait kn rt = Inr cs" using Wait_ok [OF assms(1,2)] ..
  obtain rt1 where r1: "run_callbacks env kn cs rt = Some (Inr rt1)"
    and rest: "bind_run (Some (check_timeouts ndebug kn rt1)) (\<lambda>rt. Some (Inr (release rt))) = Some (Inr rt')"
    using assms(3) unfolding Poll_def cs bind_run_simps by (rule bind_run_SomeE)
  from run_callbacks_ok [OF poll_due [OF assms(1,2)] cs [unfolded Wait_def] r1]
  have ok: "reactor_ok rt1" "removable kn rt1" by auto
  obtain rt2 where r2: "check_timeouts ndebug kn rt1 = Inr rt2" "reactor_ok rt2"
    "list_all (\<lambda>(fd, k). timeout_clock kn - last_active (socket (session_at (served rt2) k)) < kDefaultTimeout ndebug)
      (sessions rt2)"
    by (rule check_timeouts_ok [OF ok])
  have rt': "rt' = release rt2" using rest r2(1) by simp
  have "timeout_clock kn - last_active (socket (session_at (served rt') k)) < kDefaultTimeout ndebug"
    if "(fd, k) \<in> set (sessions rt2)" for fd k
    using r2(3) release_ok(3) [OF r2(2) that] that by (auto simp: rt' list_all_iff)
  then show ?thesis
    using release_ok(1,2) [OF r2(2)] by (auto simp: rt' list_all_iff)
qed

lemma reachable_ok: "reachable env ndebug rt \<Longrightarrow> reactor_ok rt"
proof (induction rule: reachable.induct)
  case (start kn s d sv rt)
  have "rt = (new_reactor s sv)\<lparr>channel_map := [(s, Login_channel)], polled := [s \<mapsto> EPOLLIN]\<rparr>"
    using start(1,2) by (auto simp: Reactor_def EPoll_def AddPollEvent_def new_reactor_def map_put_def
        split: if_splits)
  then show ?case using start(3)
    by (auto simp: reactor_ok_def table_ok_def new_reactor_def)
next
  case (poll rt kn rt')
  then show ?case using Poll_ok by blast
qed

section \<open>Properties\<close>

text \<open>Property C2. In every state the reactor reaches, the table of sessions, the channels and the
  kernel's registrations agree: registered are the listener and exactly the descriptors in the
  table, each once; the session behind a descriptor exists, owns it, is the one its channel is
  bound to, and is alive in a mode in which its decoder, encoder and handler belong together.\<close>

theorem reactor_invariant:
  assumes "reachable env ndebug rt"
  shows "distinct (map fst (sessions rt)) \<and> listener rt \<notin> fst ` set (sessions rt)
    \<and> dom (polled rt) = insert (listener rt) (fst ` set (sessions rt))
    \<and> list_all (\<lambda>(fd, k). map_of (channel_map rt) fd = Some (Client_channel k)
        \<and> (\<exists>s. session_heap (served rt) k = Some s \<and> socketId (socket s) = fd
             \<and> mode_ok (mode s) \<and> status s \<noteq> kDisconnected)) (sessions rt)"
proof -
  have ok: "table_ok rt" "\<And>fd k. (fd, k) \<in> set (sessions rt) \<Longrightarrow> live rt k"
    using reachable_ok [OF assms] by (auto simp: reactor_ok_def)
  have "map_of (channel_map rt) fd = Some (Client_channel k)
      \<and> (\<exists>s. session_heap (served rt) k = Some s \<and> socketId (socket s) = fd
        \<and> mode_ok (mode s) \<and> status s \<noteq> kDisconnected)" if e: "(fd, k) \<in> set (sessions rt)" for fd k
  proof -
    obtain s where s: "session_heap (served rt) k = Some s" "socketId (socket s) = fd"
      "mode_step\<^sup>*\<^sup>* new_mode (mode s)" "map_of (channel_map rt) fd = Some (Client_channel k)"
      using known_table [OF ok(1) e] unfolding known_def by blast
    have "mode_ok (mode s)" by (rule mode_ok_steps [OF s(3) mode_ok_new])
    with s ok(2) [OF e] show ?thesis by (simp add: live_def session_at_def)
  qed
  then show ?thesis using table_okD(1-3) [OF ok(1)] by (auto simp: list_all_iff)
qed

text \<open>Property C28. No step of the poll object fails: the events of a poll all have a channel, never a
  dangling pointer, and disconnecting any session succeeds and takes exactly its entry out. A
  poll that returns leaves no session that was idle for the timeout or longer.\<close>

theorem Poll_safe:
  assumes "reachable env ndebug rt" "kernel_ok kn rt"
  shows "(\<exists>cs. Wait kn rt = Inr cs)
    \<and> list_all (\<lambda>(fd, k). \<exists>rt'. SessionDisconnect kn k rt = Inr rt'
        \<and> sessions rt' = AList.delete fd (sessions rt)) (sessions rt)
    \<and> (case Poll env ndebug kn rt of
         Some (Inr rt') \<Rightarrow> list_all (\<lambda>(fd, k). timeout_clock kn
           < last_active (socket (session_at (served rt') k)) + kDefaultTimeout ndebug) (sessions rt')
       | _ \<Rightarrow> True)"
proof (intro conjI)
  have ok: "reactor_ok rt" by (rule reachable_ok [OF assms(1)])
  show "\<exists>cs. Wait kn rt = Inr cs" by (rule Wait_ok [OF ok assms(2)])
  have t: "table_ok rt" using ok by (simp add: reactor_ok_def)
  have "\<exists>rt'. SessionDisconnect kn k rt = Inr rt' \<and> sessions rt' = AList.delete fd (sessions rt)"
    if "(fd, k) \<in> set (sessions rt)" for fd k
  proof -
    have "polled rt fd \<noteq> None" using table_polled [OF t, of fd] that by force
    then have "ctl_ok kn Ctl_del fd" using assms(2) by (simp add: kernel_ok_def)
    from SessionDisconnect_ok [OF t that this] show ?thesis by metis
  qed
  then show "list_all (\<lambda>(fd, k). \<exists>rt'. SessionDisconnect kn k rt = Inr rt'
      \<and> sessions rt' = AList.delete fd (sessions rt)) (sessions rt)"
    by (auto simp: list_all_iff)
  have "a < b + kDefaultTimeout ndebug" if "a - b < kDefaultTimeout ndebug" for a b using that by arith
  note idle = this
  show "case Poll env ndebug kn rt of
         Some (Inr rt') \<Rightarrow> list_all (\<lambda>(fd, k). timeout_clock kn
           < last_active (socket (session_at (served rt') k)) + kDefaultTimeout ndebug) (sessions rt')
       | _ \<Rightarrow> True"
    using Poll_ok [OF ok assms(2), of env ndebug]
    by (auto simp: list_all_iff intro!: idle split: option.splits sum.splits)
qed

section \<open>Examples\<close>

text \<open>A listener on descriptor 3 and a client that is accepted on descriptor 5.\<close>

definition sample_kernel :: kernel where
  "sample_kernel = \<lparr>ready = [(3, EPOLLIN)], ctl_ok = (\<lambda>_ _. True), accepted = Inl 5, nonblocking = True,
     peer_known = True, incoming = (\<lambda>_. []), outgoing = (\<lambda>_. []), clock = (\<lambda>_. 0), timeout_clock = 0\<rparr>"

definition sample_reactor :: "unit reactor" where
  "sample_reactor = (new_reactor 3 (sample_server\<lparr>session_heap := Map.empty\<rparr>))
     \<lparr>channel_map := [(3, Login_channel)], polled := [3 \<mapsto> EPOLLIN]\<rparr>"

lemma sample_reachable: "reachable sample_env True sample_reactor"
  by (rule reachable.start [where kn = sample_kernel and s = 3 and d = 4
        and sv = "sample_server\<lparr>session_heap := Map.empty\<rparr>"])
    (simp_all add: sample_reactor_def Reactor_def EPoll_def kMaxEvents_def AddPollEvent_def sample_kernel_def
      map_put_def new_reactor_def)

lemma sample_kernel_ok: "kernel_ok sample_kernel sample_reactor"
  by (simp add: kernel_ok_def sample_kernel_def sample_reactor_def)

lemma sample_poll: "\<exists>rt. Poll sample_env True sample_kernel sample_reactor = Some (Inr rt) \<and> sessions rt = [(5, 0)]"
  by (simp add: Poll_def Wait_def sample_kernel_def sample_reactor_def new_reactor_def kMaxEvents_def DoAccept_def
      accept_socket_def kInvalidSocketId_def new_socket_def AddPollEvent_def on_served_def Let_def map_put_def
      check_timeouts_def timed_out_def kDefaultTimeout_def release_def)

theorem reactor_invariant_witness:
  "\<exists>rt. reachable sample_env True rt \<and> sessions rt = [(5, 0)] \<and> dom (polled rt) = {listener rt, 5}"
proof -
  obtain rt where rt: "Poll sample_env True sample_kernel sample_reactor = Some (Inr rt)" "sessions rt = [(5, 0)]"
    using sample_poll by blast
  have "reachable sample_env True rt" by (rule reachable.poll [OF sample_reachable sample_kernel_ok rt(1)])
  with reactor_invariant [OF this] rt(2) show ?thesis by auto
qed

theorem Poll_safe_witness: "\<exists>cs. Wait sample_kernel sample_reactor = Inr cs"
  using Poll_safe [OF sample_reachable sample_kernel_ok] by blast

end
