(* ===== verification/Startup.thy ===== *)
theory Startup
  imports Polls
begin

text \<open>
  Starting the server (\<open>main.cpp\<close>) with the initialisation of the managers
  (\<open>manager/databasemanager.cpp\<close>, \<open>manager/cache/cachemanager.cpp\<close>). The files, the databases
  and the libraries are parameters. The loop of \<open>main\<close> runs over the list of the kernels it
  meets; its sleep until the next tick has no effect on the state.
\<close>

section \<open>The database\<close>

text \<open>What is outside: the files, the decimals of floating-point numbers, decompression, the Whirlpool
  digest and opening a database, which gives its first state.\<close>

record 'db platform =
  print_float :: "int \<Rightarrow> int \<Rightarrow> u8 list"
  read_file :: "string \<Rightarrow> u8 list option"
  gunzip :: "u8 list \<Rightarrow> u8 list res"
  digest :: "u8 list \<Rightarrow> u8 list"
  open_sqlite :: "cstring \<Rightarrow> 'db option"
  open_mysql :: "cstring \<Rightarrow> cstring \<Rightarrow> cstring \<Rightarrow> cstring \<Rightarrow> 'db option"
  cache_path :: string
  default_config_path :: string

definition database_setting :: "string \<Rightarrow> 'db server \<Rightarrow> cstring res" where
  "database_setting key sv = bind_res (setting ''database'' key (config sv)) json_string"

definition opened :: "'db option \<Rightarrow> 'db server \<Rightarrow> bool \<times> 'db server" where
  "opened r sv = (case r of None \<Rightarrow> (False, sv) | Some d \<Rightarrow> (True, sv\<lparr>database_state := d\<rparr>))"

definition InitMySQL :: "'db platform \<Rightarrow> 'db server \<Rightarrow> (bool \<times> 'db server) res" where
  "InitMySQL pf sv =
     bind_res (database_setting ''host'' sv) (\<lambda>host.
     bind_res (database_setting ''username'' sv) (\<lambda>user.
     bind_res (database_setting ''password'' sv) (\<lambda>pw.
     bind_res (database_setting ''database'' sv) (\<lambda>db.
       Inr (opened (open_mysql pf host user pw db) sv)))))"

definition InitSqlite :: "'db platform \<Rightarrow> 'db server \<Rightarrow> (bool \<times> 'db server) res" where
  "InitSqlite pf sv =
     bind_res (database_setting ''filename'' sv) (\<lambda>file. Inr (opened (open_sqlite pf file) sv))"

text \<open>What a database throws is caught and ends the initialisation; what the column definitions
  throw, a \<open>logic_error\<close>, is not. The result of creating the table is not looked at.\<close>

definition create_table :: "backend \<Rightarrow> 'db env \<Rightarrow> 'db server \<Rightarrow> (bool \<times> 'db server) res" where
  "create_table be env sv =
     (case CreateModelTable be (database env) (database_state sv) of
        (Inl (Logic_error m), _) \<Rightarrow> Inl (Logic_error m)
      | (Inl _, s) \<Rightarrow> Inr (False, sv\<lparr>database_state := s\<rparr>)
      | (Inr _, s) \<Rightarrow> Inr (True, sv\<lparr>database_state := s\<rparr>))"

definition DatabaseManager_Init :: "'db platform \<Rightarrow> 'db env \<Rightarrow> 'db server \<Rightarrow> (bool \<times> 'db server) res" where
  "DatabaseManager_Init pf env sv =
     bind_res (database_setting ''mode'' sv) (\<lambda>kind.
       if kind = ascii ''mysql''
       then bind_res (InitMySQL pf sv) (\<lambda>(ok, sv). if ok then create_table Mysql env sv else Inr (False, sv))
       else bind_res (InitSqlite pf sv) (\<lambda>(ok, sv). if ok then create_table Sqlite env sv else Inr (False, sv)))"

text \<open>All rows of the table.\<close>

definition GetModels :: "'db env \<Rightarrow> player_model list \<Rightarrow> 'db server \<Rightarrow> ((bool \<times> player_model list) \<times> 'db server) res" where
  "GetModels env out sv = with_backend sv (False, out) (\<lambda>be. Select be (database env) out)"

section \<open>The cache\<close>

text \<open>Whether the configuration of the cache could be read is not looked at.\<close>

definition CacheManager_Init :: "'db platform \<Rightarrow> 'db server \<Rightarrow> (bool \<times> 'db server) res option" where
  "CacheManager_Init pf sv =
     (case Cache (digest pf) (gunzip pf) (read_file pf) (cache_path pf) of
        None \<Rightarrow> None
      | Some (Inl (Runtime_error _)) \<Rightarrow> Some (Inr (False, sv))
      | Some (Inl e) \<Rightarrow> Some (Inl e)
      | Some (Inr (c, h)) \<Rightarrow>
          (case InitCacheConfig (read_file pf) 718 (cache_path pf @ ''config.json'') (config sv) of
             Inl e \<Rightarrow> Some (Inl e)
           | Inr (_, cm) \<Rightarrow> Some (Inr (True, sv\<lparr>cache_object := c, cache_files := h, config := cm\<rparr>))))"

section \<open>The program\<close>

text \<open>The state before the initialisation. The cache and the database are null until they are
  initialised; nothing looks at them before that.\<close>

definition blank_server :: "string \<Rightarrow> 'db \<Rightarrow> 'db server" where
  "blank_server path d = \<lparr>config = new_config_manager path,
     cache_object = \<lparr>cache_streams = [], main_index = new_index 0 1, indexes = []\<rparr>,
     cache_files = Map.empty, database_state = d, worlds = [], player_sessions = Map.empty,
     player_heap = (\<lambda>_. new_player), next_player = 0, session_heap = Map.empty\<rparr>"

datatype ending = Exit nat | Aborted fault

text \<open>\<open>bind_init\<close>: a manager that cannot be initialised ends the program with code 1.\<close>

definition bind_init :: "(bool \<times> 'db server) res option \<Rightarrow> ('db server \<Rightarrow> (ending + 'r) option) \<Rightarrow> (ending + 'r) option" where
  "bind_init m f =
     (case m of
        None \<Rightarrow> None
      | Some (Inl e) \<Rightarrow> Some (Inl (Aborted e))
      | Some (Inr (ok, sv)) \<Rightarrow> if ok then f sv else Some (Inl (Exit 1)))"

text \<open>The exceptions that leave the reactor: only a \<open>runtime_error\<close> is caught.\<close>

fun ending_of :: "fault \<Rightarrow> ending" where
  "ending_of (Runtime_error _) = Exit 1"
| "ending_of e = Aborted e"

fun main_loop :: "'db env \<Rightarrow> bool \<Rightarrow> kernel list \<Rightarrow> 'db reactor \<Rightarrow> (ending + 'db reactor) option" where
  "main_loop env ndebug [] rt = Some (Inr rt)"
| "main_loop env ndebug (kn # kns) rt =
     (case Poll env ndebug kn rt of
        None \<Rightarrow> None
      | Some (Inl e) \<Rightarrow> Some (Inl (ending_of e))
      | Some (Inr rt) \<Rightarrow> main_loop env ndebug kns rt)"

definition init_config :: "'db platform \<Rightarrow> 'db server \<Rightarrow> (bool \<times> 'db server) res" where
  "init_config pf sv =
     bind_res (Init_config (print_float pf) (read_file pf) (config sv)) (\<lambda>(ok, cm, _). Inr (ok, sv\<lparr>config := cm\<rparr>))"

text \<open>\<open>main\<close> up to its loop, then as many turns of it as there are kernels.\<close>

definition main :: "'db platform \<Rightarrow> 'db env \<Rightarrow> 'db \<Rightarrow> bool \<Rightarrow> kernel \<Rightarrow> int res \<Rightarrow> int \<Rightarrow> kernel list
    \<Rightarrow> (ending + 'db reactor) option" where
  "main pf env d ndebug kn server_socket poll_descriptor kns =
     bind_init (Some (init_config pf (blank_server (default_config_path pf) d))) (\<lambda>sv.
     bind_init (Some (DatabaseManager_Init pf env sv)) (\<lambda>sv.
     bind_init (CacheManager_Init pf sv) (\<lambda>sv.
     bind_init (Some (Inr (Init_worlds sv))) (\<lambda>sv.
       case Reactor kn server_socket poll_descriptor sv of
         Inl e \<Rightarrow> Some (Inl (ending_of e))
       | Inr rt \<Rightarrow> main_loop env ndebug kns rt))))"

section \<open>Properties\<close>

text \<open>The kernels of a run keep their promises, each in the state it meets.\<close>

fun kernels_ok :: "'db env \<Rightarrow> bool \<Rightarrow> kernel list \<Rightarrow> 'db reactor \<Rightarrow> bool" where
  "kernels_ok env ndebug [] rt = True"
| "kernels_ok env ndebug (kn # kns) rt \<longleftrightarrow> kernel_ok kn rt \<and>
     (case Poll env ndebug kn rt of Some (Inr rt) \<Rightarrow> kernels_ok env ndebug kns rt | _ \<Rightarrow> True)"

lemma main_loop_reachable:
  "reachable env ndebug rt \<Longrightarrow> kernels_ok env ndebug kns rt \<Longrightarrow> main_loop env ndebug kns rt = Some (Inr rt')
    \<Longrightarrow> reachable env ndebug rt'"
proof (induction kns arbitrary: rt)
  case (Cons kn kns)
  obtain rt1 where p: "Poll env ndebug kn rt = Some (Inr rt1)"
    using Cons.prems(3) by (auto split: option.splits sum.splits)
  have "kernel_ok kn rt" "kernels_ok env ndebug kns rt1" "main_loop env ndebug kns rt1 = Some (Inr rt')"
    using Cons.prems(2,3) p by simp_all
  then show ?case using Cons.IH [OF reachable.poll [OF Cons.prems(1) _ p]] by blast
qed simp

lemma main_loop_never_exits_0: "main_loop env ndebug kns rt \<noteq> Some (Inl (Exit 0))"
proof (induction kns arbitrary: rt)
  case (Cons kn kns)
  have "ending_of e \<noteq> Exit 0" for e by (cases e) simp_all
  with Cons show ?case by (auto split: option.splits sum.splits)
qed simp

text \<open>A configuration file that starts the server in the default configuration: none, or one that is not
  JSON and does not begin like an array, or the one such a start has written.\<close>

definition starts_default :: "u8 list \<Rightarrow> bool" where
  "starts_default cs \<longleftrightarrow>
     (case read_json cs Json_null of
        Parse_error j \<Rightarrow> fst (scan_first cs) \<noteq> begin_array
      | Parsed j \<Rightarrow> j = as_read default_config
      | Number_overflow j \<Rightarrow> False)"

lemma starts_default_written: "starts_default (default_text tc)"
  by (simp add: starts_default_def default_text(3))

lemma starts_default_missing: "starts_default []"
  by (simp add: starts_default_def read_json_def scan_first_def skip_bom_def scan_token_def skip_whitespace_def
      sax_parse_internal.simps parse_step_def parse_value_def)

lemma missing_not_overflow: "read_json [] Json_null \<noteq> Number_overflow j"
  using starts_default_missing by (auto simp: starts_default_def)

definition default_settings_of :: "config_manager \<Rightarrow> bool" where
  "default_settings_of cm \<longleftrightarrow> json_config cm = default_config \<or> json_config cm = as_read default_config"

lemma Init_starts_default:
  assumes "starts_default (file_text files path)"
  obtains cm written where "Init_config tc files (new_config_manager path) = Inr (True, cm, written)"
    "default_settings_of cm" "cache_config cm = Map.empty"
proof (cases "read_json (file_text files path) Json_null")
  case (Parsed j)
  with assms that show thesis
    by (simp add: starts_default_def Init_config_def new_config_manager_def default_settings_of_def)
next
  case (Parse_error j)
  with assms that Init_default [of files "new_config_manager path" j tc] show thesis
    by (simp add: starts_default_def new_config_manager_def default_settings_of_def)
qed (use assms in \<open>simp add: starts_default_def\<close>)

lemma default_settings_same: "default_settings_of cm \<Longrightarrow> same_settings (cm'\<lparr>json_config := default_config\<rparr>) cm"
  using same_settings_as_read [of cm "cm'\<lparr>json_config := default_config\<rparr>"]
  by (auto simp: default_settings_of_def same_settings_def setting_def setting_of_copy_def)

text \<open>What the first three managers need for a start with the default configuration.\<close>

definition platform_ok :: "'db platform \<Rightarrow> 'db env \<Rightarrow> 'db \<Rightarrow> 'db \<Rightarrow> cache \<Rightarrow> streams \<Rightarrow> bool" where
  "platform_ok pf env d0 d1 c h \<longleftrightarrow>
     starts_default (file_text (read_file pf) (default_config_path pf))
     \<and> (\<forall>j. read_json (file_text (read_file pf) (cache_path pf @ ''config.json'')) Json_null \<noteq> Number_overflow j)
     \<and> open_sqlite pf (ascii ''database.db'') = Some d0
     \<and> (\<exists>r. CreateModelTable Sqlite (database env) d0 = (Inr r, d1))
     \<and> Cache (digest pf) (gunzip pf) (read_file pf) (cache_path pf) = Some (Inr (c, h))"

lemma default_database:
  assumes "default_settings_of (config sv)"
  shows "database_setting ''mode'' sv = Inr (ascii ''sqlite'')"
    and "database_setting ''filename'' sv = Inr (ascii ''database.db'')"
proof -
  let ?cm = "(config sv)\<lparr>json_config := default_config\<rparr>"
  have "json_config ?cm = default_config" by simp
  then have "bind_res (setting ''database'' ''mode'' ?cm) json_string = Inr (ascii ''sqlite'')"
    "bind_res (setting ''database'' ''filename'' ?cm) json_string = Inr (ascii ''database.db'')"
    by (use default_setting [of ?cm] in \<open>simp add: default_settings_def json_string_def\<close>)+
  then show "database_setting ''mode'' sv = Inr (ascii ''sqlite'')"
    "database_setting ''filename'' sv = Inr (ascii ''database.db'')"
    using default_settings_same [OF assms, of "config sv"] by (simp_all add: database_setting_def same_settings_def)
qed

lemma started:
  fixes sv :: "'a server"
  assumes "platform_ok pf env d0 d1 c h" "config sv = new_config_manager (default_config_path pf)"
  obtains cm0 cm where "init_config pf sv = Inr (True, sv\<lparr>config := cm0\<rparr>)"
    "DatabaseManager_Init pf env (sv\<lparr>config := cm0\<rparr>) = Inr (True, sv\<lparr>config := cm0, database_state := d1\<rparr>)"
    "CacheManager_Init pf (sv\<lparr>config := cm0, database_state := d1\<rparr>)
       = Some (Inr (True, sv\<lparr>config := cm, database_state := d1, cache_object := c, cache_files := h\<rparr>))"
    "default_settings_of cm"
proof -
  have "starts_default (file_text (read_file pf) (default_config_path pf))" using assms(1) by (simp add: platform_ok_def)
  then obtain cm0 written where cm0: "Init_config (print_float pf) (read_file pf) (config sv) = Inr (True, cm0, written)"
    "default_settings_of cm0" "cache_config cm0 = Map.empty"
    unfolding assms(2) by (rule Init_starts_default)
  then have 1: "init_config pf sv = Inr (True, sv\<lparr>config := cm0\<rparr>)" by (simp add: init_config_def)
  obtain r where r: "CreateModelTable Sqlite (database env) d0 = (Inr r, d1)"
    using assms(1) by (auto simp: platform_ok_def)
  have "ascii ''sqlite'' \<noteq> ascii ''mysql''" by (simp add: ascii_def)
  moreover have "default_settings_of (config (sv\<lparr>config := cm0\<rparr>))" using cm0(2) by simp
  ultimately have 2: "DatabaseManager_Init pf env (sv\<lparr>config := cm0\<rparr>) = Inr (True, sv\<lparr>config := cm0, database_state := d1\<rparr>)"
    using assms(1) r by (simp add: DatabaseManager_Init_def default_database InitSqlite_def opened_def platform_ok_def
        create_table_def)
  have "\<exists>b cm. InitCacheConfig (read_file pf) 718 (cache_path pf @ ''config.json'') cm0 = Inr (b, cm)"
    using assms(1) cm0(3)
    by (cases "read_json (file_text (read_file pf) (cache_path pf @ ''config.json'')) Json_null")
      (auto simp: InitCacheConfig_def platform_ok_def)
  then obtain b cm where i: "InitCacheConfig (read_file pf) 718 (cache_path pf @ ''config.json'') cm0 = Inr (b, cm)"
    by blast
  then have "json_config cm = json_config cm0" by (auto simp: InitCacheConfig_def Let_def split: parsed.splits)
  then have 4: "default_settings_of cm" using cm0(2) by (simp add: default_settings_of_def)
  have 3: "CacheManager_Init pf (sv\<lparr>config := cm0, database_state := d1\<rparr>)
      = Some (Inr (True, sv\<lparr>config := cm, database_state := d1, cache_object := c, cache_files := h\<rparr>))"
    using assms(1) i by (simp add: CacheManager_Init_def platform_ok_def)
  show thesis by (rule that [OF 1 2 3 4])
qed

text \<open>Property C30. A server with no configuration file, or with the one that such a start has
  written, starts: when the database of the default configuration opens and takes its table, the
  cache is complete and the port is free, \<open>main\<close> gets to its loop with that configuration, the
  cache it read and world 1. From there on it never
  ends with success, and every state it is in is one the invariant of the reactor holds of.\<close>

theorem main_serves:
  assumes "platform_ok pf env d0 d1 c h" "ctl_ok kn Ctl_add s" "0 < p"
  shows "\<exists>rt. main pf env d ndebug kn (Inr s) p kns = main_loop env ndebug kns rt
    \<and> reachable env ndebug rt \<and> sessions rt = [] 
    \<and> default_settings_of (config (served rt))
    \<and> cache_object (served rt) = c \<and> worlds (served rt) = [(1, new_world)]
    \<and> (case main_loop env ndebug kns rt of
         Some (Inr rt') \<Rightarrow> kernels_ok env ndebug kns rt \<longrightarrow> reachable env ndebug rt'
       | Some (Inl e) \<Rightarrow> e \<noteq> Exit 0
       | None \<Rightarrow> True)"
proof -
  let ?sv = "blank_server (default_config_path pf) d"
  have "config ?sv = new_config_manager (default_config_path pf)" by (simp add: blank_server_def)
  then obtain cm0 cm where i: "init_config pf ?sv = Inr (True, ?sv\<lparr>config := cm0\<rparr>)"
    "DatabaseManager_Init pf env (?sv\<lparr>config := cm0\<rparr>) = Inr (True, ?sv\<lparr>config := cm0, database_state := d1\<rparr>)"
    "CacheManager_Init pf (?sv\<lparr>config := cm0, database_state := d1\<rparr>)
       = Some (Inr (True, ?sv\<lparr>config := cm, database_state := d1, cache_object := c, cache_files := h\<rparr>))"
    "default_settings_of cm"
    by (rule started [OF assms(1)])
  let ?sv' = "add_world 1 new_world (?sv\<lparr>config := cm, database_state := d1, cache_object := c, cache_files := h\<rparr>)"
  obtain rt where rt: "Reactor kn (Inr s) p ?sv' = Inr rt"
    using assms(3) by (simp add: Reactor_def EPoll_def kMaxEvents_def)
  have 1: "main pf env d ndebug kn (Inr s) p kns = main_loop env ndebug kns rt"
    using i(1-3) rt by (simp add: main_def bind_init_def Init_worlds_def)
  have 2: "reachable env ndebug rt"
    by (rule reachable.start [OF rt assms(2)])
      (simp add: blank_server_def add_world_def set_world_def)
  have 3: "sessions rt = [] \<and> served rt = ?sv'"
    using rt assms(3) by (auto simp: Reactor_def EPoll_def kMaxEvents_def AddPollEvent_def new_reactor_def Let_def)
  show ?thesis
    using 1 2 3 i(4) main_loop_reachable [OF 2] main_loop_never_exits_0 [of env ndebug kns rt]
    by (auto simp: blank_server_def add_world_def set_world_def split: option.splits sum.splits)
qed

section \<open>Examples\<close>

definition sample_platform :: "unit platform" where
  "sample_platform = \<lparr>print_float = (\<lambda>_ _. []),
     read_file = (\<lambda>f. if f = ''main_file_cache.dat2'' \<or> f = ''main_file_cache.idx255'' then Some [] else None),
     gunzip = Inr, digest = (\<lambda>_. []), open_sqlite = (\<lambda>_. Some ()), open_mysql = (\<lambda>_ _ _ _. None),
     cache_path = [], default_config_path = ''config.json''\<rparr>"

lemma sample_cache:
  "\<exists>c h. Cache (digest sample_platform) (gunzip sample_platform) (read_file sample_platform) (cache_path sample_platform)
     = Some (Inr (c, h))"
proof -
  have "to_string 0 = ''0''" by code_simp
  moreover have "archive_count (new_index 0 (Suc 0)) [0 \<mapsto> open_stream [], Suc 0 \<mapsto> open_stream []] = 0"
    using archive_count_opened [of "[0 \<mapsto> open_stream [], Suc 0 \<mapsto> open_stream []]" "[]"] by simp
  ultimately show ?thesis
    by (simp add: Cache_def sample_platform_def Let_def open_indexes_unfold [of _ _ 0] open_indexes_unfold [of _ _ 1]
        open_index_def)
qed

lemma sample_platform_ok:
  "\<exists>c h. platform_ok sample_platform sample_env () () c h"
proof -
  have "\<exists>r. CreateModelTable Sqlite (database sample_env) () = (Inr r, ())"
    by (simp add: CreateModelTable_def run_def sample_env_def) (rule exI [of _ False], simp)
  then show ?thesis using sample_cache
    by (simp add: platform_ok_def) (simp add: sample_platform_def file_text_def starts_default_missing missing_not_overflow)
qed

theorem main_serves_witness:
  "\<exists>rt. main sample_platform sample_env () True sample_kernel (Inr 3) 4 [] = Some (Inr rt)
    \<and> worlds (served rt) = [(1, new_world)]"
proof -
  obtain c h where "platform_ok sample_platform sample_env () () c h" using sample_platform_ok by blast
  moreover have "ctl_ok sample_kernel Ctl_add 3" by (simp add: sample_kernel_def)
  ultimately obtain rt where "main sample_platform sample_env () True sample_kernel (Inr 3) 4 []
      = main_loop sample_env True [] rt" "worlds (served rt) = [(1, new_world)]"
    using main_serves [of sample_platform sample_env "()" "()" c h sample_kernel 3 4 "()" True "[]"] by auto
  then show ?thesis by simp
qed

end
