(* ===== verification/Returns.thy ===== *)
theory Returns
  imports Polls
begin

text \<open>
  A poll returns. The reads of a poll end, whatever the peers send, and leave the position of each
  input within it; the other callbacks have no loop but the write, which goes on for as long as
  the kernel asks for it to be tried again. A poll that does not return is held by a write.
\<close>

section \<open>The input of a session\<close>

definition in_bounds :: "buffer \<Rightarrow> bool" where
  "in_bounds b \<longleftrightarrow> position b \<le> buf_size b"

text \<open>What one more read adds still has a place in memory.\<close>

definition fits :: "buffer \<Rightarrow> bool" where
  "fits b \<longleftrightarrow> in_bounds b \<and> 2 * (buf_size b + kReadSize) < size_max"

lemma in_bounds_cleared [simp]: "in_bounds (clear_buffer b)" "in_bounds empty_buffer"
  by (simp_all add: in_bounds_def clear_buffer_def empty_buffer_def)

lemma input_ok_in_bounds: "input_ok b \<Longrightarrow> in_bounds b"
  by (simp add: input_ok_def buf_ok_def in_bounds_def)

lemma fits_put: "fits b \<Longrightarrow> length bs \<le> kReadSize \<Longrightarrow> input_ok (put_bytes bs b)"
  by (auto simp: fits_def in_bounds_def input_ok_def buf_ok_def kReadSize_def)

text \<open>A read that ends without an exception leaves its position within the input: the grab decoder
  alone can leave it, and the mode it is in keeps it, so that it reads there again and throws.\<close>

lemma grab_mode:
  "mode_ok (mode s) \<Longrightarrow> session_decoder s = Grab_decoder \<Longrightarrow> session_handler s = Grab_handler \<and> session_encoder s = Grab_encoder"
  by (cases "session_handler s") (auto simp: mode_def)

lemma read_loop_after_grab:
  assumes "session_heap sv k = Some s" "mode_ok (mode s)" "session_decoder s = Grab_decoder" "input_ok b"
    "Decode Grab_decoder b new_packet = Inr (True, p, b')" "Handle env p k sv = Inr sv'" "buf_size b < position b'"
  shows "\<exists>e. read_loop env k b' sv' = Some (Inl e)"
proof -
  have g: "session_handler s = Grab_handler" "session_encoder s = Grab_encoder" using grab_mode [OF assms(2,3)] by auto
  have at: "session_decoder (session_at sv k) = Grab_decoder" "session_handler (session_at sv k) = Grab_handler"
    using assms(1,3) g by (simp_all add: session_at_def)
  have ok: "buf_ok b" using assms(4) ..
  have six: "6 \<le> length (unread b)" "hd (unread b) \<le> 7" and b': "b' = seek Seek_cur (buf_size b) b"
    using assms(5) unfolding Decode.simps GrabDecoder_cases [OF ok] by (auto split: if_splits)
  have "position b \<noteq> 0"
    using assms(4,7) unfolding b' by (auto simp: size_add_def input_ok_def buf_ok_def)
  moreover have "remaining b \<noteq> 0" using remaining_unread [OF ok] six(1) by auto
  ultimately have "\<exists>e. read_loop env k b sv = Some (Inl e)"
    using grab_overrun [OF assms(1) _ assms(4) _ six] assms(3) g by (auto simp: mode_def)
  then show ?thesis using assms(5,6) at \<open>remaining b \<noteq> 0\<close> by (subst (asm) read_loop.simps) simp
qed

lemma read_loop_in_bounds:
  assumes "input_ok b" "session_heap sv k = Some s" "mode_ok (mode s)" "read_loop env k b sv = Some (Inr (fin, c, sv'))"
  shows "in_bounds c"
  using assms
proof (induction "buf_size b - position b" arbitrary: b sv s rule: less_induct)
  case less
  have at: "session_at sv k = s" using less.prems(2) by (simp add: session_at_def)
  have within: "position b \<le> buf_size b" using less.prems(1) by (simp add: input_ok_def buf_ok_def)
  show ?case
  proof (cases "remaining b = 0")
    case True
    then show ?thesis using less.prems(4) within by (subst (asm) read_loop.simps) (auto simp: in_bounds_def)
  next
    case False
    obtain ok p b' where d: "Decode (session_decoder s) b new_packet = Inr (ok, p, b')"
      using any_decoder.total [OF less.prems(1)] by blast
    have stays: "session_decoder s \<noteq> Grab_decoder \<Longrightarrow> input_ok b'" and same: "bytes b' = bytes b"
      using Decode_bounded [OF less.prems(1) d] any_decoder.keeps [OF less.prems(1) d] by auto
    show ?thesis
    proof (cases ok)
      case False
      then have c: "c = b'" using less.prems(4) d \<open>remaining b \<noteq> 0\<close> unfolding at
        by (subst (asm) read_loop.simps) (simp add: at)
      show ?thesis
      proof (cases "session_decoder s = Grab_decoder")
        case True
        then have "b' = b" using d False GrabDecoder_cases [OF input_ok_buf_ok [OF less.prems(1)]]
          by (auto split: if_splits)
        then show ?thesis using c within by (simp add: in_bounds_def)
      qed (use stays c in \<open>simp add: input_ok_in_bounds\<close>)
    next
      case True
      have "read_loop env k b sv = (case Handle env p k sv of Inl e \<Rightarrow> Some (Inl e) | Inr sv1 \<Rightarrow> read_loop env k b' sv1)"
        unfolding read_loop.simps [of env k b sv] using d True \<open>remaining b \<noteq> 0\<close> by (simp add: at)
      then obtain sv1 where h: "Handle env p k sv = Inr sv1" and rest: "read_loop env k b' sv1 = Some (Inr (fin, c, sv'))"
        using less.prems(4) by (cases "Handle env p k sv") simp_all
      have d: "Decode (session_decoder s) b new_packet = Inr (True, p, b')" using d True by simp
      have p: "position b < position b'" by (rule any_decoder.progress [OF less.prems(1) d])
      show ?thesis
      proof (cases "position b' \<le> buf_size b'")
        case True
        have "serves k moves sv sv1"
          using endsD [OF moves_Handle [OF less.prems(2)] h] Decode_world_login [OF d] by blast
        then have "rel_option moves (Some s) (session_heap sv1 k)"
          using less.prems(2) unfolding serves_def by (metis (full_types))
        then obtain t where t: "session_heap sv1 k = Some t" "moves s t" by (auto simp: option_rel_Some1)
        have "mode_ok (mode t)" using mode_ok_steps [of "mode s" "mode t"] t(2) less.prems(3) by (simp add: moves_def)
        moreover have "input_ok b'" using less.prems(1) True same by (simp add: input_ok_def buf_ok_def)
        ultimately show ?thesis using less.hyps [OF _ _ t(1) _ rest] True p same by simp
      next
        case False
        then have g: "session_decoder s = Grab_decoder" using stays by (auto simp: input_ok_def buf_ok_def)
        have "buf_size b < position b'" using False same by simp
        from read_loop_after_grab [OF less.prems(2,3) g less.prems(1) d [unfolded g] h this] rest show ?thesis by simp
      qed
    qed
  qed
qed

lemma Read_in_bounds:
  assumes "session_heap sv k = Some s" "fits (buffer_input s)" "mode_ok (mode s)"
    "Read env now rs k sv = Some (Inr (rs', sv'))"
  shows "in_bounds (buffer_input (session_at sv' k))"
proof -
  have at: "session_at sv k = s" using assms(1) by (simp add: session_at_def)
  obtain dat rs'' so where g: "getMessageData now kReadSize rs (socket s) = (dat, rs'', so)" by (metis surj_pair)
  let ?sv = "on_session k (socket_update (\<lambda>_. so)) sv"
  have sv: "session_heap ?sv k = Some (s\<lparr>socket := so\<rparr>)" using assms(1) by simp
  have ok: "in_bounds (buffer_input s)" using assms(2) by (simp add: fits_def)
  have keep: "in_bounds (buffer_input (session_at (on_session k f ?sv) k))" if "\<And>t. buffer_input (f t) = buffer_input t" for f
    using that ok assms(1) by (simp add: session_at_def)
  show ?thesis
  proof (cases "dat = None \<or> dat = Some []")
    case True
    then have "sv' = on_session k (set_status kDisconnected) ?sv"
      using assms(4) unfolding Read_def at g by (auto simp: Let_def)
    then show ?thesis using keep [of "set_status kDisconnected"] by (simp add: set_status_def)
  next
    case False
    then obtain x xs where dat: "dat = Some (x # xs)" by (cases dat) (auto simp: neq_Nil_conv)
    let ?b = "put_bytes (x # xs) (buffer_input s)"
    have "input_ok ?b" by (rule fits_put [OF assms(2)]) (use getMessageData_bound [of now kReadSize rs "socket s"] g dat in simp)
    note bounds = read_loop_in_bounds [OF this sv]
    obtain fin c sv1 where l: "read_loop env k ?b ?sv = Some (Inr (fin, c, sv1))"
      and r: "sv' = on_session k (if fin then buffer_input_update (\<lambda>_. clear_buffer c)
          \<circ> bytes_received_update (\<lambda>n. size_add n (length (x # xs))) else buffer_input_update (\<lambda>_. c)) sv1"
      using assms(4,1) unfolding Read_def at g dat
      by (auto simp: Let_def session_at_def split: option.splits sum.splits bool.splits)
    have "ends (\<lambda>(_, _, sv'). serves k moves ?sv sv') (Inr (fin, c, sv1))"
      by (rule read_loop_moves [OF l]) (simp add: assms(1))
    then have "serves k moves ?sv sv1" by simp
    from serves_alive [OF this, of k] have "session_heap sv1 k \<noteq> None" unfolding sv by simp
    then obtain t where "session_heap sv1 k = Some t" by blast
    moreover have "in_bounds c" by (rule bounds [OF _ l]) (use assms(3) in \<open>simp add: mode_def\<close>)
    ultimately show ?thesis using r by (simp add: session_at_def)
  qed
qed

section \<open>Inputs across callbacks\<close>

definition input_of :: "'db reactor \<Rightarrow> nat \<Rightarrow> buffer" where
  "input_of rt k = buffer_input (session_at (served rt) k)"

lemma input_said:
  assumes "serves k R sv sv'" "j \<noteq> k"
  shows "buffer_input (session_at sv' j) = buffer_input (session_at sv j)"
proof -
  have "rel_option said (session_heap sv j) (session_heap sv' j)"
    using assms unfolding serves_def by (metis (full_types))
  then show ?thesis
    by (cases "session_heap sv j"; cases "session_heap sv' j") (auto simp: session_at_def said_def)
qed

lemma input_same [simp]:
  "input_of (snd (UpdatePollEvent kn ev fd rt)) j = input_of rt j"
  "input_of (rt\<lparr>delivered := ds\<rparr>) j = input_of rt j"
  by (simp_all add: input_of_def)

lemma input_on_served: "input_of (on_served f rt) j = buffer_input (session_at (f (served rt)) j)"
  by (simp add: input_of_def on_served_def)

lemma do_read_input:
  assumes "table_ok rt" "(fd, k) \<in> set (sessions rt)" "fits (input_of rt k)" "do_read env kn k rt = Some (Inr rt')"
  shows "in_bounds (input_of rt' k) \<and> (\<forall>j. j \<noteq> k \<longrightarrow> input_of rt' j = input_of rt j)"
proof -
  obtain rs sv where r: "Read env (clock kn (descriptor_of k rt)) (incoming kn (descriptor_of k rt)) k (served rt)
      = Some (Inr (rs, sv))" "rt' = rt\<lparr>served := sv\<rparr>"
    using assms(4) by (auto simp: do_read_def Let_def elim!: bind_run_SomeE)
  obtain s where s: "session_heap (served rt) k = Some s" "mode_step\<^sup>*\<^sup>* new_mode (mode s)"
    using known_table [OF assms(1,2)] by (auto simp: known_def)
  have "fits (buffer_input s)" using assms(3) s(1) by (simp add: input_of_def session_at_def)
  from Read_in_bounds [OF s(1) this mode_ok_steps [OF s(2) mode_ok_new] r(1)]
  have "in_bounds (buffer_input (session_at sv k))" .
  moreover have "serves k proceeds (served rt) sv" using Read_proceeds [OF r(1)] s(1) by simp
  ultimately show ?thesis using input_said by (auto simp: input_of_def r(2))
qed

lemma Write_input: "Write now ws s = Some (Inr (sent, ws', t)) \<Longrightarrow> buffer_input t = buffer_input s"
  by (auto simp: Write_def split: sum.splits option.splits prod.splits)

lemma do_write_input:
  assumes "do_write kn k rt = Some (Inr rt')"
  shows "input_of rt' j = input_of rt j"
proof -
  obtain sent ws s where w: "Write (clock kn (descriptor_of k rt)) (outgoing kn (descriptor_of k rt)) (session_at (served rt) k)
      = Some (Inr (sent, ws, s))"
    and rt': "rt' = (let rt' = on_served (on_session k (\<lambda>_. s)) (rt\<lparr>delivered := delivered rt @ [(k, sent)]\<rparr>)
           in if HasOutput s then rt' else snd (UpdatePollEvent kn EPOLLIN (descriptor_of k rt) rt'))"
    using assms by (auto simp: do_write_def Let_def elim!: bind_run_SomeE)
  have "buffer_input (session_at (on_session k (\<lambda>_. s) (served rt)) j) = input_of rt j"
    using Write_input [OF w] by (cases "session_heap (served rt) j") (auto simp: input_of_def session_at_def on_session_def)
  then show ?thesis unfolding rt' Let_def by (simp add: input_on_served)
qed

lemma SessionDisconnect_input: "SessionDisconnect kn k rt = Inr rt' \<Longrightarrow> input_of rt' j = input_of rt j"
  by (auto simp: SessionDisconnect_def RemovePollEvent_def on_served_def input_of_def session_at_def Let_def bind_res_def
      split: if_splits sum.splits)

lemma DoAccept_input:
  assumes "DoAccept kn rt = Inr rt'"
  shows "in_bounds (input_of rt' (next_session rt)) \<and> (\<forall>j. j \<noteq> next_session rt \<longrightarrow> input_of rt' j = input_of rt j)
    \<or> rt' = rt"
proof -
  have new: "buffer_input (socket_update f (new_session now)) = empty_buffer" "buffer_input (new_session now) = empty_buffer" for f now
    by (simp_all add: new_session_def session_ops)
  show ?thesis
    using assms unfolding DoAccept_def AddPollEvent_def Let_def
    by (auto simp: bind_res_def on_served_def input_of_def session_at_def on_session_def new split: if_splits sum.splits)
qed

section \<open>A write that is held\<close>

text \<open>The kernel asks for another try, again and again, and does not take all of the output.\<close>

fun retried :: "write_result \<Rightarrow> bool" where
  "retried (Wrote put) = True"
| "retried (Write_failed e) = (write_fault e = None)"

fun taken :: "write_result \<Rightarrow> nat" where
  "taken (Wrote put) = put"
| "taken (Write_failed e) = 0"

lemma write_data_None:
  "write_data dat n sent ws = None \<longleftrightarrow> list_all retried ws \<and> n + sum_list (map taken ws) < length dat"
proof (induction ws arbitrary: n sent)
  case Nil
  then show ?case by (subst write_data.simps) simp
next
  case (Cons w ws)
  note step = write_data.simps [of dat n sent "w # ws"]
  show ?case
  proof (cases w)
    case (Wrote put)
    have "n + min (length dat - n) put + m < length dat \<longleftrightarrow> n + put + m < length dat" if "n < length dat" for m
      using that by linarith
    then show ?thesis unfolding step using Wrote by (simp add: Cons.IH add.assoc)
  next
    case (Write_failed e)
    then show ?thesis unfolding step by (cases "write_fault e") (auto simp: Cons.IH)
  qed
qed

definition held :: "kernel \<Rightarrow> nat \<Rightarrow> 'db reactor \<Rightarrow> bool" where
  "held kn k rt \<longleftrightarrow> (\<exists>out. clear_old_data (buffer_output (session_at (served rt) k)) = Inr out
     \<and> list_all retried (outgoing kn (descriptor_of k rt))
     \<and> sum_list (map taken (outgoing kn (descriptor_of k rt))) < buf_size out)"

lemma do_write_None: "do_write kn k rt = None \<Longrightarrow> held kn k rt"
  by (auto simp: do_write_def Let_def bind_run_def Write_def putMessageData_def write_data_None held_def
      split: option.splits sum.splits)

lemma do_read_total:
  assumes "table_ok rt" "(fd, k) \<in> set (sessions rt)" "fits (input_of rt k)"
  shows "do_read env kn k rt \<noteq> None"
proof -
  have "session_heap (served rt) k \<noteq> None" using known_table [OF assms(1,2)] by (auto simp: known_def)
  then have "Read env now rs k (served rt) \<noteq> None" for now rs
    using assms(3) by (intro Read_total) (simp_all add: fits_def in_bounds_def input_of_def)
  then show ?thesis by (auto simp: do_read_def Let_def bind_run_def split: option.splits sum.splits)
qed

section \<open>One callback\<close>

definition reads :: "'db env \<Rightarrow> kernel \<Rightarrow> poll_mask \<Rightarrow> nat \<Rightarrow> 'db reactor \<Rightarrow> 'db reactor res option" where
  "reads env kn ev k rt = (if fst ev then do_read env kn k rt else Some (Inr rt))"

lemma reads_input:
  assumes "table_ok rt" "(fd, k) \<in> set (sessions rt)" "fits (input_of rt k)" "reads env kn ev k rt = Some (Inr rt')"
  shows "in_bounds (input_of rt' k) \<and> (\<forall>j. j \<noteq> k \<longrightarrow> input_of rt' j = input_of rt j)"
  using do_read_input [OF assms(1-3)] assms(3,4) by (auto simp: reads_def fits_def split: if_splits)

lemma DoReadWrite_input:
  assumes "table_ok rt" "(fd, k) \<in> set (sessions rt)" "fits (input_of rt k)" "DoReadWrite env kn ev k rt = Some (Inr rt')"
  shows "in_bounds (input_of rt' k) \<and> (\<forall>j. j \<noteq> k \<longrightarrow> input_of rt' j = input_of rt j)"
proof -
  obtain rt1 where r: "reads env kn ev k rt = Some (Inr rt1)"
    and wr: "bind_run (if snd ev then do_write kn k rt1 else Some (Inr rt1)) (\<lambda>rt.
       let s = session_at (served rt) k
       in if status s = kDisconnected then Some (SessionDisconnect kn k rt)
          else if HasOutput s then Some (Inr (snd (UpdatePollEvent kn EPOLLIN_OUT (descriptor_of k rt) rt)))
          else Some (Inr rt)) = Some (Inr rt')"
    using assms(4) unfolding DoReadWrite_def reads_def by (rule bind_run_SomeE)
  obtain rt2 where w: "(if snd ev then do_write kn k rt1 else Some (Inr rt1)) = Some (Inr rt2)"
    and end': "(let s = session_at (served rt2) k
       in if status s = kDisconnected then Some (SessionDisconnect kn k rt2)
          else if HasOutput s then Some (Inr (snd (UpdatePollEvent kn EPOLLIN_OUT (descriptor_of k rt2) rt2)))
          else Some (Inr rt2)) = Some (Inr rt')"
    using wr by (rule bind_run_SomeE)
  have "input_of rt2 j = input_of rt1 j" for j using w do_write_input by (auto split: if_splits)
  moreover have "input_of rt' j = input_of rt2 j" for j
    using end' SessionDisconnect_input by (auto simp: Let_def split: if_splits)
  ultimately show ?thesis using reads_input [OF assms(1-3) r] by simp
qed

lemma DoReadWrite_None:
  assumes "table_ok rt" "(fd, k) \<in> set (sessions rt)" "fits (input_of rt k)" "DoReadWrite env kn ev k rt = None"
  shows "\<exists>rt'. reads env kn ev k rt = Some (Inr rt') \<and> snd ev \<and> held kn k rt'"
proof -
  have "reads env kn ev k rt \<noteq> None" using do_read_total [OF assms(1-3)] by (simp add: reads_def)
  then obtain rt' where r: "reads env kn ev k rt = Some (Inr rt')"
    using assms(4) unfolding DoReadWrite_def reads_def [symmetric] by (auto simp: bind_run_def split: sum.splits)
  have "snd ev \<and> do_write kn k rt' = None"
    using assms(4) unfolding DoReadWrite_def reads_def [symmetric] r bind_run_simps
    by (auto simp: bind_run_def Let_def split: option.splits sum.splits if_splits)
  then show ?thesis using r do_write_None by blast
qed

section \<open>All callbacks of a poll\<close>

text \<open>The inputs of all sessions are within bounds, and those with an event to come have a place for it.\<close>

definition inputs_ok :: "(int \<times> poll_mask) list \<Rightarrow> 'db reactor \<Rightarrow> bool" where
  "inputs_ok evs rt \<longleftrightarrow> list_all (\<lambda>(fd, k). in_bounds (input_of rt k)
     \<and> (fd \<in> fst ` set evs \<longrightarrow> fits (input_of rt k))) (sessions rt)"

lemma inputs_okI:
  "(\<And>fd k. (fd, k) \<in> set (sessions rt) \<Longrightarrow> in_bounds (input_of rt k) \<and> (fd \<in> fst ` set evs \<longrightarrow> fits (input_of rt k)))
    \<Longrightarrow> inputs_ok evs rt"
  by (auto simp: inputs_ok_def list_all_iff)

lemma inputs_okD:
  assumes "inputs_ok evs rt" "(fd, k) \<in> set (sessions rt)"
  shows "in_bounds (input_of rt k)" "fd \<in> fst ` set evs \<Longrightarrow> fits (input_of rt k)"
  using assms by (auto simp: inputs_ok_def list_all_iff)

lemma DoAccept_sessions:
  "DoAccept kn rt = Inr rt1 \<Longrightarrow> (fd, k) \<in> set (sessions rt1) \<Longrightarrow> (fd, k) \<in> set (sessions rt) \<or> k = next_session rt"
  by (auto simp: DoAccept_def AddPollEvent_def Let_def bind_res_def on_served_def split: if_splits sum.splits)

lemma accept_inputs:
  assumes "due kn m ((listener rt, ev) # evs) rt" "inputs_ok ((listener rt, ev) # evs) rt" "DoAccept kn rt = Inr rt1"
  shows "inputs_ok evs rt1"
proof (rule inputs_okI)
  fix fd k assume e: "(fd, k) \<in> set (sessions rt1)"
  have table: "table_ok rt" "table_ok rt1" by (rule dueD(4) [OF assms(1)], rule dueD(4) [OF accept_due [OF assms(1,3)]])
  have alive: "j < next_session rt" if "(fd', j) \<in> set (sessions rt)" for fd' j
    using known_table [OF table(1) that] table_okD(5) [OF table(1)] by (auto simp: known_def)
  show "in_bounds (input_of rt1 k) \<and> (fd \<in> fst ` set evs \<longrightarrow> fits (input_of rt1 k))"
  proof (cases "k = next_session rt")
    case True
    have new: "\<not> (\<exists>j. (fd, j) \<in> set (sessions rt))"
    proof
      assume "\<exists>j. (fd, j) \<in> set (sessions rt)"
      then obtain j where j: "(fd, j) \<in> set (sessions rt)" ..
      have "polled rt fd = None" if "accepted kn = Inl fd" for fd using dueD(6) [OF assms(1)] that by simp
      from DoAccept_ok [OF dueD(3) [OF assms(1)] this assms(3)] have "(fd, j) \<in> set (sessions rt1)" using j by blast
      then have "j = k" using table_entry_unique [OF table(2) _ e] by simp
      then show False using alive [OF j] True by simp
    qed
    have "fd \<notin> fst ` set evs"
    proof
      assume f: "fd \<in> fst ` set evs"
      then have "event_of m rt fd" using dueD(2) [OF assms(1), of fd] by simp
      then have "fd = listener rt" using new by (auto simp: event_of_def)
      then show False using f dueD(1) [OF assms(1)] by simp
    qed
    moreover have "rt1 \<noteq> rt" using e new by auto
    ultimately show ?thesis using DoAccept_input [OF assms(3)] True by simp
  next
    case False
    then have "(fd, k) \<in> set (sessions rt)" using DoAccept_sessions [OF assms(3) e] by simp
    from inputs_okD [OF assms(2) this] show ?thesis using DoAccept_input [OF assms(3)] False by (elim disjE) simp_all
  qed
qed

lemma read_write_inputs:
  assumes "due kn m ((fd, ev) # evs) rt" "inputs_ok ((fd, ev) # evs) rt" "(fd, k) \<in> set (sessions rt)"
    "DoReadWrite env kn ev k rt = Some (Inr rt1)"
  shows "inputs_ok evs rt1"
proof (rule inputs_okI)
  fix fd' j assume "(fd', j) \<in> set (sessions rt1)"
  have table: "table_ok rt" by (rule dueD(4) [OF assms(1)])
  have "polled rt fd \<noteq> None" using table_polled [OF table, of fd] assms(3) by force
  then have "ctl_ok kn Ctl_del fd" using dueD(5) [OF assms(1)] by (simp add: removable_def)
  from DoReadWrite_ok [OF dueD(3) [OF assms(1)] assms(3) this assms(4)]
  have e: "(fd', j) \<in> set (sessions rt)" using \<open>(fd', j) \<in> set (sessions rt1)\<close> by blast
  have "fits (input_of rt k)" using inputs_okD(2) [OF assms(2,3)] by simp
  note io = DoReadWrite_input [OF table assms(3) this assms(4)]
  show "in_bounds (input_of rt1 j) \<and> (fd' \<in> fst ` set evs \<longrightarrow> fits (input_of rt1 j))"
  proof (cases "j = k")
    case True
    then have "fd' = fd" using table_session_unique [OF table, of fd' k fd] e assms(3) by simp
    then show ?thesis using io True dueD(1) [OF assms(1)] by auto
  next
    case False
    then show ?thesis using io inputs_okD [OF assms(2) e] by simp
  qed
qed

text \<open>A run of callbacks that comes to a write that is held.\<close>

definition comes_to_held :: "'db env \<Rightarrow> kernel \<Rightarrow> (channel \<times> poll_mask) list \<Rightarrow> 'db reactor \<Rightarrow> bool" where
  "comes_to_held env kn cs rt \<longleftrightarrow> (\<exists>cs1 k ev cs2 rt1 rt2. cs = cs1 @ (Client_channel k, ev) # cs2
     \<and> run_callbacks env kn cs1 rt = Some (Inr rt1) \<and> reads env kn ev k rt1 = Some (Inr rt2)
     \<and> snd ev \<and> held kn k rt2)"

lemma comes_to_held_here:
  "reads env kn ev k rt = Some (Inr rt2) \<Longrightarrow> snd ev \<Longrightarrow> held kn k rt2 \<Longrightarrow> comes_to_held env kn ((Client_channel k, ev) # cs) rt"
  unfolding comes_to_held_def by (rule exI [of _ "[]"]) auto

lemma comes_to_held_later:
  assumes "comes_to_held env kn cs rt1" "run_callbacks env kn [c] rt = Some (Inr rt1)"
  shows "comes_to_held env kn (c # cs) rt"
proof -
  obtain cs1 k ev cs2 rt' rt2 where h: "cs = cs1 @ (Client_channel k, ev) # cs2"
    "run_callbacks env kn cs1 rt1 = Some (Inr rt')" "reads env kn ev k rt' = Some (Inr rt2)" "snd ev" "held kn k rt2"
    using assms(1) unfolding comes_to_held_def by blast
  have "run_callbacks env kn (c # cs1) rt = Some (Inr rt')"
    using assms(2) h(2) by (cases c) (auto elim!: bind_run_SomeE)
  then show ?thesis using h unfolding comes_to_held_def by (intro exI [of _ "c # cs1"]) auto
qed

definition callbacks_return :: "'db env \<Rightarrow> kernel \<Rightarrow> (channel \<times> poll_mask) list \<Rightarrow> 'db reactor \<Rightarrow> bool" where
  "callbacks_return env kn cs rt \<longleftrightarrow> (case run_callbacks env kn cs rt of
     None \<Rightarrow> comes_to_held env kn cs rt
   | Some r \<Rightarrow> ends (inputs_ok []) r)"

lemma callbacks_return_step:
  assumes "run_callbacks env kn [c] rt = Some (Inr rt1)" "callbacks_return env kn cs rt1"
  shows "callbacks_return env kn (c # cs) rt"
proof -
  have "run_callbacks env kn (c # cs) rt = run_callbacks env kn cs rt1"
    using assms(1) by (cases c) (auto elim!: bind_run_SomeE)
  then show ?thesis
    using assms comes_to_held_later [OF _ assms(1), of cs] by (auto simp: callbacks_return_def split: option.splits)
qed

lemma run_callbacks_return:
  "due kn m evs rt \<Longrightarrow> inputs_ok evs rt \<Longrightarrow> channels_of evs m = Inr cs \<Longrightarrow> callbacks_return env kn cs rt"
proof (induction evs arbitrary: cs rt)
  case Nil
  then show ?case by (simp add: callbacks_return_def)
next
  case (Cons e evs)
  obtain fd ev where e: "e = (fd, ev)" by (cases e)
  note d = Cons.prems(1) [unfolded e] and i = Cons.prems(2) [unfolded e]
  show ?case
    using d Cons.prems(3) [unfolded e]
  proof (cases rule: due_cases)
    case (1 cs')
    show ?thesis
    proof (cases "DoAccept kn rt")
      case (Inr rt1)
      have "callbacks_return env kn cs' rt1"
        by (rule Cons.IH [OF accept_due [OF d [unfolded 1(3)] Inr] accept_inputs [OF d [unfolded 1(3)] i [unfolded 1(3)] Inr] 1(1)])
      then show ?thesis unfolding 1(2) by (rule callbacks_return_step [rotated]) (simp add: Inr)
    qed (simp add: 1(2) callbacks_return_def)
  next
    case (2 k cs')
    have "fits (input_of rt k)" using inputs_okD(2) [OF i 2(3)] by simp
    note none = DoReadWrite_None [OF dueD(4) [OF d] 2(3) this, of env kn ev]
    show ?thesis
    proof (cases "DoReadWrite env kn ev k rt")
      case None
      then show ?thesis
        using none comes_to_held_here [of env kn ev k rt _ cs'] by (auto simp: 2(2) callbacks_return_def)
    next
      case (Some r)
      show ?thesis
      proof (cases r)
        case (Inr rt1)
        note s = Some [unfolded Inr]
        have "callbacks_return env kn cs' rt1"
          by (rule Cons.IH [OF read_write_due [OF d 2(3) s] read_write_inputs [OF d i 2(3) s] 2(1)])
        then show ?thesis unfolding 2(2) by (rule callbacks_return_step [rotated]) (simp add: s)
      qed (simp add: 2(2) Some callbacks_return_def)
    qed
  qed
qed

section \<open>A whole poll\<close>

lemma disconnect_all_inputs:
  "disconnect_all kn ks rt = Inr rt' \<Longrightarrow> input_of rt' j = input_of rt j \<and> set (sessions rt') \<subseteq> set (sessions rt)"
proof (induction ks arbitrary: rt)
  case (Cons k ks)
  obtain rt1 where r: "SessionDisconnect kn k rt = Inr rt1" "disconnect_all kn ks rt1 = Inr rt'"
    using Cons.prems by (cases "SessionDisconnect kn k rt") auto
  have "set (sessions rt1) \<subseteq> set (sessions rt)"
    using r(1) by (auto simp: SessionDisconnect_def RemovePollEvent_def on_served_def Let_def bind_res_def split: if_splits)
  then show ?case using Cons.IH [OF r(2)] SessionDisconnect_input [OF r(1)] by auto
qed simp

lemma check_timeouts_inputs:
  assumes "check_timeouts ndebug kn rt = Inr rt'"
  shows "input_of rt' j = input_of rt j \<and> set (sessions rt') \<subseteq> set (sessions rt)"
proof -
  let ?late = "timed_out ndebug kn rt"
  have "input_of (on_served (fold (\<lambda>k. on_session k (set_status kDisconnected)) ?late) rt) j = input_of rt j"
    unfolding input_on_served unfolding input_of_def session_at_def marked_heap
    by (cases "session_heap (served rt) j") (simp_all add: set_status_def)
  then show ?thesis
    using disconnect_all_inputs [of kn ?late] assms by (fastforce simp: check_timeouts_def Let_def on_served_def)
qed

text \<open>Property C7. A poll returns, unless one of its writes is held: the kernel asks for the write to be
  tried again without end, so that one peer that does not read holds the whole server. Whatever
  the peers send does not hold it, as long as their input has a place in memory; and when the
  poll has returned, every position is within its input again.\<close>

theorem Poll_returns:
  assumes "reachable env ndebug rt" "kernel_ok kn rt" "list_all (\<lambda>(fd, k). fits (input_of rt k)) (sessions rt)"
  shows "case Poll env ndebug kn rt of
      None \<Rightarrow> \<exists>cs. Wait kn rt = Inr cs \<and> comes_to_held env kn cs rt
    | Some (Inl e) \<Rightarrow> True
    | Some (Inr rt') \<Rightarrow> list_all (\<lambda>(fd, k). in_bounds (input_of rt' k)) (sessions rt')"
proof -
  have ok: "reactor_ok rt" by (rule reachable_ok [OF assms(1)])
  have due: "due kn (channel_map rt) (take kMaxEvents (ready kn)) rt" by (rule poll_due [OF ok assms(2)])
  obtain cs where cs: "Wait kn rt = Inr cs" using Wait_ok [OF ok assms(2)] ..
  have "inputs_ok (take kMaxEvents (ready kn)) rt"
    using assms(3) by (intro inputs_okI) (auto simp: list_all_iff fits_def)
  from run_callbacks_return [OF due this cs [unfolded Wait_def]]
  have run: "callbacks_return env kn cs rt" .
  show ?thesis
  proof (cases "Poll env ndebug kn rt")
    case None
    then have "run_callbacks env kn cs rt = None"
      unfolding Poll_def cs bind_run_simps by (auto simp: bind_run_def split: option.splits sum.splits)
    then show ?thesis using run cs None by (simp add: callbacks_return_def)
  next
    case (Some r)
    have "list_all (\<lambda>(fd, k). in_bounds (input_of rt' k)) (sessions rt')" if r: "r = Inr rt'" for rt'
    proof -
      obtain rt1 where r1: "run_callbacks env kn cs rt = Some (Inr rt1)"
        and rest: "bind_run (Some (check_timeouts ndebug kn rt1)) (\<lambda>rt. Some (Inr (release rt))) = Some (Inr rt')"
        using Some r unfolding Poll_def cs bind_run_simps by (auto elim: bind_run_SomeE)
      obtain rt2 where r2: "check_timeouts ndebug kn rt1 = Inr rt2" "rt' = release rt2"
        using rest by (cases "check_timeouts ndebug kn rt1") auto
      have "inputs_ok [] rt1" using run r1 by (simp add: callbacks_return_def)
      have "in_bounds (input_of rt' k)" if "(fd, k) \<in> set (sessions rt')" for fd k
      proof -
        have e: "(fd, k) \<in> set (sessions rt2)" using that by (simp add: r2(2) release_def on_served_def)
        then have "input_of rt' k = input_of rt2 k"
          by (force simp: r2(2) release_def on_served_def input_of_def session_at_def)
        then show ?thesis
          using check_timeouts_inputs [OF r2(1), of k] inputs_okD(1) [OF \<open>inputs_ok [] rt1\<close>, of fd k] e by auto
      qed
      then show ?thesis by (auto simp: list_all_iff)
    qed
    then show ?thesis using Some by (cases r) auto
  qed
qed

text \<open>The first poll of a server, which accepts a client.\<close>

theorem Poll_returns_witness:
  "case Poll sample_env True sample_kernel sample_reactor of
      Some (Inr rt) \<Rightarrow> list_all (\<lambda>(fd, k). in_bounds (input_of rt k)) (sessions rt) | _ \<Rightarrow> False"
proof -
  have "list_all (\<lambda>(fd, k). fits (input_of sample_reactor k)) (sessions sample_reactor)"
    by (simp add: sample_reactor_def new_reactor_def)
  from Poll_returns [OF sample_reachable sample_kernel_ok this] sample_poll show ?thesis by auto
qed

end
