(* ===== verification/Grabs.thy ===== *)
theory Grabs
  imports Handlers
begin

text \<open>
  The answers to requests for the cache (\<open>grabpackethandler.cpp\<close>): the bytes of a container go out
  in blocks of 512, and every block but the first begins with a marker.
\<close>

section \<open>Blocks\<close>

text \<open>What the loop appends to \<open>k\<close> bytes that are there already.\<close>

fun chunked :: "nat \<Rightarrow> u8 list \<Rightarrow> u8 list" where
  "chunked k [] = []"
| "chunked k (x # xs) = (if k mod 512 = 0 then 255 # x # chunked (k + 2) xs else x # chunked (k + 1) xs)"

lemma unread_nth:
  "buf_ok d \<Longrightarrow> unread d = x # xs \<Longrightarrow> if_get_u8 d no yes = yes x (advance 1 d) \<and> buf_ok (advance 1 d) \<and> unread (advance 1 d) = xs"
  using if_get_u8_at [of d x xs no yes] at_bytes_advance [of d "[x]" xs 1]
  by (simp add: at_bytes_def del: unread_advanced)

lemma copy_chunks_enough:
  "buf_ok d \<Longrightarrow> n \<le> length (unread d) \<Longrightarrow>
     copy_chunks n d out = Inr (True, put_bytes (chunked (buf_size out) (take n (unread d))) out)"
proof (induction n arbitrary: d out)
  case (Suc n)
  then obtain x xs where u: "unread d = x # xs" by (cases "unread d") auto
  have step: "if_get_u8 d (Inr (False, out)) yes = yes x (advance 1 d)"
    "buf_ok (advance 1 d)" "unread (advance 1 d) = xs" for yes :: "u8 \<Rightarrow> buffer \<Rightarrow> (bool \<times> buffer) res"
    using unread_nth [OF Suc.prems(1) u] by auto
  have IH: "copy_chunks n (advance 1 d) o' = Inr (True, put_bytes (chunked (buf_size o') (take n xs)) o')" for o'
    using Suc.IH [OF step(2)] Suc.prems(2) u unfolding step(3) by simp
  show ?case unfolding copy_chunks.simps step(1) IH u by simp
qed simp

lemma copy_chunks_short:
  "buf_ok d \<Longrightarrow> length (unread d) < n \<Longrightarrow> \<exists>out'. copy_chunks n d out = Inr (False, out')"
proof (induction n arbitrary: d out)
  case (Suc n)
  show ?case
  proof (cases "unread d")
    case Nil
    then have "at_bytes d []" using Suc.prems(1) by (simp add: at_bytes_def)
    then show ?thesis by (simp add: if_get_u8_def if_get_short)
  next
    case (Cons x xs)
    then have step: "if_get_u8 d (Inr (False, out)) yes = yes x (advance 1 d)"
      "buf_ok (advance 1 d)" "unread (advance 1 d) = xs" for yes :: "u8 \<Rightarrow> buffer \<Rightarrow> (bool \<times> buffer) res"
      using unread_nth [OF Suc.prems(1) Cons] by auto
    show ?thesis unfolding copy_chunks.simps step(1)
      by (rule Suc.IH [OF step(2)]) (use Suc.prems(2) Cons step(3) in simp)
  qed
qed simp

section \<open>Taking the blocks apart\<close>

text \<open>The bytes that are not at the start of a block, from the second block on; and that there are
  only markers there.\<close>

definition unframe :: "u8 list \<Rightarrow> u8 list" where
  "unframe bs = map snd (filter (\<lambda>(i, _). i = 0 \<or> i mod 512 \<noteq> 0) (enumerate 0 bs))"

definition framed :: "u8 list \<Rightarrow> bool" where
  "framed bs \<longleftrightarrow> (\<forall>i < length bs. i \<noteq> 0 \<and> i mod 512 = 0 \<longrightarrow> bs ! i = 255)"

lemma unframe_chunked:
  "0 < k \<Longrightarrow> map snd (filter (\<lambda>(i, _). i = 0 \<or> i mod 512 \<noteq> 0) (enumerate k (chunked k xs))) = xs"
  by (induction k xs rule: chunked.induct) (auto simp: mod_Suc)

lemma marked_chunked:
  "0 < k \<Longrightarrow> i < length (chunked k xs) \<Longrightarrow> (k + i) mod 512 = 0 \<Longrightarrow> chunked k xs ! i = 255"
proof (induction k xs arbitrary: i rule: chunked.induct)
  case (2 k x xs)
  note IH = 2(1,2) and bound = 2(4) and at = 2(5)
  show ?case
  proof (cases "k mod 512 = 0")
    case True
    have "(k + 1) mod 512 = 1" by (simp only: mod_add_left_eq [of k 512 1, symmetric] True) simp
    then have "i \<noteq> 1" using at by auto
    then consider "i = 0" | j where "i = Suc (Suc j)" by (metis One_nat_def not0_implies_Suc)
    then show ?thesis
    proof cases
      case 2
      have "j < length (chunked (k + 2) xs)" using bound True unfolding 2 by simp
      moreover have "(k + 2 + j) mod 512 = 0" using at unfolding 2 by (simp only: add_Suc_right add_2_eq_Suc' add_Suc)
      ultimately have "chunked (k + 2) xs ! j = 255" using IH(1) [OF True] by auto
      then show ?thesis using True 2 by (simp only: chunked.simps if_True) simp
    qed (use True in simp)
  next
    case False
    then have "i \<noteq> 0" using 2(5) by (cases i) auto
    then show ?thesis using False 2(2) [OF False, of "i - 1"] 2(3,4,5) by (cases i) auto
  qed
qed simp

lemma unframe_append:
  assumes "length hs < 512" "hs \<noteq> []"
  shows "unframe (hs @ chunked (length hs) xs) = hs @ xs" "framed (hs @ chunked (length hs) xs)"
proof -
  have "filter (\<lambda>(i, _). i = 0 \<or> i mod 512 \<noteq> 0) (enumerate 0 hs) = enumerate 0 hs"
    using assms(1) by (auto simp: filter_id_conv in_set_enumerate_eq)
  then show "unframe (hs @ chunked (length hs) xs) = hs @ xs"
    using unframe_chunked [of "length hs" xs] assms(2) by (simp add: unframe_def enumerate_append_eq)
  show "framed (hs @ chunked (length hs) xs)"
    using marked_chunked [of "length hs" _ xs] assms by (auto simp: framed_def nth_append)
qed

section \<open>Replies\<close>

text \<open>How many bytes follow the header of a container: four more when it is compressed.\<close>

definition container_rest :: "u8 \<Rightarrow> u32 \<Rightarrow> nat" where
  "container_rest compr len = unat (if compr \<noteq> 0 then len + 4 else len)"

text \<open>The reply byte for byte: the header, then the rest of the container in blocks.\<close>

definition reply_head :: "bool \<Rightarrow> u8 \<Rightarrow> u32 \<Rightarrow> u8 \<Rightarrow> u32 \<Rightarrow> u8 list" where
  "reply_head priority i a compr len =
     [i] @ host_bytes a @ [if priority then compr else compr OR 0x80] @ be_bytes len"

lemma reply_head_length [simp]: "length (reply_head priority i a compr len) = 10"
  by (simp add: reply_head_def)

lemma archive_reply_bytes:
  assumes "length body + 128 < size_max"
  shows "archive_reply priority i a (compr # be_bytes (len :: u32) @ body) =
    (if container_rest compr len \<le> length body
     then Inr (Some \<lparr>bytes = reply_head priority i a compr len @ chunked 10 (take (container_rest compr len) body),
       position = 0\<rparr>)
     else Inr None)"
proof -
  let ?d = "buf_of (compr # be_bytes len @ body)"
  let ?settings = "if priority then compr else compr OR 0x80"
  let ?head = "reply_head priority i a compr len"
  let ?out = "\<lparr>bytes = ?head, position = 0\<rparr>" and ?n = "container_rest compr len"
  have d: "at_bytes ?d (compr # be_bytes len @ body)"
    by (rule at_bytes_buf_of) (use assms in simp)
  have d1: "at_bytes (advance 1 ?d) (be_bytes len @ body)"
    using at_bytes_advance [of ?d "[compr]" "be_bytes len @ body" 1] d by simp
  have d2: "at_bytes (advance 5 ?d) body"
    using at_bytes_advance [OF d1, of 4] by simp
  have u: "buf_ok (advance 5 ?d)" "unread (advance 5 ?d) = body" using d2 by (simp_all only: at_bytes_def)
  have out: "put_data_le (htobe len) (put_data_le ?settings (put_data_le a (put_data_le i empty_buffer))) = ?out"
    by (simp add: put_data_le_put_bytes host_bytes_htobe be_bytes_def empty_buffer_def put_bytes_def reply_head_def)
  have rest: "unat (if compr \<noteq> 0 then betoh (htobe len) + 4 else betoh (htobe len)) = ?n"
    by (simp add: container_rest_def)
  have reply: "archive_reply priority i a (compr # be_bytes len @ body)
      = bind_res (copy_chunks ?n (advance 5 ?d) ?out) (\<lambda>(ok, out). Inr (if ok then Some out else None))"
    unfolding archive_reply_def if_get_u8_at [OF d] if_get_u32_at [OF d1] Let_def out rest by simp
  show ?thesis
  proof (cases "?n \<le> length body")
    case True
    have "copy_chunks ?n (advance 5 ?d) ?out = Inr (True, put_bytes (chunked 10 (take ?n body)) ?out)"
      using copy_chunks_enough [OF u(1), of ?n ?out] True unfolding u(2) by simp
    then show ?thesis unfolding reply using True by (simp add: put_bytes_def)
  next
    case False
    then obtain o' where "copy_chunks ?n (advance 5 ?d) ?out = Inr (False, o')"
      using copy_chunks_short [OF u(1), of ?n ?out] unfolding u(2) by auto
    then show ?thesis unfolding reply using False by simp
  qed
qed

lemma reply_unframed:
  "unframe (reply_head priority i a compr len @ chunked 10 xs) = reply_head priority i a compr len @ xs"
  "framed (reply_head priority i a compr len @ chunked 10 xs)"
  using unframe_append [of "reply_head priority i a compr len" xs] by (simp_all add: reply_head_def)

text \<open>Property C9. The answer to a request is a faithful copy: for a container that is as long as its
  header says, the answer without its block markers is the request's index and archive as they
  came, the compression byte, with its top bit set unless the request was urgent, the length and
  the data; markers stand at the multiples of 512 and nowhere else. A container that is cut short
  is not answered.\<close>

theorem archive_reply_framed:
  assumes "length body + 128 < size_max"
  shows "case archive_reply priority i a (compr # be_bytes (len :: u32) @ body) of
      Inr (Some out) \<Rightarrow> container_rest compr len \<le> length body \<and> framed (bytes out)
        \<and> unframe (bytes out) = [i] @ host_bytes a @ [if priority then compr else compr OR 0x80]
            @ be_bytes len @ take (container_rest compr len) body
    | Inr None \<Rightarrow> length body < container_rest compr len
    | Inl _ \<Rightarrow> False"
  using reply_unframed [of priority i a compr len "take (container_rest compr len) body"]
  by (simp add: archive_reply_bytes [OF assms] reply_head_def)

theorem archive_reply_framed_witness:
  "case archive_reply True 3 7 (0 # be_bytes (2 :: u32) @ [8, 9]) of
     Inr (Some out) \<Rightarrow> unframe (bytes out) = [3] @ host_bytes (7 :: u32) @ [0, 0, 0, 0, 2, 8, 9] | _ \<Rightarrow> False"
proof -
  have "be_bytes (2 :: u32) = [0, 0, 0, 2]" by (simp add: be_bytes_def host_bytes_def)
  then show ?thesis
    using archive_reply_framed [where body = "[8, 9]" and priority = True and i = 3 and a = 7 and compr = 0 and len = 2]
    by (simp add: size_max_def container_rest_def split: sum.splits option.splits)
qed

end
