(* ===== verification/Downloads.thy ===== *)
theory Downloads
  imports Reads Grabs
begin

text \<open>
  The download of the cache as a whole: from the bytes of the requests a client sends, through the
  decoder, the handler, the chains of blocks in the cache files and the encoder, to the bytes
  queued for it.
\<close>

section \<open>Archives and requests\<close>

text \<open>The cache has the archive: the index is known, and the files hold its data as a chain.\<close>

definition stored_archive :: "cache \<Rightarrow> streams \<Rightarrow> u8 \<Rightarrow> u32 \<Rightarrow> u8 list \<Rightarrow> bool" where
  "stored_archive c h i a dat \<longleftrightarrow> (\<exists>ix ki kd istr ds bs.
     (if i = 255 then ix = main_index c else GetStore c (ucast i) = Inr ix)
     \<and> index_stream ix = Some ki \<and> data_stream ix = Some kd \<and> h ki = Some istr \<and> h kd = Some ds
     \<and> \<not> bad istr \<and> \<not> bad ds \<and> bs \<noteq> [] \<and> stored_chain (content ds) a 0 bs dat
     \<and> take 6 (drop (6 * unat a) (content istr)) = be24 (of_nat (length dat)) @ be24 (hd bs)
     \<and> unat a < 2 ^ 24 \<and> length dat < 2 ^ 24 \<and> unat (hd bs) < 2 ^ 24
     \<and> unat (hd bs) \<le> length (content ds) div 520 \<and> length (content ds) div 520 < 2 ^ 32)"

text \<open>A request: whether it is urgent, the index and the archive.\<close>

type_synonym request = "bool \<times> u8 \<times> u32"

fun request_bytes :: "request \<Rightarrow> u8 list" where
  "request_bytes (urgent, i, a) = [if urgent then 1 else 0, i] @ be_bytes a"

text \<open>A request for an archive that is there as a complete container. (Archive 255 of index 255 is
  the table of checksums.)\<close>

fun available :: "cache \<Rightarrow> streams \<Rightarrow> request \<Rightarrow> bool" where
  "available c h (urgent, i, a) \<longleftrightarrow> \<not> (i = 255 \<and> a = 255) \<and>
     (\<exists>compr len body. stored_archive c h i a (compr # be_bytes len @ body)
        \<and> container_rest compr len \<le> length body)"

text \<open>The right answer: without its markers it is the container under the name that was asked for.\<close>

fun answers :: "cache \<Rightarrow> streams \<Rightarrow> request \<Rightarrow> u8 list \<Rightarrow> bool" where
  "answers c h (urgent, i, a) out \<longleftrightarrow>
     (\<exists>compr len body. stored_archive c h i a (compr # be_bytes len @ body) \<and> framed out
        \<and> unframe out = [i] @ be_bytes a @ [if urgent then compr else compr OR 0x80] @ be_bytes len
            @ take (container_rest compr len) body)"

lemma stored_archive_same_files:
  assumes "same_files h h'" "stored_archive c h i a dat"
  shows "stored_archive c h' i a dat"
proof -
  have f: "\<exists>t. h' k = Some t \<and> content t = content s \<and> bad t = bad s" if "h k = Some s" for k s
  proof -
    have "map_option file_of (h' k) = Some (file_of s)" using assms(1) that unfolding same_files_def by (metis option.simps(9))
    then show ?thesis by (auto simp: file_of_def)
  qed
  obtain ix ki kd istr ds bs where a: "if i = 255 then ix = main_index c else GetStore c (ucast i) = Inr ix"
    "index_stream ix = Some ki" "data_stream ix = Some kd" "h ki = Some istr" "h kd = Some ds"
    and b: "\<not> bad istr \<and> \<not> bad ds \<and> bs \<noteq> [] \<and> stored_chain (content ds) a 0 bs dat
     \<and> take 6 (drop (6 * unat a) (content istr)) = be24 (of_nat (length dat)) @ be24 (hd bs)
     \<and> unat a < 2 ^ 24 \<and> length dat < 2 ^ 24 \<and> unat (hd bs) < 2 ^ 24
     \<and> unat (hd bs) \<le> length (content ds) div 520 \<and> length (content ds) div 520 < 2 ^ 32"
    using assms(2) unfolding stored_archive_def by blast
  obtain i' d' where n: "h' ki = Some i'" "content i' = content istr" "bad i' = bad istr"
    "h' kd = Some d'" "content d' = content ds" "bad d' = bad ds"
    using f [OF a(4)] f [OF a(5)] by blast
  show ?thesis unfolding stored_archive_def
    by (rule exI [of _ ix], rule exI [of _ ki], rule exI [of _ kd], rule exI [of _ i'], rule exI [of _ d'],
        rule exI [of _ bs]) (use a b n in auto)
qed

lemma available_same_files: "same_files h h' \<Longrightarrow> available c h r \<Longrightarrow> available c h' r"
  by (cases r) (auto intro: stored_archive_same_files)

lemma same_files_sym: "same_files h h' \<Longrightarrow> same_files h' h"
  by (simp add: same_files_def)

lemma answers_same_files:
  assumes "same_files h h'" "answers c h' r out"
  shows "answers c h r out"
proof (cases r)
  case (fields urgent i a)
  show ?thesis
    using assms(2) stored_archive_same_files [OF same_files_sym [OF assms(1)]]
    unfolding fields answers.simps by blast
qed

lemma stored_archive_read:
  assumes "stored_archive (cache_object sv) (cache_files sv) i a dat"
  shows "\<exists>h'. same_files (cache_files sv) h'
    \<and> Manager_GetArchiveData (ucast i) a sv = Inr (True, dat, sv\<lparr>cache_files := h'\<rparr>)"
proof -
  obtain ix where ix: "if i = 255 then ix = main_index (cache_object sv) else GetStore (cache_object sv) (ucast i) = Inr ix"
    and r: "\<exists>h'. GetArchiveData ix a [] (cache_files sv) = (True, [] @ dat, h')"
    using assms unfolding stored_archive_def by (metis archive_chain_answer)
  obtain h' where h: "GetArchiveData ix a [] (cache_files sv) = (True, dat, h')" using r by auto
  have "same_files (cache_files sv) h'" using GetArchiveData_keeps [of "cache_files sv" ix a "[]"] h by simp
  moreover have "(ucast i = (255 :: u32)) = (i = 255)"
    by (simp add: word_unat_eq_iff)
  ultimately show ?thesis using ix h by (auto simp: Manager_GetArchiveData_def)
qed

section \<open>One request, and all of them\<close>

abbreviation reply_packet :: "u8 list \<Rightarrow> packet" where
  "reply_packet out \<equiv> make_packet kGrabCache \<lparr>bytes = out, position = 0\<rparr>"

lemma grab_request_answers:
  assumes "available (cache_object sv) (cache_files sv) (urgent, i, a)"
  shows "\<exists>out h'. grab_request env k (if urgent then 1 else 0) i (htobe a) sv
      = Inr (True, on_session k (Send (reply_packet out)) (sv\<lparr>cache_files := h'\<rparr>))
    \<and> same_files (cache_files sv) h' \<and> answers (cache_object sv) (cache_files sv) (urgent, i, a) out"
proof -
  obtain compr len body where b: "\<not> (i = 255 \<and> a = 255)" "container_rest compr len \<le> length body"
    "stored_archive (cache_object sv) (cache_files sv) i a (compr # be_bytes len @ body)"
    using assms by auto
  obtain h' where h: "same_files (cache_files sv) h'"
    "Manager_GetArchiveData (ucast i) a sv = Inr (True, compr # be_bytes len @ body, sv\<lparr>cache_files := h'\<rparr>)"
    using stored_archive_read [OF b(3)] by blast
  have "length (compr # be_bytes len @ body) < 2 ^ 24" using b(3) unfolding stored_archive_def by blast
  then have room: "length body + 128 < size_max" by (simp add: size_max_def)
  let ?out = "reply_head urgent i (htobe a) compr len @ chunked 10 (take (container_rest compr len) body)"
  have out: "archive_reply urgent i (htobe a) (compr # be_bytes len @ body) = Inr (Some \<lparr>bytes = ?out, position = 0\<rparr>)"
    using archive_reply_bytes [OF room] b(2) by simp
  have "host_bytes (htobe a) = be_bytes a" by (simp add: host_bytes_htobe be_bytes_def)
  then have ans: "answers (cache_object sv) (cache_files sv) (urgent, i, a) ?out"
    using b(3) reply_unframed [of urgent i "htobe a" compr len "take (container_rest compr len) body"]
    by (auto simp: reply_head_def)
  have "grab_request env k (if urgent then 1 else 0) i (htobe a) sv
      = Inr (True, on_session k (Send (reply_packet ?out)) (sv\<lparr>cache_files := h'\<rparr>))"
    using b(1) h(2) out by (auto simp: grab_request_def)
  with h(1) ans show ?thesis by blast
qed

lemma on_session_id [simp]: "on_session k id sv = sv" "on_session k (\<lambda>s. s) sv = sv"
  by (simp_all add: on_session_def option.map_id option.map_ident)

lemma grab_loop_answers:
  assumes "at_bytes b (concat (map request_bytes rs))"
    and "list_all (available (cache_object sv) (cache_files sv)) rs"
  shows "\<exists>outs h'. grab_loop env k b sv
      = Inr (on_session k (in_order (map (\<lambda>out. Send (reply_packet out)) outs)) (sv\<lparr>cache_files := h'\<rparr>))
    \<and> list_all2 (answers (cache_object sv) (cache_files sv)) rs outs"
  using assms
proof (induction rs arbitrary: b sv)
  case Nil
  then have "position b = buf_size b" using length_unread [of b] by (auto simp: at_bytes_def buf_ok_def)
  then show ?case
    by (intro exI [of _ "[]"] exI [of _ "cache_files sv"]) (simp add: grab_loop.simps in_order_Nil)
next
  case (Cons r rs)
  obtain urgent i a where r: "r = (urgent, i, a)" by (cases r)
  define p :: u8 where "p = (if urgent then 1 else 0)"
  let ?rest = "concat (map request_bytes rs)"
  have b: "at_bytes b ([p] @ [i] @ be_bytes a @ ?rest)" using Cons.prems(1) r by (simp add: p_def)
  have b1: "at_bytes (advance 1 b) ([i] @ be_bytes a @ ?rest)" by (rule at_bytes_advance [OF b]) simp
  have b2: "at_bytes (advance 2 b) (be_bytes a @ ?rest)" using at_bytes_advance [OF b1, of 1] by (simp add: numeral_2_eq_2)
  have b3: "at_bytes (advance 6 b) ?rest" using at_bytes_advance [OF b2, of 4] by simp
  have ne: "position b \<noteq> buf_size b" using b length_unread [of b] by (auto simp: at_bytes_def)
  have av: "available (cache_object sv) (cache_files sv) (urgent, i, a)" using Cons.prems(2) r by simp
  obtain out h where g: "grab_request env k p i (htobe a) sv
      = Inr (True, on_session k (Send (reply_packet out)) (sv\<lparr>cache_files := h\<rparr>))"
    "same_files (cache_files sv) h" "answers (cache_object sv) (cache_files sv) (urgent, i, a) out"
    using grab_request_answers [OF av, of env k, folded p_def] by blast
  let ?sv = "on_session k (Send (reply_packet out)) (sv\<lparr>cache_files := h\<rparr>)"
  have same: "cache_object ?sv = cache_object sv" "cache_files ?sv = h" by (simp_all add: on_session_def)
  have "list_all (available (cache_object ?sv) (cache_files ?sv)) rs"
    unfolding same using Cons.prems(2) available_same_files [OF g(2)] by (auto simp: list_all_iff)
  from Cons.IH [OF b3 this] obtain outs h' where o: "grab_loop env k (advance 6 b) ?sv
      = Inr (on_session k (in_order (map (\<lambda>out. Send (reply_packet out)) outs)) (?sv\<lparr>cache_files := h'\<rparr>))"
    "list_all2 (answers (cache_object sv) h) rs outs" unfolding same by blast
  have "list_all2 (answers (cache_object sv) (cache_files sv)) rs outs"
    using o(2) by (rule list_all2_mono) (rule answers_same_files [OF g(2)])
  moreover have "grab_loop env k b sv = grab_loop env k (advance 6 b) ?sv"
  proof -
    have "of_le [p] = p" "of_le [i] = i" "of_le (be_bytes a) = htobe a" by (simp_all add: htobe_def be_bytes_def)
    moreover have "if_get 1 b no yes = yes [p] (advance 1 b)" for no :: "'a server res" and yes
      by (rule if_get_at [OF b]) simp_all
    moreover have "if_get 1 (advance 1 b) no yes = yes [i] (advance 2 b)" for no :: "'a server res" and yes
      using if_get_at [OF b1, of 1 no yes] by (simp add: numeral_2_eq_2)
    moreover have "if_get 4 (advance 2 b) no yes = yes (be_bytes a) (advance 6 b)" for no :: "'a server res" and yes
      using if_get_at [OF b2, of 4 no yes] by simp
    ultimately show ?thesis
      using ne g(1) by (simp only: grab_loop.simps [of env k b sv] if_False bind_res_simps prod.case if_True)
  qed
  moreover have "on_session k (in_order (map (\<lambda>out. Send (reply_packet out)) outs)) (?sv\<lparr>cache_files := h'\<rparr>)
      = on_session k (in_order (map (\<lambda>out. Send (reply_packet out)) (out # outs))) (sv\<lparr>cache_files := h'\<rparr>)"
    by (simp add: in_order_Cons on_session_def option.map_comp)
  ultimately show ?case using o(1) g(3) r
    by (intro exI [of _ "out # outs"] exI [of _ h']) simp
qed

section \<open>A read\<close>

lemma requests_length: "length (concat (map request_bytes rs)) = 6 * length rs"
  by (induction rs) auto

lemma read_loop_requests:
  assumes s: "session_heap sv k = Some s" "snd (mode s) = (Grab_decoder, Grab_encoder, Grab_handler)"
    and rs: "rs \<noteq> []" "6 * length rs < kReadSize" "list_all (available (cache_object sv) (cache_files sv)) rs"
  shows "\<exists>outs h' b. read_loop env k (buf_of (concat (map request_bytes rs))) sv
      = Some (Inr (True, b, on_session k (in_order (map (\<lambda>out. Send (reply_packet out)) outs)) (sv\<lparr>cache_files := h'\<rparr>)))
    \<and> list_all2 (answers (cache_object sv) (cache_files sv)) rs outs"
proof -
  let ?bs = "concat (map request_bytes rs)"
  let ?b = "buf_of ?bs"
  have len: "length ?bs < kReadSize" "6 \<le> length ?bs"
    using rs(1,2) requests_length [of rs] by (cases rs; simp)+
  have b: "at_bytes ?b ?bs" by (rule at_bytes_buf_of) (use len(1) in \<open>simp add: kReadSize_def size_max_def\<close>)
  then have ok: "buf_ok ?b" "unread ?b = ?bs" by (simp_all only: at_bytes_def)
  obtain urgent i a rest where "rs = (urgent, i, a) # rest" using rs(1) by (cases rs) auto
  then have hd7: "\<not> 7 < hd ?bs" by simp
  let ?p = "make_packet kGrabCache ?b" and ?fin = "advance (length ?bs) ?b"
  have "seek Seek_cur (length ?bs) ?b = ?fin"
    by (rule seek_cur_ok [OF ok(1)]) (simp add: ok(2))
  then have d: "GrabDecoder_Decode ?b new_packet = Inr (True, ?p, ?fin)"
    using GrabDecoder_cases [OF ok(1), of new_packet] len(2) hd7 unfolding ok(2)
    by (simp add: make_packet_def new_packet_def buf_of_def empty_buffer_def)
  obtain outs h' where g: "grab_loop env k ?b sv
      = Inr (on_session k (in_order (map (\<lambda>out. Send (reply_packet out)) outs)) (sv\<lparr>cache_files := h'\<rparr>))"
    "list_all2 (answers (cache_object sv) (cache_files sv)) rs outs"
    using grab_loop_answers [OF b rs(3)] by blast
  have m: "session_decoder (session_at sv k) = Grab_decoder" "session_handler (session_at sv k) = Grab_handler"
    using s by (simp_all add: session_at_def mode_def)
  have "remaining ?b \<noteq> 0" unfolding remaining_unread [OF ok(1)] ok(2) using len(2) by linarith
  moreover have "remaining ?fin = 0"
    using len(1) size_sub_le [of "length ?bs" "length ?bs"]
    by (simp add: remaining_def advance_def buf_of_def kReadSize_def size_max_def)
  moreover have "Handle env ?p k sv = grab_loop env k ?b sv"
    using m by (simp add: Handle_def GrabPacketHandler_Handle_def make_packet_def)
  ultimately have "read_loop env k ?b sv = Some (Inr (True, ?fin,
      on_session k (in_order (map (\<lambda>out. Send (reply_packet out)) outs)) (sv\<lparr>cache_files := h'\<rparr>)))"
    using d g(1) m by (simp add: read_loop.simps [of env k ?b sv] read_loop.simps [of env k ?fin])
  with g(2) show ?thesis by blast
qed

lemma replies_output:
  assumes "session_encoder s = Grab_encoder"
  shows "bytes (buffer_output (in_order (map (\<lambda>out. Send (reply_packet out)) outs) s)) = bytes (buffer_output s) @ concat outs
    \<and> said s (in_order (map (\<lambda>out. Send (reply_packet out)) outs) s)"
proof -
  have "list_all2 sender (map (\<lambda>out. Send (reply_packet out)) outs) (map (\<lambda>out. [reply_packet out]) outs)"
    by (simp add: list_all2_map1 list_all2_map2 list_all2_same)
  from sender_in_order [OF this] have "in_order (map (\<lambda>out. Send (reply_packet out)) outs) s = s\<lparr>buffer_output :=
      put_bytes (concat (map (encoder.wire (session_encoder s)) (concat (map (\<lambda>out. [reply_packet out]) outs)))) (buffer_output s)\<rparr>"
    by (simp add: sender_def)
  moreover have "encoder.wire Grab_encoder (reply_packet out) = out" for out
    by (simp add: encoder.wire_def coded_def or_else_def GrabEncoder_codes_def no_code_def make_packet_def)
  then have "concat (map (encoder.wire Grab_encoder) (concat (map (\<lambda>out. [reply_packet out]) outs))) = concat outs"
    by (induction outs) simp_all
  moreover have "said s (in_order (map (\<lambda>out. Send (reply_packet out)) outs) s)"
    by (rule quietD [OF quiet_in_order]) (simp add: list_all_iff quiet_Send)
  ultimately show ?thesis using assms by (simp add: put_bytes_def)
qed

text \<open>Property C4. A client in the download is served what it asks for: when a read brings any
  number of requests, up to its size, for archives that the cache files hold as complete
  containers, the answers are queued behind what was queued before, one per request and in
  order, and each is, without its block markers, the container that was asked for.\<close>

theorem downloads_served:
  assumes "session_heap sv k = Some s" "snd (mode s) = (Grab_decoder, Grab_encoder, Grab_handler)"
    and "buffer_input s = empty_buffer" "rs \<noteq> []" "6 * length rs < kReadSize"
    and "list_all (available (cache_object sv) (cache_files sv)) rs"
  shows "\<exists>sv' t outs. Read env now [Got (concat (map request_bytes rs))] k sv = Some (Inr ([], sv'))
    \<and> session_heap sv' k = Some t \<and> mode t = mode s \<and> buffer_input t = empty_buffer
    \<and> list_all2 (answers (cache_object sv) (cache_files sv)) rs outs
    \<and> bytes (buffer_output t) = bytes (buffer_output s) @ concat outs"
proof -
  let ?bs = "concat (map request_bytes rs)" and ?f = "socket_update (last_active_update (\<lambda>_. now))"
  let ?sv1 = "on_session k ?f sv" and ?g = "\<lambda>outs. in_order (map (\<lambda>out. Send (reply_packet out)) outs)"
  have "length ?bs \<noteq> 0" unfolding requests_length using assms(4) by simp
  then have len: "?bs \<noteq> []" by (simp only: length_0_conv not_False_eq_True)
  have len2: "length ?bs < kReadSize" unfolding requests_length by (rule assms(5))
  have same: "cache_object ?sv1 = cache_object sv" "cache_files ?sv1 = cache_files sv" by (simp_all add: on_session_def)
  have s1: "session_heap ?sv1 k = Some (?f s)" "snd (mode (?f s)) = (Grab_decoder, Grab_encoder, Grab_handler)"
    using assms(1,2) by (simp_all add: on_session_def mode_def)
  obtain outs h' b where r: "read_loop env k (buf_of ?bs) ?sv1
      = Some (Inr (True, b, on_session k (?g outs) (?sv1\<lparr>cache_files := h'\<rparr>)))"
    "list_all2 (answers (cache_object sv) (cache_files sv)) rs outs"
    using read_loop_requests [OF s1 assms(4,5)] assms(6) unfolding same by blast
  let ?t = "(buffer_input_update (\<lambda>_. empty_buffer) \<circ> bytes_received_update (\<lambda>n. size_add n (length ?bs))) (?g outs (?f s))"
  let ?sv' = "on_session k (buffer_input_update (\<lambda>_. empty_buffer) \<circ> bytes_received_update (\<lambda>n. size_add n (length ?bs)))
    (on_session k (?g outs) (?sv1\<lparr>cache_files := h'\<rparr>))"
  have "Read env now [Got ?bs] k sv = Some (Inr ([], ?sv'))"
    using Read_once [OF assms(1,3) len len2, of env now] r(1) by (simp add: Let_def cleared)
  moreover have "session_heap ?sv' k = Some ?t" using assms(1) by (simp add: on_session_def)
  moreover have "mode ?t = mode s \<and> buffer_input ?t = empty_buffer
      \<and> bytes (buffer_output ?t) = bytes (buffer_output s) @ concat outs"
    using replies_output [of "?f s" outs] assms(2) by (auto simp: mode_def said_def)
  ultimately show ?thesis using r(2) by blast
qed


section \<open>An example\<close>

text \<open>A cache whose main index has one archive, number 1: an uncompressed container of two bytes.\<close>

definition download_data :: "u8 list" where
  "download_data = replicate 520 0 @ [0, 1, 0, 0, 0, 0, 0, 255, 0, 0, 0, 0, 2, 7, 8] @ replicate 505 0"

definition download_files :: streams where
  "download_files = [0 \<mapsto> open_stream download_data, 1 \<mapsto> open_stream ([0, 0, 0, 0, 0, 0] @ [0, 0, 7, 0, 0, 1])]"

definition download_server :: "unit server" where
  "download_server = start_download 0 718 (sample_server\<lparr>cache_files := download_files\<rparr>)"

lemma download_chain: "stored_chain download_data 1 0 [1] [0, 0, 0, 0, 2, 7, 8]"
proof -
  have "\<not> expanded 1" by (simp add: expanded_def)
  then show ?thesis
    by (simp add: download_data_def block_holds_def block_header_def be24_def be_bytes_u16 Let_def kBlockLength_unat)
qed

lemma download_stored: "stored_archive (cache_object download_server) (cache_files download_server) 255 1 [0, 0, 0, 0, 2, 7, 8]"
  unfolding stored_archive_def
  by (rule exI [of _ "new_index 0 1"], rule exI [of _ 1], rule exI [of _ 0],
      rule exI [of _ "open_stream ([0, 0, 0, 0, 0, 0] @ [0, 0, 7, 0, 0, 1])"],
      rule exI [of _ "open_stream download_data"], rule exI [of _ "[1]"])
    (use download_chain in \<open>simp add: download_server_def start_download_def sample_server_def download_files_def
      new_index_def open_stream_def be24_def\<close>, simp add: download_data_def)


lemma download_available: "available (cache_object download_server) (cache_files download_server) (True, 255, 1)"
proof -
  have "[0, 0, 0, 0, 2, 7, 8] = 0 # be_bytes (2 :: u32) @ [7, 8 :: u8]" by (simp add: be_bytes_def host_bytes_def)
  with download_stored have "stored_archive (cache_object download_server) (cache_files download_server) 255 1
      (0 # be_bytes (2 :: u32) @ [7, 8])" by simp
  moreover have "container_rest 0 2 \<le> length [7, 8 :: u8]" by (simp add: container_rest_def)
  ultimately show ?thesis unfolding available.simps by (intro conjI exI) (simp_all only:, simp)
qed

theorem downloads_served_witness:
  "\<exists>sv t out. Read sample_env 7 [Got [1, 255, 0, 0, 0, 1]] 0 download_server = Some (Inr ([], sv))
    \<and> session_heap sv 0 = Some t \<and> answers (cache_object download_server) (cache_files download_server) (True, 255, 1) out
    \<and> bytes (buffer_output t) = out"
proof -
  let ?s = "the (session_heap download_server 0)"
  have s: "session_heap download_server 0 = Some ?s" "snd (mode ?s) = (Grab_decoder, Grab_encoder, Grab_handler)"
    "buffer_input ?s = empty_buffer" "bytes (buffer_output ?s) = []"
    by (simp_all add: download_server_def start_download_def on_session_def sample_server_def new_session_def
        session_ops mode_def empty_buffer_def)
  have "concat (map request_bytes [(True, 255, 1)]) = [1, 255, 0, 0, 0, 1]" by (simp add: be_bytes_def host_bytes_def)
  with downloads_served [OF s(1-3), of "[(True, 255, 1)]" sample_env 7] download_available s(4)
  show ?thesis by (auto simp: kReadSize_def list_all2_Cons1 simp del: answers.simps request_bytes.simps available.simps)
qed

end
