(* ===== verification/Registration.thy ===== *)
theory Registration
  imports Accounts
begin

text \<open>
  Registering and logging in again: the account a first login creates is the one every later login of
  that name finds, and it opens to its password only. The database is a parameter that behaves as
  the table its definition describes: a selection by name returns the rows that hold it, an insert
  that succeeds adds one row, made of the columns the command names and the values bound to it, and
  none succeeds with a name that is taken already, as the column is \<open>UNIQUE\<close>.
\<close>

section \<open>A table of players\<close>

definition insert_row :: "(string \<times> string) list \<Rightarrow> (nat \<times> sql_value) list \<Rightarrow> i32 \<Rightarrow> string \<rightharpoonup> sql_value" where
  "insert_row cols params i = (map_of (zip (map fst cols) (map snd params)))(''id'' \<mapsto> Sql_int i)"

abbreviation named :: "sql_value \<Rightarrow> (string \<rightharpoonup> sql_value) list \<Rightarrow> (string \<rightharpoonup> sql_value) list" where
  "named v \<equiv> filter (\<lambda>row. row ''username'' = Some v)"

definition player_lookup :: "'db database \<Rightarrow> ('db \<Rightarrow> (string \<rightharpoonup> sql_value) list) \<Rightarrow> bool" where
  "player_lookup db table \<longleftrightarrow>
     (\<forall>v s. \<exists>b i. db (select_where_command TABLE_NAME (id_definitions @ player_columns_list) ''username'') [(0, v)] s
           = (Inr \<lparr>fetched = b, insert_id = i, rows = named v (table s)\<rparr>, s))"

definition player_table :: "'db database \<Rightarrow> ('db \<Rightarrow> (string \<rightharpoonup> sql_value) list) \<Rightarrow> bool" where
  "player_table db table \<longleftrightarrow> player_lookup db table
     \<and> (\<forall>params s. length params = length player_columns_list \<longrightarrow>
          (case db (insert_command TABLE_NAME player_columns_list) params s of
             (Inl _, s') \<Rightarrow> table s' = table s
           | (Inr r, s') \<Rightarrow> \<not> fetched r \<and> named (snd (params ! 0)) (table s) = []
               \<and> table s' = table s @ [insert_row player_columns_list params (insert_id r)]))"

lemma inserted_one:
  assumes "player_table db table" "length params = length player_columns_list"
  shows "case db (insert_command TABLE_NAME player_columns_list) params s of
       (Inl _, s') \<Rightarrow> table s' = table s
     | (Inr r, s') \<Rightarrow> \<not> fetched r \<and> named (snd (params ! 0)) (table s) = []
         \<and> table s' = table s @ [insert_row player_columns_list params (insert_id r)]"
  using assms(1) [unfolded player_table_def, THEN conjunct2, THEN spec, THEN spec, THEN mp, OF assms(2)] .

text \<open>What the server may have done to the database since: selected and inserted players, with or
  without success.\<close>

inductive later_database :: "'db database \<Rightarrow> 'db \<Rightarrow> 'db \<Rightarrow> bool" for db where
  same: "later_database db s s"
| selected: "later_database db s s' \<Longrightarrow>
    later_database db s (snd (db (select_where_command TABLE_NAME (id_definitions @ player_columns_list) ''username'') [(0, v)] s'))"
| inserted: "later_database db s s' \<Longrightarrow> length params = length player_columns_list \<Longrightarrow>
    later_database db s (snd (db (insert_command TABLE_NAME player_columns_list) params s'))"

lemma columns_Cons: "\<exists>t cols. player_columns_list = (''username'', t) # cols"
  unfolding player_columns_list_def player_definitions_def append_Cons by blast

lemma insert_row_username:
  assumes "length params = length player_columns_list"
  shows "insert_row player_columns_list params i ''username'' = Some (snd (params ! 0))"
proof -
  obtain t cols where c: "player_columns_list = (''username'', t) # cols" using columns_Cons by blast
  then obtain p ps where "params = p # ps" using assms by (cases params) auto
  then show ?thesis unfolding insert_row_def c by simp
qed

lemma later_named:
  assumes "later_database db s s'" "player_table db table" "named v (table s) = [row]"
  shows "named v (table s') = [row]"
  using assms
proof (induction rule: later_database.induct)
  case (selected s s' u)
  then have "player_lookup db table" by (simp add: player_table_def)
  then have "snd (db (select_where_command TABLE_NAME (id_definitions @ player_columns_list) ''username'') [(0, u)] s') = s'"
    using player_lookup_def [of db table] by (metis snd_conv)
  then show ?case using selected by simp
next
  case (inserted s s' params)
  obtain r s2 where i: "db (insert_command TABLE_NAME player_columns_list) params s' = (r, s2)" by fastforce
  show ?case
  proof (cases r)
    case (Inl e)
    then show ?thesis using inserted i inserted_one [of db table params s'] by simp
  next
    case (Inr q)
    then have t: "named (snd (params ! 0)) (table s') = []"
      "table s2 = table s' @ [insert_row player_columns_list params (insert_id q)]"
      using inserted i inserted_one [of db table params s'] by simp_all
    then have "snd (params ! 0) \<noteq> v" using inserted by auto
    then show ?thesis using inserted i t(2) by (simp add: insert_row_username)
  qed
qed simp

lemma inserted_row:
  "insert_row player_columns_list (BindColumns m 0 player_sets) i = row_of (m\<lparr>model_id := i\<rparr>)"
proof -
  define bs where "bs = concat (map GetColumnBinds player_sets)"
  have t: "model_binds = id_binds @ bs" by (simp add: tail_binds bs_def)
  have n: "map fst bs = map fst player_columns_list"
    using model_names by (simp add: t id_binds_def)
  have p: "map snd (BindColumns m 0 player_sets) = map (\<lambda>c. member_value (snd c) m) bs"
    by (simp only: BindColumns_binds Let_def bs_def [symmetric]) simp
  have "member_value (snd c) m = member_value (snd c) (m\<lparr>model_id := i\<rparr>)" if "c \<in> set bs" for c
    using that by (auto simp: bs_def binds_defs)
  then have v: "map (\<lambda>c. member_value (snd c) m) bs = map (\<lambda>c. member_value (snd c) (m\<lparr>model_id := i\<rparr>)) bs"
    by simp
  have "zip (map fst bs) (map (\<lambda>c. member_value (snd c) (m\<lparr>model_id := i\<rparr>)) bs)
      = map (\<lambda>(n, mem). (n, member_value mem (m\<lparr>model_id := i\<rparr>))) bs"
    by (induction bs) auto
  then show ?thesis
    unfolding insert_row_def row_of_def t p v n [symmetric] by (simp add: id_binds_def)
qed

section \<open>Registering and logging in\<close>

lemma select_by:
  assumes "player_lookup (database env) table" "bind_res (setting ''database'' ''mode'' (config sv)) json_string = Inr (ascii ''sqlite'')"
  shows "GetModel env ''username'' v out sv =
    (let out = out @ map bind_record (named v (table (database_state sv))) in Inr ((out \<noteq> [], out), sv))"
proof -
  have mode: "ascii ''sqlite'' \<noteq> ascii ''mysql''" by (simp add: ascii_def)
  obtain b i where "database env (select_where_command TABLE_NAME (id_definitions @ player_columns_list) ''username'') [(0, v)] (database_state sv)
      = (Inr \<lparr>fetched = b, insert_id = i, rows = named v (table (database_state sv))\<rparr>, database_state sv)"
    using assms(1) unfolding player_lookup_def by blast
  then show ?thesis
    using assms(2) mode
    by (simp add: GetModel_def with_backend_def SelectWhere_def all_definitions run_def Let_def del: GetAllColumnDefinitions.simps)
qed

lemma CreateModel_new:
  assumes "bind_res (setting ''database'' ''mode'' (config sv)) json_string = Inr (ascii ''sqlite'')" "model_id m = 0"
  shows "CreateModel env m sv =
    (case database env (insert_command TABLE_NAME player_columns_list) (BindColumns m 0 player_sets) (database_state sv) of
       (Inl e, _) \<Rightarrow> Inl e
     | (Inr r, s) \<Rightarrow>
         Inr (if fetched r then (False, m) else (True, m\<lparr>model_id := insert_id r\<rparr>), sv\<lparr>database_state := s\<rparr>))"
proof -
  have mode: "ascii ''sqlite'' \<noteq> ascii ''mysql''" by (simp add: ascii_def)
  then show ?thesis
    using assms
    by (simp add: CreateModel_def with_backend_def Save_def Insert_def all_definitions run_def
        del: GetAllColumnDefinitions.simps BindColumns.simps split: prod.split sum.split)
qed

lemma length_binds: "length (BindColumns m 0 player_sets) = length player_columns_list"
  by (simp add: player_columns_list_def definitions_defs binds_defs)

text \<open>The commands of a login lead to a later database.\<close>

lemma commands_later:
  assumes "bind_res (setting ''database'' ''mode'' (config sv)) json_string = Inr (ascii ''sqlite'')"
  shows "GetModel env ''username'' v out sv = Inr (x, sv') \<Longrightarrow>
      later_database (database env) (database_state sv) (database_state sv')"
    and "CreateModel env m sv = Inr (y, sv') \<Longrightarrow> model_id m = 0 \<Longrightarrow>
      later_database (database env) (database_state sv) (database_state sv')"
proof -
  have mode: "ascii ''sqlite'' \<noteq> ascii ''mysql''" by (simp add: ascii_def)
  show "later_database (database env) (database_state sv) (database_state sv')"
    if "GetModel env ''username'' v out sv = Inr (x, sv')"
  proof -
    have "database_state sv' = snd (database env
        (select_where_command TABLE_NAME (id_definitions @ player_columns_list) ''username'') [(0, v)] (database_state sv))"
      using that assms mode
      by (auto simp: GetModel_def with_backend_def SelectWhere_def all_definitions run_def Let_def
          simp del: GetAllColumnDefinitions.simps split: prod.splits sum.splits)
    then show ?thesis using later_database.selected [OF later_database.same] by simp
  qed
  show "later_database (database env) (database_state sv) (database_state sv')"
    if "CreateModel env m sv = Inr (y, sv')" "model_id m = 0"
  proof -
    have "database_state sv' = snd (database env
        (insert_command TABLE_NAME player_columns_list) (BindColumns m 0 player_sets) (database_state sv))"
      using that CreateModel_new [OF assms that(2), of env] by (auto split: prod.splits sum.splits)
    then show ?thesis using later_database.inserted [OF later_database.same length_binds] by simp
  qed
qed

lemma register_model:
  assumes "register env r user pw sv = Inr m"
  shows "model_id m = 0" "username (account m) = user"
    "password (account m) = EncodePassword (cryptography env) pw (salt (account m)) [] 10"
  using assms by (auto simp: register_def Let_def new_player_model_def bind_res_def split: sum.splits if_splits)

lemma row_username: "row_of m ''username'' = Some (Sql_text (username (account m)))"
proof -
  have "row_of m ''username'' = Some (member_value
      (Text_member (username \<circ> account) (\<lambda>v. account_update (username_update (\<lambda>_. v)))) m)"
    by (rule row_of_bind) (simp add: model_binds_def player_binds_def)
  then show ?thesis by simp
qed

text \<open>Property C11. A name that is not in the database is registered at its first login. If the database
  refuses the insert, its error ends the login; otherwise, from then on the account is found: after
  whatever selections and insertions of players follow, a login of that name gets the very model that
  was created, and gets it exactly when the password it offers derives the same key under the salt of
  the account; with any other it is refused.\<close>

theorem registered_login:
  assumes "player_table (database env) table"
    and "bind_res (setting ''database'' ''mode'' (config sv)) json_string = Inr (ascii ''sqlite'')"
    and "register env r user pw sv = Inr m0"
    and "filter (\<lambda>row. row ''username'' = Some (Sql_text user)) (table (database_state sv)) = []"
    and "inj (base64 (cryptography env))"
  shows "case database env (insert_command TABLE_NAME player_columns_list) (BindColumns m0 0 player_sets) (database_state sv) of
      (Inl e, _) \<Rightarrow> \<forall>cont. find_account env k r user pw sv cont = Inl e
    | (Inr res, s) \<Rightarrow> \<exists>m. m = m0\<lparr>model_id := insert_id res\<rparr> \<and> username (account m) = user
        \<and> (\<forall>cont. find_account env k r user pw sv cont = cont m (sv\<lparr>database_state := s\<rparr>))
        \<and> (\<forall>sv' k' r' q. later_database (database env) s (database_state sv')
              \<and> bind_res (setting ''database'' ''mode'' (config sv')) json_string = Inr (ascii ''sqlite'') \<longrightarrow>
            (\<forall>cont. find_account env k' r' user q sv' cont =
              (if pbkdf2 (cryptography env) q (salt (account m)) 10 = pbkdf2 (cryptography env) pw (salt (account m)) 10
               then cont m sv' else refuse k' kErrorInvalidLogin sv')))"
proof -
  note reg = register_model [OF assms(3)]
  have lookup: "player_lookup (database env) table" using assms(1) by (simp add: player_table_def)
  have none: "GetModel env ''username'' (Sql_text user) [] sv = Inr ((False, []), sv)"
    using select_by [OF lookup assms(2)] assms(4) by simp
  obtain out s where i: "database env (insert_command TABLE_NAME player_columns_list) (BindColumns m0 0 player_sets) (database_state sv)
      = (out, s)" by fastforce
  show ?thesis
  proof (cases out)
    case (Inl e)
    then have "find_account env k r user pw sv cont = Inl e" for cont
      using none assms(3) CreateModel_new [OF assms(2) reg(1), of env] i by (simp add: find_account_def)
    then show ?thesis using i Inl by simp
  next
    case (Inr res)
    let ?m = "m0\<lparr>model_id := insert_id res\<rparr>"
    have t: "\<not> fetched res" "table s = table (database_state sv) @ [row_of ?m]"
      using inserted_one [OF assms(1), of "BindColumns m0 0 player_sets" "database_state sv"] length_binds [of m0] i Inr
      by (simp_all add: inserted_row del: BindColumns.simps)
    have first: "find_account env k r user pw sv cont = cont ?m (sv\<lparr>database_state := s\<rparr>)" for cont
      using none assms(3) CreateModel_new [OF assms(2) reg(1), of env] i Inr t(1) by (simp add: find_account_def)
    have row: "named (Sql_text user) (table s) = [row_of ?m]"
      using t(2) assms(4) reg(2) by (simp add: row_username)
    have later: "find_account env k' r' user q sv' cont =
        (if pbkdf2 (cryptography env) q (salt (account ?m)) 10 = pbkdf2 (cryptography env) pw (salt (account ?m)) 10
         then cont ?m sv' else refuse k' kErrorInvalidLogin sv')"
      if "later_database (database env) s (database_state sv')"
        "bind_res (setting ''database'' ''mode'' (config sv')) json_string = Inr (ascii ''sqlite'')" for sv' k' r' q cont
    proof -
      have "GetModel env ''username'' (Sql_text user) [] sv' = Inr ((True, [?m]), sv')"
        using select_by [OF lookup that(2), of "Sql_text user" "[]"] later_named [OF that(1) assms(1) row]
        by (simp add: bind_record_row)
      moreover have "CheckPassword (cryptography env) q 10 (assign_model new_player ?m)
          \<longleftrightarrow> pbkdf2 (cryptography env) q (salt (account ?m)) 10 = pbkdf2 (cryptography env) pw (salt (account ?m)) 10"
        using CheckPassword_iff [of "assign_model new_player ?m" "cryptography env" pw 10 q] reg(3) assms(5)
        by (simp add: assign_model_def)
      ultimately show ?thesis by (simp add: find_account_def)
    qed
    show ?thesis using first later reg(2) i Inr by simp
  qed
qed

section \<open>An example\<close>

text \<open>A database that is a list of rows, with one row for a name.\<close>

definition list_table :: "(string \<rightharpoonup> sql_value) list database" where
  "list_table cmd params s =
     (if cmd = insert_command TABLE_NAME player_columns_list
      then if named (snd (hd params)) s = []
           then (Inr \<lparr>fetched = False, insert_id = of_nat (length s + 1), rows = []\<rparr>,
             s @ [insert_row player_columns_list params (of_nat (length s + 1))])
           else (Inl (Runtime_error ''UNIQUE constraint failed: players.username''), s)
      else (Inr \<lparr>fetched = False, insert_id = 0, rows = named (snd (hd params)) s\<rparr>, s))"

lemma list_table_ok: "player_table list_table (\<lambda>s. s)"
proof -
  have "select_where_command TABLE_NAME cols f \<noteq> insert_command TABLE_NAME cols'" for cols f cols'
    by (simp add: select_where_command_def insert_command_def)
  then have "player_lookup list_table (\<lambda>s. s)"
    unfolding player_lookup_def list_table_def by (intro allI exI [of _ False] exI [of _ 0]) simp
  moreover have "params \<noteq> []" if "length params = length player_columns_list" for params :: "(nat \<times> sql_value) list"
    using that by (auto simp: player_columns_list_def player_definitions_def)
  ultimately show ?thesis by (auto simp: player_table_def list_table_def hd_conv_nth)
qed

lemma list_table_lookup: "player_lookup list_table (\<lambda>s. s)"
  using list_table_ok by (simp add: player_table_def)

definition table_env :: "(string \<rightharpoonup> sql_value) list env" where
  "table_env = \<lparr>database = list_table, cryptography = \<lparr>pbkdf2 = (\<lambda>w _ _. w), base64 = id\<rparr>,
     rsa = (\<lambda>_ _ bs. Inr bs), whirlpool = (\<lambda>_. []), random_block = (\<lambda>_. []), random_bool = (\<lambda>_. False),
     random_skin = (\<lambda>_. 0)\<rparr>"

definition table_server :: "(string \<rightharpoonup> sql_value) list server" where
  "table_server = \<lparr>config = (new_config_manager [])\<lparr>json_config := default_config\<rparr>,
     cache_object = \<lparr>cache_streams = [], main_index = new_index 0 1, indexes = []\<rparr>,
     cache_files = Map.empty, database_state = [], worlds = [(1, new_world)], player_sessions = Map.empty,
     player_heap = (\<lambda>_. new_player), next_player = 0, session_heap = [0 \<mapsto> new_session 0]\<rparr>"

lemma table_config:
  "bind_res (setting ''database'' ''mode'' (config table_server)) json_string = Inr (ascii ''sqlite'')"
  "bind_res (setting_of_copy ''game'' ''starting_location'' (config table_server)) json_u32s = Inr [3087, 3496, 0]"
proof -
  have d: "list_all (\<lambda>(a, b, v). setting a b (config table_server) = Inr v) default_settings"
    by (rule default_setting) (simp add: table_server_def)
  then show "bind_res (setting ''database'' ''mode'' (config table_server)) json_string = Inr (ascii ''sqlite'')"
    by (simp add: default_settings_def json_string_def)
  from d have "setting ''game'' ''starting_location'' (config table_server) = Inr (Json_array (map (\<lambda>n. Json_integer (int n)) [3087, 3496, 0]))"
    by (simp add: default_settings_def)
  from setting_copied [OF this]
  show "bind_res (setting_of_copy ''game'' ''starting_location'' (config table_server)) json_u32s = Inr [3087, 3496, 0]"
    by (simp add: json_u32s_def json_u32_def)
qed

lemma table_register: "\<exists>m. register table_env 0 [97] [98, 98, 98] table_server = Inr m"
  by (simp add: register_def table_config table_env_def SetDefaultMale_def Let_def)

theorem registered_login_witness:
  "\<exists>m s. (\<forall>cont. find_account table_env 0 0 [97] [98, 98, 98] table_server cont = cont m (table_server\<lparr>database_state := s\<rparr>))
    \<and> (\<forall>k r cont. find_account table_env k r [97] [99] (table_server\<lparr>database_state := s\<rparr>) cont
        = refuse k kErrorInvalidLogin (table_server\<lparr>database_state := s\<rparr>))"
proof -
  obtain m0 where m0: "register table_env 0 [97] [98, 98, 98] table_server = Inr m0" using table_register ..
  have "player_table (database table_env) (\<lambda>s. s)" "inj (base64 (cryptography table_env))"
    by (simp_all add: table_env_def list_table_ok)
  moreover have empty: "database_state table_server = []" by (simp add: table_server_def)
  ultimately have c: "case database table_env (insert_command TABLE_NAME player_columns_list) (BindColumns m0 0 player_sets) (database_state table_server) of
      (Inl e, _) \<Rightarrow> \<forall>cont. find_account table_env 0 0 [97] [98, 98, 98] table_server cont = Inl e
    | (Inr res, s) \<Rightarrow> \<exists>m. m = m0\<lparr>model_id := insert_id res\<rparr> \<and> username (account m) = [97]
        \<and> (\<forall>cont. find_account table_env 0 0 [97] [98, 98, 98] table_server cont = cont m (table_server\<lparr>database_state := s\<rparr>))
        \<and> (\<forall>sv' k' r' q. later_database (database table_env) s (database_state sv')
              \<and> bind_res (setting ''database'' ''mode'' (config sv')) json_string = Inr (ascii ''sqlite'') \<longrightarrow>
            (\<forall>cont. find_account table_env k' r' [97] q sv' cont =
              (if pbkdf2 (cryptography table_env) q (salt (account m)) 10
                  = pbkdf2 (cryptography table_env) [98, 98, 98] (salt (account m)) 10
               then cont m sv' else refuse k' kErrorInvalidLogin sv')))"
    using m0 table_config(1) by (intro registered_login [where table = "\<lambda>s. s"]) simp_all
  obtain res s where i: "database table_env (insert_command TABLE_NAME player_columns_list) (BindColumns m0 0 player_sets) (database_state table_server)
      = (Inr res, s)"
    by (simp add: table_env_def list_table_def empty)
  let ?sv = "table_server\<lparr>database_state := s\<rparr>"
  have "later_database (database table_env) s (database_state ?sv)"
    "bind_res (setting ''database'' ''mode'' (config ?sv)) json_string = Inr (ascii ''sqlite'')"
    using table_config(1) by (simp_all add: later_database.same)
  moreover have "pbkdf2 (cryptography table_env) q x 10 = q" for q x by (simp add: table_env_def)
  ultimately show ?thesis using c unfolding i by fastforce
qed

end
