(* ===== verification/LoginPackets.thy ===== *)
theory LoginPackets
  imports Registration Reads
begin

text \<open>
  The login packet as a client builds it: the RSA block with the key and the password, and the
  encrypted rest with the name, the screen, what the server has no use for and the checksums of
  the client's cache. The handler reads back what the client has written, and the account of that
  name decides.
\<close>

section \<open>Steps of a reader\<close>

lemma u8_step:
  assumes "at_bytes b (w # rest)"
  obtains b' where "at_bytes b' rest" "\<forall>(no :: 'r res) yes. if_get_u8 b no yes = yes w b'"
proof
  show "at_bytes (advance 1 b) rest" using at_bytes_advance [of b "[w]" rest 1] assms by simp
  show "\<forall>(no :: 'r res) yes. if_get_u8 b no yes = yes w (advance 1 b)" using if_get_u8_at [OF assms] by blast
qed

lemma u16_step:
  assumes "at_bytes b (be_bytes (w :: u16) @ rest)"
  obtains b' where "at_bytes b' rest" "\<forall>(no :: 'r res) yes. if_get_u16 b no yes = yes (htobe w) b'"
proof
  show "at_bytes (advance 2 b) rest" using at_bytes_advance [OF assms] by (simp add: length_be_bytes)
  show "\<forall>(no :: 'r res) yes. if_get_u16 b no yes = yes (htobe w) (advance 2 b)" using if_get_u16_at [OF assms] by blast
qed

lemma u32_step:
  assumes "at_bytes b (be_bytes (w :: u32) @ rest)"
  obtains b' where "at_bytes b' rest" "\<forall>(no :: 'r res) yes. if_get_u32 b no yes = yes (htobe w) b'"
proof
  show "at_bytes (advance 4 b) rest" using at_bytes_advance [OF assms] by (simp add: length_be_bytes)
  show "\<forall>(no :: 'r res) yes. if_get_u32 b no yes = yes (htobe w) (advance 4 b)" using if_get_u32_at [OF assms] by blast
qed

lemma u64_step:
  assumes "at_bytes b (be_bytes (w :: u64) @ rest)"
  obtains b' where "at_bytes b' rest" "\<forall>(no :: 'r res) yes. if_get_u64 b no yes = yes (htobe w) b'"
proof
  show "at_bytes (advance 8 b) rest" using at_bytes_advance [OF assms] by (simp add: length_be_bytes)
  show "\<forall>(no :: 'r res) yes. if_get_u64 b no yes = yes (htobe w) (advance 8 b)" using if_get_u64_at [OF assms] by blast
qed

lemma skip_step:
  assumes "at_bytes b (xs @ rest)" "length xs = n"
  obtains b' where "at_bytes b' rest" "skip n b = b'"
proof
  show "at_bytes (advance n b) rest" using at_bytes_advance assms by metis
  show "skip n b = advance n b"
    by (rule seek_cur_ok) (use assms in \<open>auto simp: at_bytes_def\<close>)
qed

text \<open>A string without a line feed, which would end it for the reader but not for its copy.\<close>

definition plain :: "cstring \<Rightarrow> bool" where
  "plain s \<longleftrightarrow> set s \<inter> {0, 10} = {}"

lemma string_step:
  assumes "at_bytes b (s @ 0 # rest)" "plain s"
  obtains b' where "at_bytes b' rest" "\<forall>(no :: 'r res) yes. if_get_string b no yes = yes s b'"
proof
  have ok: "buf_ok b" "unread b = s @ 0 # rest" using assms(1) by (simp_all add: at_bytes_def)
  show "at_bytes (advance (length s + 1) b) rest"
    using at_bytes_advance [of b "s @ [0]" rest] assms(1) by simp
  have "get_string b = Inr (True, s, advance (length s + 1) b)"
    using get_string_found [OF ok] assms(2) by (simp add: plain_def advance_def)
  then show "\<forall>(no :: 'r res) yes. if_get_string b no yes = yes s (advance (length s + 1) b)"
    by (simp add: if_get_string_def)
qed

section \<open>What a client sends\<close>

record client_login =
  c_key :: "u8 list"
  c_pw :: cstring
  c_user :: cstring
  c_mode :: u8
  c_width :: u16
  c_height :: u16
  c_machine :: "u8 list"
  c_settings :: cstring
  c_affiliate :: "u8 list"
  c_hardware :: "u8 list"
  c_ids :: "u8 list"
  c_extra :: "cstring option"
  c_more :: "u8 list"
  c_game :: cstring
  c_flag :: u8

definition client_ok :: "client_login \<Rightarrow> bool" where
  "client_ok c \<longleftrightarrow> length (c_key c) = 16 \<and> plain (c_pw c) \<and> 3 \<le> length (c_pw c) \<and> length (c_pw c) \<le> 30
     \<and> plain (c_user c) \<and> length (c_machine c) = 25 \<and> plain (c_settings c) \<and> length (c_affiliate c) = 4
     \<and> length (c_hardware c) < 256 \<and> length (c_ids c) = 12
     \<and> (case c_extra c of None \<Rightarrow> True | Some s \<Rightarrow> plain s) \<and> length (c_more c) = 8 \<and> plain (c_game c)"

definition secret_bytes :: "client_login \<Rightarrow> u8 list" where
  "secret_bytes c = [10] @ c_key c @ be_bytes (0 :: u64) @ c_pw c @ [0]"

definition user_bytes :: "client_login \<Rightarrow> u8 list" where
  "user_bytes c = [1] @ c_user c @ [0] @ [c_mode c] @ be_bytes (c_width c) @ be_bytes (c_height c)"

definition settings_bytes :: "client_login \<Rightarrow> u8 list" where
  "settings_bytes c = c_machine c @ c_settings c @ [0] @ c_affiliate c @ [of_nat (length (c_hardware c))] @ c_hardware c
     @ c_ids c @ (case c_extra c of None \<Rightarrow> [0] | Some s \<Rightarrow> [1] @ s @ [0]) @ c_more c @ c_game c @ [0] @ [c_flag c]"

definition padded :: "u8 list \<Rightarrow> u8 list" where
  "padded bs = bs @ replicate ((8 - length bs mod 8) mod 8) 0"

definition rest_bytes :: "client_login \<Rightarrow> u32 list \<Rightarrow> u8 list" where
  "rest_bytes c crcs = padded (user_bytes c @ settings_bytes c @ concat (map be_bytes crcs))"

lemma padded_dvd: "8 dvd length (padded bs)"
proof (cases "length bs mod 8 = 0")
  case False
  have up: "n = 8 * q + r \<Longrightarrow> r < 8 \<Longrightarrow> n + (8 - r) = 8 * (q + 1)" for n q r :: nat by simp
  have "length bs + (8 - length bs mod 8) = 8 * (length bs div 8 + 1)" by (rule up) simp_all
  moreover have "(8 - length bs mod 8) mod 8 = 8 - length bs mod 8" using False by simp
  ultimately have "length (padded bs) = 8 * (length bs div 8 + 1)" by (simp only: padded_def length_append length_replicate)
  then show ?thesis by simp
qed (simp add: padded_def dvd_eq_mod_eq_0)

section \<open>Reading it back\<close>

lemma read_user_at:
  assumes "at_bytes d (user_bytes c @ rest)" "client_ok c"
  obtains d' where "at_bytes d' rest"
    "\<forall>next :: cstring \<Rightarrow> u8 \<Rightarrow> u16 \<Rightarrow> u16 \<Rightarrow> buffer \<Rightarrow> 'db reply.
       read_user k d sv next = next (c_user c) (c_mode c) (htobe (c_width c)) (htobe (c_height c)) d'"
proof -
  have u: "plain (c_user c)" using assms(2) by (simp add: client_ok_def)
  have 0: "at_bytes d (1 # c_user c @ 0 # c_mode c # be_bytes (c_width c) @ be_bytes (c_height c) @ rest)"
    using assms(1) by (simp add: user_bytes_def)
  obtain d1 where 1: "at_bytes d1 (c_user c @ 0 # c_mode c # be_bytes (c_width c) @ be_bytes (c_height c) @ rest)"
    "\<forall>(no :: 'db reply) yes. if_get_u8 d no yes = yes 1 d1" by (rule u8_step [OF 0])
  obtain d2 where 2: "at_bytes d2 (c_mode c # be_bytes (c_width c) @ be_bytes (c_height c) @ rest)"
    "\<forall>(no :: 'db reply) yes. if_get_string d1 no yes = yes (c_user c) d2" by (rule string_step [OF 1(1) u])
  obtain d3 where 3: "at_bytes d3 (be_bytes (c_width c) @ be_bytes (c_height c) @ rest)"
    "\<forall>(no :: 'db reply) yes. if_get_u8 d2 no yes = yes (c_mode c) d3" by (rule u8_step [OF 2(1)])
  obtain d4 where 4: "at_bytes d4 (be_bytes (c_height c) @ rest)"
    "\<forall>(no :: 'db reply) yes. if_get_u16 d3 no yes = yes (htobe (c_width c)) d4" by (rule u16_step [OF 3(1)])
  obtain d5 where 5: "at_bytes d5 rest"
    "\<forall>(no :: 'db reply) yes. if_get_u16 d4 no yes = yes (htobe (c_height c)) d5" by (rule u16_step [OF 4(1)])
  show thesis by (rule that [OF 5(1)]) (simp add: read_user_def 1 2 3 4 5)
qed

text \<open>Several skips in a row.\<close>

lemma skips_step:
  assumes "at_bytes b (xs @ rest)" "sum_list ns = length xs"
  obtains b' where "at_bytes b' rest" "fold skip ns b = b'"
proof -
  have "at_bytes (fold skip ns b) rest"
    using assms
  proof (induction ns arbitrary: b xs)
    case (Cons n ns)
    have "at_bytes b (take n xs @ drop n xs @ rest)"
      using Cons.prems(1) by (simp only: append_assoc [symmetric] append_take_drop_id)
    moreover have "length (take n xs) = n" using Cons.prems(2) by simp
    ultimately obtain c where "at_bytes c (drop n xs @ rest)" "skip n b = c" by (rule skip_step)
    then show ?case using Cons.IH [of c "drop n xs"] Cons.prems(2) by simp
  qed simp
  then show thesis using that by blast
qed

text \<open>The end of the settings: eight bytes, a string, a byte.\<close>

lemma settings_end:
  assumes "at_bytes b (eight @ name @ 0 # flag # rest)" "length eight = 8" "plain name"
  obtains d where "at_bytes d rest" "\<forall>(no :: 'r res) next. if_get_string (fold skip [1, 1, 1, 1, 4] b) no (\<lambda>_ d. next (skip 1 d)) = next d"
proof -
  obtain b1 where 1: "at_bytes b1 (name @ 0 # flag # rest)" "fold skip [1, 1, 1, 1, 4] b = b1"
    by (rule skips_step [OF assms(1), where ns = "[1, 1, 1, 1, 4]"]) (simp_all add: assms(2))
  obtain b2 where 2: "at_bytes b2 (flag # rest)" "\<forall>(no :: 'r res) yes. if_get_string b1 no yes = yes name b2"
    by (rule string_step [OF 1(1) assms(3)])
  have "at_bytes b2 ([flag] @ rest)" using 2(1) by simp
  then obtain b3 where 3: "at_bytes b3 rest" "skip 1 b2 = b3" by (rule skip_step [where n = 1]) simp
  show thesis by (rule that [OF 3(1)]) (simp only: 1(2) 2(2) 3(2) simp_thms)
qed

lemma skip_settings_at:
  assumes "at_bytes d (settings_bytes c @ rest)" "client_ok c"
  obtains d' where "at_bytes d' rest" "\<forall>next :: buffer \<Rightarrow> 'db reply. skip_settings k d sv next = next d'"
proof -
  have ok: "plain (c_settings c)" "plain (c_game c)" "length (c_hardware c) < 256" "length (c_machine c) = 25"
    "length (c_affiliate c) = 4" "length (c_ids c) = 12" "length (c_more c) = 8"
    using assms(2) by (simp_all add: client_ok_def)
  let ?info = "case c_extra c of None \<Rightarrow> [0] | Some s \<Rightarrow> [1] @ s @ [0]"
  let ?tail = "c_more c @ c_game c @ 0 # c_flag c # rest"
  have 0: "at_bytes d (c_machine c @ c_settings c @ 0 # c_affiliate c @ of_nat (length (c_hardware c)) # (c_hardware c @ c_ids c)
      @ ?info @ ?tail)"
    using assms(1) by (simp add: settings_bytes_def)
  obtain d1 where 1: "at_bytes d1 (c_settings c @ 0 # c_affiliate c @ of_nat (length (c_hardware c)) # (c_hardware c @ c_ids c)
      @ ?info @ ?tail)" "fold skip [1, 24] d = d1"
    by (rule skips_step [OF 0, where ns = "[1, 24]"]) (simp_all add: ok)
  obtain d2 where 2: "at_bytes d2 (c_affiliate c @ of_nat (length (c_hardware c)) # (c_hardware c @ c_ids c) @ ?info @ ?tail)"
    "\<forall>(no :: 'db reply) yes. if_get_string d1 no yes = yes (c_settings c) d2"
    by (rule string_step [OF 1(1) ok(1)])
  obtain d3 where 3: "at_bytes d3 (of_nat (length (c_hardware c)) # (c_hardware c @ c_ids c) @ ?info @ ?tail)"
    "fold skip [4] d2 = d3" by (rule skips_step [OF 2(1), where ns = "[4]"]) (simp_all add: ok)
  obtain d4 where 4: "at_bytes d4 ((c_hardware c @ c_ids c) @ ?info @ ?tail)"
    "\<forall>(no :: 'db reply) yes. if_get_u8 d3 no yes = yes (of_nat (length (c_hardware c))) d4" by (rule u8_step [OF 3(1)])
  have n: "unat (of_nat (length (c_hardware c)) :: u8) = length (c_hardware c)" using ok(3) by (simp add: unat_of_nat)
  obtain d5 where 5: "at_bytes d5 (?info @ ?tail)" "fold skip [length (c_hardware c), 4, 8] d4 = d5"
    by (rule skips_step [OF 4(1), where ns = "[length (c_hardware c), 4, 8]"]) (simp_all add: ok)
  note folds = 1(2) 3(2) 5(2)
  have step: "skip_settings k d sv nx = if_get_u8 d5 (refuse k kErrorSession sv) (\<lambda>info d.
      let rest = (\<lambda>d. if_get_string (fold skip [1, 1, 1, 1, 4] d) (refuse k kErrorSession sv) (\<lambda>_ d. nx (skip 1 d)))
      in if info = 1 then if_get_string d (refuse k kErrorSession sv) (\<lambda>_ d. rest d) else rest d)" for nx :: "buffer \<Rightarrow> 'db reply"
    using folds 2(2) 4(2) n by (simp add: skip_settings_def Let_def del: seek.simps)
  show thesis
  proof (cases "c_extra c")
    case None
    then have "at_bytes d5 (0 # ?tail)" using 5(1) by simp
    then obtain d6 where 6: "at_bytes d6 ?tail" "\<forall>(no :: 'db reply) yes. if_get_u8 d5 no yes = yes 0 d6" by (rule u8_step)
    obtain d7 where 7: "at_bytes d7 rest" "\<forall>(no :: 'db reply) next.
        if_get_string (fold skip [1, 1, 1, 1, 4] d6) no (\<lambda>_ d. next (skip 1 d)) = next d7"
      by (rule settings_end [OF 6(1) ok(7,2)])
    show thesis by (rule that [OF 7(1)]) (use 6(2) 7(2) in \<open>simp add: step del: seek.simps fold_simps\<close>)
  next
    case (Some s)
    then have "at_bytes d5 (1 # s @ 0 # ?tail)" using 5(1) by simp
    then obtain d6 where 6: "at_bytes d6 (s @ 0 # ?tail)" "\<forall>(no :: 'db reply) yes. if_get_u8 d5 no yes = yes 1 d6" by (rule u8_step)
    have "plain s" using assms(2) Some by (simp add: client_ok_def)
    then obtain d7 where 7: "at_bytes d7 ?tail" "\<forall>(no :: 'db reply) yes. if_get_string d6 no yes = yes s d7"
      by (rule string_step [OF 6(1)])
    obtain d8 where 8: "at_bytes d8 rest" "\<forall>(no :: 'db reply) next.
        if_get_string (fold skip [1, 1, 1, 1, 4] d7) no (\<lambda>_ d. next (skip 1 d)) = next d8"
      by (rule settings_end [OF 7(1) ok(7,2)])
    show thesis by (rule that [OF 8(1)]) (use 6(2) 7(2) 8(2) in \<open>simp add: step del: seek.simps fold_simps\<close>)
  qed
qed

lemma check_crcs_at:
  assumes "list_all (\<lambda>i. map_of (indexes (cache_object sv)) (of_nat i) \<noteq> None) is"
    and "at_bytes d (concat (map (\<lambda>i. be_bytes (index_crc (the (map_of (indexes (cache_object sv)) (of_nat i))))) is) @ rest)"
  shows "check_crcs k is d sv fin = fin"
  using assms
proof (induction "is" arbitrary: d)
  case (Cons i "is")
  obtain ix where ix: "map_of (indexes (cache_object sv)) (of_nat i) = Some ix" using Cons.prems(1) by auto
  have "at_bytes d (be_bytes (index_crc ix) @ concat (map (\<lambda>i. be_bytes (index_crc (the (map_of (indexes (cache_object sv))
      (of_nat i))))) is) @ rest)"
    using Cons.prems(2) ix by simp
  from u32_step [OF this] obtain d' where d': "at_bytes d' (concat (map (\<lambda>i. be_bytes (index_crc
      (the (map_of (indexes (cache_object sv)) (of_nat i))))) is) @ rest)"
    "\<forall>no yes. if_get_u32 d (no :: 'a server res) yes = yes (htobe (index_crc ix)) d'" by metis
  have "check_crcs k is d' sv fin = fin" using Cons.IH [OF _ d'(1)] Cons.prems(1) by simp
  then show ?case using ix d'(2) by (simp add: GetStore_def)
qed simp

text \<open>The checksums of a client whose cache is the server's.\<close>

definition served_crcs :: "'db server \<Rightarrow> u32 list" where
  "served_crcs sv = map (\<lambda>i. index_crc (the (map_of (indexes (cache_object sv)) (of_nat i)))) (crc_indexes sv)"

definition login_body :: "u8 \<Rightarrow> u8 list \<Rightarrow> u8 list \<Rightarrow> u8 list" where
  "login_body first block xtea_block = first # be_bytes (of_nat (length block) :: u16) @ block @ xtea_block"

lemma secret_at: "client_ok c \<Longrightarrow> at_bytes (buf_of (secret_bytes c)) (10 # c_key c @ be_bytes (0 :: u64) @ c_pw c @ 0 # [])"
  using at_bytes_buf_of [of "secret_bytes c"] by (simp add: client_ok_def secret_bytes_def length_be_bytes size_max_def)

lemma read_rsa_block_at:
  assumes "client_ok c" "at_bytes (packet_data p) (login_body first block xt)" "length block < 65536"
    and "bind_res (setting ''login'' ''private_exponent'' (config sv)) json_string = Inr e"
    and "bind_res (setting ''login'' ''modulus'' (config sv)) json_string = Inr n"
    and "rsa env e n block = Inr (secret_bytes c)"
  obtains b where "at_bytes b xt"
    "\<forall>next :: u8 list \<Rightarrow> cstring \<Rightarrow> buffer \<Rightarrow> 'db reply. read_rsa_block env k p sv next = next (c_key c) (c_pw c) b"
proof -
  have ok: "length (c_key c) = 16" "plain (c_pw c)" "\<not> length (c_pw c) < 3" "\<not> 30 < length (c_pw c)"
    using assms(1) by (auto simp: client_ok_def)
  have "at_bytes (packet_data p) ([first] @ be_bytes (of_nat (length block) :: u16) @ block @ xt)"
    using assms(2) by (simp add: login_body_def)
  then obtain b1 where 1: "at_bytes b1 (be_bytes (of_nat (length block) :: u16) @ block @ xt)" "skip 1 (packet_data p) = b1"
    by (rule skip_step [where n = 1]) simp
  obtain b2 where 2: "at_bytes b2 (block @ xt)"
    "\<forall>(no :: 'db reply) yes. if_get_u16 b1 no yes = yes (htobe (of_nat (length block))) b2" by (rule u16_step [OF 1(1)])
  have size: "unat (of_nat (length block) :: u16) = length block"
    using assms(3) by (simp add: unat_of_nat)
  have room: "\<not> remaining b2 < length block" "take (length block) (unread b2) = block"
    using 2(1) remaining_unread [of b2] by (simp_all add: at_bytes_def)
  obtain b3 where 3: "at_bytes b3 xt" "skip (length block) b2 = b3" by (rule skip_step [OF 2(1) refl])
  obtain d1 where d1: "at_bytes d1 (c_key c @ be_bytes (0 :: u64) @ c_pw c @ 0 # [])"
    "\<forall>(no :: 'db reply) yes. if_get_u8 (buf_of (secret_bytes c)) no yes = yes 10 d1" by (rule u8_step [OF secret_at [OF assms(1)]])
  have key: "\<not> remaining d1 < 16" "take 16 (unread d1) = c_key c"
    using d1(1) remaining_unread [of d1] ok(1) by (simp_all add: at_bytes_def)
  obtain d2 where d2: "at_bytes d2 (be_bytes (0 :: u64) @ c_pw c @ 0 # [])" "skip 16 d1 = d2" by (rule skip_step [OF d1(1) ok(1)])
  obtain d3 where d3: "at_bytes d3 (c_pw c @ 0 # [])"
    "\<forall>(no :: 'db reply) yes. if_get_u64 d2 no yes = yes (htobe 0) d3" by (rule u64_step [OF d2(1)])
  have zero: "htobe (0 :: u64) = 0" using htobe_htobe [of "0 :: u64"] by (simp add: htobe_def be_bytes_def host_bytes_def)
  obtain d4 where d4: "\<forall>(no :: 'db reply) yes. if_get_string d3 no yes = yes (c_pw c) d4" by (rule string_step [OF d3(1) ok(2)])
  show thesis
    by (rule that [OF 3(1)])
      (simp add: read_rsa_block_def Let_def 1(2) 2(2) size room 3(2) assms(4-6) d1(2) key d2(2) d3(2) zero d4 ok(3,4) del: seek.simps One_nat_def)
qed

section \<open>Logging in\<close>

lemma decode_rest_at:
  assumes "client_ok c" "EncryptXTEA (c_key c) (rest_bytes c crcs) = Inr xt" "at_bytes b xt"
    and "length (rest_bytes c crcs) + 64 < size_max"
  shows "\<exists>d. decode_rest (c_key c) b = Inr d \<and> at_bytes d (rest_bytes c crcs)"
proof -
  have "length (c_key c) = 16" using assms(1) by (simp add: client_ok_def)
  moreover have dvd: "8 dvd length (rest_bytes c crcs)" unfolding rest_bytes_def by (rule padded_dvd)
  ultimately have "length xt = length (rest_bytes c crcs)" "DecryptXTEA (c_key c) xt = Inr (rest_bytes c crcs)"
    using xtea_inverse [of "c_key c" "rest_bytes c crcs"] assms(2) by auto
  moreover have "remaining b = length xt" "unread b = xt"
    using assms(3) remaining_unread [of b] by (simp_all add: at_bytes_def)
  ultimately have "decode_rest (c_key c) b = Inr (buf_of (rest_bytes c crcs))"
    using dvd by (simp add: decode_rest_def dvd_eq_mod_eq_0)
  then show ?thesis using at_bytes_buf_of [OF assms(4)] by blast
qed

lemma HandleLoginWorld_at:
  assumes c: "client_ok c" and p: "at_bytes (packet_data p) (login_body first block xt)" "length block < 65536"
    and e: "bind_res (setting ''login'' ''private_exponent'' (config sv)) json_string = Inr e"
    and n: "bind_res (setting ''login'' ''modulus'' (config sv)) json_string = Inr n"
    and secret: "rsa env e n block = Inr (secret_bytes c)"
    and x: "EncryptXTEA (c_key c) (rest_bytes c (served_crcs sv)) = Inr xt"
      "length (rest_bytes c (served_crcs sv)) + 64 < size_max"
    and cache: "list_all (\<lambda>i. map_of (indexes (cache_object sv)) (of_nat i) \<noteq> None) (crc_indexes sv)"
  shows "HandleLoginWorld env p k sv = find_account env k (next_player sv) (c_user c) (c_pw c)
    (sv\<lparr>next_player := next_player sv + 1\<rparr>)
    (enter_world k (next_player sv) (c_mode c) (htobe (c_width c)) (htobe (c_height c)))"
proof -
  obtain b where 1: "at_bytes b xt"
    "\<forall>next :: u8 list \<Rightarrow> cstring \<Rightarrow> buffer \<Rightarrow> 'a reply. read_rsa_block env k p sv next = next (c_key c) (c_pw c) b"
    by (rule read_rsa_block_at [OF c p e n secret])
  obtain d where d: "decode_rest (c_key c) b = Inr d" "at_bytes d (rest_bytes c (served_crcs sv))"
    using decode_rest_at [OF c x(1) 1(1) x(2)] by blast
  obtain z where z: "rest_bytes c (served_crcs sv) = user_bytes c @ settings_bytes c
      @ concat (map be_bytes (served_crcs sv)) @ replicate z 0"
    by (simp add: rest_bytes_def padded_def)
  obtain d1 where 2: "at_bytes d1 (settings_bytes c @ concat (map be_bytes (served_crcs sv)) @ replicate z 0)"
    "\<forall>next :: cstring \<Rightarrow> u8 \<Rightarrow> u16 \<Rightarrow> u16 \<Rightarrow> buffer \<Rightarrow> 'a reply.
       read_user k d sv next = next (c_user c) (c_mode c) (htobe (c_width c)) (htobe (c_height c)) d1"
    by (rule read_user_at [OF d(2) [unfolded z] c])
  obtain d2 where 3: "at_bytes d2 (concat (map be_bytes (served_crcs sv)) @ replicate z 0)"
    "\<forall>next :: buffer \<Rightarrow> 'a reply. skip_settings k d1 sv next = next d2"
    by (rule skip_settings_at [OF 2(1) c])
  have "check_crcs k (crc_indexes sv) d2 sv fin = fin" for fin
    by (rule check_crcs_at [OF cache]) (use 3(1) in \<open>simp add: served_crcs_def comp_def\<close>)
  then show ?thesis using 1(2) d(1) 2(2) 3(2) by (simp add: HandleLoginWorld_def Let_def)
qed

text \<open>Property C5. A client of the right build and cache that knows the account logs in: the packet it
  builds, whatever the fields the server skips, leads with the stored password straight to the
  entry of that account into the world, with the display mode and the screen the client sent, and
  with another password to the refusal.\<close>

theorem login_decides:
  assumes "client_ok c" "packet_type p = kLoginWorld" "length block < 65536"
    and "at_bytes (packet_data p) (be_bytes (of_nat (length (login_body first block xt) + 8) :: u16)
      @ be_bytes (718 :: u32) @ be_bytes (sub :: u32) @ login_body first block xt)" "length (login_body first block xt) + 8 < 65536"
    and "bind_res (setting ''login'' ''private_exponent'' (config sv)) json_string = Inr e"
    and "bind_res (setting ''login'' ''modulus'' (config sv)) json_string = Inr n"
    and "rsa env e n block = Inr (secret_bytes c)"
    and "EncryptXTEA (c_key c) (rest_bytes c (served_crcs sv)) = Inr xt"
    and "list_all (\<lambda>i. map_of (indexes (cache_object sv)) (of_nat i) \<noteq> None) (crc_indexes sv)"
    and "player_lookup (database env) table" "bind_res (setting ''database'' ''mode'' (config sv)) json_string = Inr (ascii ''sqlite'')"
    and "filter (\<lambda>row. row ''username'' = Some (Sql_text (c_user c))) (table (database_state sv)) = [row_of m]"
  shows "LoginPacketHandler_Handle env p k sv =
    (let sv' = (on_session k (set_client_build 718 \<circ> ResetDecoder) sv)\<lparr>next_player := next_player sv + 1\<rparr>
     in if CheckPassword (cryptography env) (c_pw c) 10 (assign_model new_player m)
        then enter_world k (next_player sv) (c_mode c) (htobe (c_width c)) (htobe (c_height c)) m sv'
        else refuse k kErrorInvalidLogin sv')"
proof -
  let ?body = "login_body first block xt" and ?sv = "on_session k (set_client_build 718 \<circ> ResetDecoder) sv"
  obtain b1 where 1: "at_bytes b1 (be_bytes (718 :: u32) @ be_bytes sub @ ?body)"
    "\<forall>(no :: 'a reply) yes. if_get_u16 (packet_data p) no yes = yes (htobe (of_nat (length ?body + 8))) b1"
    using u16_step [OF assms(4)] by metis
  have room: "unat (of_nat (length ?body + 8) :: u16) = remaining b1"
    using 1(1) assms(5) remaining_unread [of b1] by (simp add: at_bytes_def length_be_bytes unat_of_nat del: of_nat_add)
  obtain b2 where 2: "at_bytes b2 (be_bytes sub @ ?body)" "\<forall>(no :: 'a reply) yes. if_get_u32 b1 no yes = yes (htobe 718) b2"
    using u32_step [OF 1(1)] by metis
  obtain b3 where 3: "at_bytes b3 ?body" "\<forall>(no :: 'a reply) yes. if_get_u32 b2 no yes = yes (htobe sub) b3"
    using u32_step [OF 2(1)] by metis
  have crcs: "served_crcs ?sv = served_crcs sv" "crc_indexes ?sv = crc_indexes sv"
    by (simp_all add: served_crcs_def crc_indexes_def)
  have "length (rest_bytes c (served_crcs sv)) = length xt"
    using xtea_inverse [of "c_key c" "rest_bytes c (served_crcs sv)"] assms(1,9) padded_dvd
    by (auto simp: client_ok_def rest_bytes_def)
  then have small: "length (rest_bytes c (served_crcs sv)) + 64 < size_max"
    using assms(5) by (simp add: login_body_def size_max_def)
  have login: "HandleLoginWorld env (p\<lparr>packet_data := b3\<rparr>) k ?sv
      = find_account env k (next_player sv) (c_user c) (c_pw c) (?sv\<lparr>next_player := next_player sv + 1\<rparr>)
          (enter_world k (next_player sv) (c_mode c) (htobe (c_width c)) (htobe (c_height c)))"
    using HandleLoginWorld_at [of c "p\<lparr>packet_data := b3\<rparr>" first block xt ?sv e n env k] assms 3(1) small crcs by simp
  have "GetModel env ''username'' (Sql_text (c_user c)) [] (?sv\<lparr>next_player := next_player sv + 1\<rparr>)
      = Inr ((True, [m]), ?sv\<lparr>next_player := next_player sv + 1\<rparr>)"
    using select_by [OF assms(11), of "?sv\<lparr>next_player := next_player sv + 1\<rparr>" "Sql_text (c_user c)" "[]"] assms(12,13)
    by (simp add: bind_record_row)
  note found = this
  have "LoginPacketHandler_Handle env p k sv = HandleLoginWorld env (p\<lparr>packet_data := b3\<rparr>) k ?sv"
    using 1(2) room 2(2) 3(2) assms(2) by (simp add: LoginPacketHandler_Handle_def Let_def on_session_comp)
  then show ?thesis unfolding login find_account_def found by (simp add: Let_def)
qed

text \<open>A client with a name of one letter and the database of one row.\<close>

definition sample_client :: client_login where
  "sample_client = \<lparr>c_key = replicate 16 7, c_pw = [98, 98, 98], c_user = [97], c_mode = 1, c_width = 800, c_height = 600,
     c_machine = replicate 25 0, c_settings = [], c_affiliate = replicate 4 0, c_hardware = [1, 2], c_ids = replicate 12 0,
     c_extra = Some [99], c_more = replicate 8 0, c_game = [], c_flag = 0\<rparr>"

definition sample_account :: player_model where
  "sample_account = new_player_model\<lparr>account := new_player_columns\<lparr>username := [97], password := [98, 98, 98]\<rparr>\<rparr>"

theorem login_decides_witness:
  "\<exists>xt. EncryptXTEA (replicate 16 7) (rest_bytes sample_client []) = Inr xt
    \<and> LoginPacketHandler_Handle table_env (make_packet kLoginWorld (buf_of (be_bytes (of_nat (length (login_body 0 (secret_bytes sample_client) xt) + 8) :: u16)
        @ be_bytes (718 :: u32) @ be_bytes (0 :: u32) @ login_body 0 (secret_bytes sample_client) xt))) 0
        (table_server\<lparr>database_state := [row_of sample_account]\<rparr>)
      = enter_world 0 0 1 (htobe 800) (htobe 600) sample_account
          ((on_session 0 (set_client_build 718 \<circ> ResetDecoder) (table_server\<lparr>database_state := [row_of sample_account]\<rparr>))\<lparr>next_player := 1\<rparr>)"
proof -
  let ?sv = "table_server\<lparr>database_state := [row_of sample_account]\<rparr>"
  have c: "client_ok sample_client" by (simp add: client_ok_def sample_client_def plain_def)
  have none: "crc_indexes ?sv = []" by (simp add: crc_indexes_def table_server_def GetTypeCount_def)
  have rest: "length (rest_bytes sample_client []) < 1000"
    by (simp add: rest_bytes_def padded_def user_bytes_def settings_bytes_def sample_client_def length_be_bytes)
  have dvd: "8 dvd length (rest_bytes sample_client [])" unfolding rest_bytes_def by (rule padded_dvd)
  obtain xt where x: "EncryptXTEA (replicate 16 7) (rest_bytes sample_client []) = Inr xt" "length xt = length (rest_bytes sample_client [])"
    using xtea_inverse [of "replicate 16 7" "rest_bytes sample_client []"] dvd by auto
  have secret: "length (secret_bytes sample_client) = 29" by (simp add: secret_bytes_def sample_client_def length_be_bytes)
  let ?body = "login_body 0 (secret_bytes sample_client) xt"
  have body: "length ?body < 2000" using x(2) rest secret by (simp add: login_body_def length_be_bytes)
  let ?p = "make_packet kLoginWorld (buf_of (be_bytes (of_nat (length ?body + 8) :: u16) @ be_bytes (718 :: u32) @ be_bytes (0 :: u32) @ ?body))"
  have at: "at_bytes (packet_data ?p) (be_bytes (of_nat (length ?body + 8) :: u16) @ be_bytes (718 :: u32) @ be_bytes (0 :: u32) @ ?body)"
    unfolding make_packet_sel by (rule at_bytes_buf_of) (use body in \<open>simp add: length_be_bytes size_max_def\<close>)
  have d: "list_all (\<lambda>(a, b, v). setting a b (config ?sv) = Inr v) default_settings"
    by (rule default_setting) (simp add: table_server_def)
  obtain e n where config: "bind_res (setting ''login'' ''private_exponent'' (config ?sv)) json_string = Inr e"
    "bind_res (setting ''login'' ''modulus'' (config ?sv)) json_string = Inr n"
    using d by (auto simp: default_settings_def json_string_def)
  have mode: "bind_res (setting ''database'' ''mode'' (config ?sv)) json_string = Inr (ascii ''sqlite'')"
    using table_config(1) by simp
  have env: "rsa table_env e n (secret_bytes sample_client) = Inr (secret_bytes sample_client)" "player_lookup (database table_env) (\<lambda>s. s)"
    by (simp_all add: table_env_def list_table_lookup)
  have row: "filter (\<lambda>row. row ''username'' = Some (Sql_text (c_user sample_client))) (database_state ?sv) = [row_of sample_account]"
    by (simp add: row_username sample_account_def sample_client_def)
  have "CheckPassword (cryptography table_env) (c_pw sample_client) 10 (assign_model new_player sample_account)"
    by (simp add: CheckPassword_def EncodePassword_def table_env_def sample_account_def sample_client_def assign_model_def)
  then show ?thesis
    using login_decides [of sample_client ?p "secret_bytes sample_client" 0 xt 0 ?sv e n table_env "\<lambda>s. s" sample_account 0]
      c secret at body config env x(1) none mode row
    by (simp add: make_packet_sel served_crcs_def sample_client_def table_server_def Let_def)
qed

end
