(* ===== verification/Entering.thy ===== *)
theory Entering
  imports LoginPackets
begin

text \<open>
  Entering the world: for an account whose fields have a place in the packets, in a world whose
  players have a place in the update, and with the keys of the maps in the configuration, the
  operations that start a game have no exception and no undefined behaviour to end in.
\<close>

section \<open>Updates of players\<close>

lemma put_bits_room:
  fixes dat :: "'a::len word"
  assumes "0 < n" "n \<le> LENGTH('a)" "bit_position b + n \<le> 8 * buf_size (base b)"
  shows "\<exists>b'. put_bits n dat b = Inr b' \<and> buf_size (base b') = buf_size (base b)"
  by (rule put_bits_spec [OF assms, of dat]) force

text \<open>A place in the update: the index of the viewer, who is left out, or one below 2046.\<close>

definition seated :: "nat \<Rightarrow> nat \<Rightarrow> bool" where
  "seated kPlayerIndex i \<longleftrightarrow> i = kPlayerIndex \<or> i < 2046"

lemma put_local_players_ok:
  assumes "list_all (\<lambda>(i, _). seated kp i) ps" "buf_size (base b) = 4608"
  shows "\<exists>b'. put_local_players heap kp ps b = Inr b'"
  using assms
proof (induction ps arbitrary: b)
  case (Cons p ps)
  obtain i r where p: "p = (i, r)" by (cases p)
  show ?case
  proof (cases "i = kp")
    case False
    let ?b = "bit_seek Seek_set (30 + 18 * i) b"
    have "i < 2046" using Cons.prems(1) p False by (simp add: seated_def)
    then have "bit_position ?b + 18 \<le> 8 * buf_size (base ?b)" using Cons.prems(2) by (simp add: bit_seek_def)
    from put_bits_room [OF _ _ this, of "region_hash (player_tile (heap r))"]
    obtain b' where "put_bits 18 (region_hash (player_tile (heap r))) ?b = Inr b'" "buf_size (base b') = buf_size (base ?b)"
      by auto
    then show ?thesis using Cons.IH [of b'] Cons.prems p False by (simp add: bit_seek_def)
  qed (use Cons p in simp)
qed simp

lemma GetLocalPlayerUpdate_ok:
  assumes "map_of (worlds sv) 1 = Some w" "list_all (\<lambda>(i, _). seated (unat kPlayerIndex) i) (players w)"
  shows "\<exists>b. GetLocalPlayerUpdate 1 kPlayerIndex p empty_bitbuffer sv = Inr b"
proof -
  let ?b = "bb_lift (\<lambda>c. c\<lparr>bytes := resize_bytes ((30 + 2046 * 18 + 7) div 8) (bytes c)\<rparr>) empty_bitbuffer"
  have b: "buf_size (base ?b) = 4608" "bit_position ?b = 0"
    by (simp_all add: bb_lift_def empty_bitbuffer_def empty_buffer_def resize_bytes_def)
  have "bit_position ?b + 30 \<le> 8 * buf_size (base ?b)" unfolding b by simp
  from put_bits_room [OF _ _ this, of "tile_hash (player_tile p)"]
  obtain b' where "put_bits 30 (tile_hash (player_tile p)) ?b = Inr b'" "buf_size (base b') = buf_size (base ?b)"
    by auto
  then show ?thesis
    using put_local_players_ok [OF assms(2), of b'] assms(1) b(1) by (simp add: GetLocalPlayerUpdate_def world_checked_def)
qed

lemma flags_out: "\<exists>b. put_flags [(1, 1), (1, 0), (2, 0), (1, 0)] empty_bitbuffer = Inr b"
  and flags_in: "\<exists>b. put_flags [(1, 1), (1, 1), (2, 0)] empty_bitbuffer = Inr b"
  by (simp_all add: put_flags_def put_bits_def empty_bitbuffer_def bit_byte_position_def put_bits_loop.simps
      empty_buffer_def modify_byte_def resize_bytes_def size_add_def size_max_def drop_bit_eq_div)

lemma move_update_ok: "\<exists>b. move_update p previous current = Inr b"
  using flags_out flags_in by (auto simp: move_update_def Let_def)

lemma move_loop_ok: "\<exists>sv'. move_loop ps previous current sv = Inr sv'"
proof (induction ps arbitrary: sv)
  case (Cons p ps)
  obtain i r where p: "p = (i, r)" by (cases p)
  obtain b where "move_update (player_heap sv r) previous current = Inr b" using move_update_ok by blast
  then show ?case using Cons p by (auto split: option.splits)
qed simp

section \<open>The map\<close>

text \<open>The keys of the maps are lists of numbers, by the number of the region.\<close>

definition keys_ok :: "json \<Rightarrow> bool" where
  "keys_ok keys \<longleftrightarrow> (case keys of
     Json_object kvs \<Rightarrow> list_all (\<lambda>(_, j). case json_u32s j of Inl _ \<Rightarrow> False | Inr _ \<Rightarrow> True) kvs | _ \<Rightarrow> True)"

lemma put_regions_ok:
  assumes "json_at cfg ''map_archive_keys'' = Inr keys" "keys_ok keys"
  shows "\<exists>b'. put_regions cfg rs b = Inr b'"
proof (induction rs arbitrary: b)
  case (Cons x xs)
  have "\<exists>b'. put_region_keys cfg x b = Inr b'"
  proof (cases "json_contains keys (to_string (unat x))")
    case True
    then obtain kvs j where k: "keys = Json_object kvs" "map_of kvs (to_string (unat x)) = Some j"
      by (auto simp: json_contains_def split: json.splits)
    then have "case json_u32s j of Inl _ \<Rightarrow> False | Inr _ \<Rightarrow> True"
      using assms(2) map_of_SomeD [OF k(2)] by (auto simp: keys_ok_def list_all_iff)
    then obtain ks where "json_u32s j = Inr ks" by (cases "json_u32s j") simp_all
    then show ?thesis using True k assms(1) by (simp add: put_region_keys_def json_at_def)
  qed (use assms(1) in \<open>simp add: put_region_keys_def\<close>)
  then show ?case using Cons by auto
qed simp

section \<open>The start of a game\<close>

text \<open>What the server needs for it: the world, with a place for everyone else, and the configuration.\<close>

definition open_for :: "u32 \<Rightarrow> 'db server \<Rightarrow> bool" where
  "open_for i sv \<longleftrightarrow>
     (\<exists>w. map_of (worlds sv) 1 = Some w \<and> list_all (\<lambda>(j, _). seated (unat i) j) (players w))
   \<and> (\<exists>cfg keys. cache_config_at 718 (config sv) = Inr cfg \<and> json_at cfg ''map_archive_keys'' = Inr keys \<and> keys_ok keys)
   \<and> (\<exists>name. bind_res (setting_of_copy ''server'' ''name'' (config sv)) json_string = Inr name)
   \<and> (\<exists>url. bind_res (setting_of_copy ''server'' ''source_url'' (config sv)) json_string = Inr url)"

lemma open_for_cong: "worlds sv' = worlds sv \<Longrightarrow> config sv' = config sv \<Longrightarrow> open_for i sv' = open_for i sv"
  by (simp add: open_for_def)

lemma SendMapRegion_ok:
  assumes "open_for (player_index (session_at sv k)) sv"
  shows "\<exists>f. SendMapRegion r k upd sv = Inr (on_session k f sv)"
proof -
  obtain w where w: "map_of (worlds sv) 1 = Some w" "list_all (\<lambda>(j, _). seated (unat (player_index (session_at sv k))) j) (players w)"
    using assms by (auto simp: open_for_def)
  obtain cfg keys where c: "cache_config_at 718 (config sv) = Inr cfg" "json_at cfg ''map_archive_keys'' = Inr keys" "keys_ok keys"
    using assms by (auto simp: open_for_def)
  obtain b where l: "local_update_first upd r k sv = Inr b"
    using GetLocalPlayerUpdate_ok [OF w] by (cases upd) (auto simp: local_update_first_def)
  have "\<exists>f. bind_res (put_regions cfg rs b) (\<lambda>b. Inr (on_session k (Send (make_packet kMapRegion (base b))) sv))
      = Inr (on_session k f sv)" for rs b
    using put_regions_ok [OF c(2,3), of rs b] by auto
  then show ?thesis unfolding SendMapRegion_def Let_def l c(1) bind_res_simps .
qed

lemma StartPlayer_ok:
  assumes "open_for (player_index (session_at sv k)) sv"
  shows "\<exists>sv'. StartPlayer r k sv = Inr sv'"
proof -
  obtain f where m: "SendMapRegion r k True sv = Inr (on_session k f sv)" using SendMapRegion_ok [OF assms] by blast
  obtain w where "map_of (worlds sv) 1 = Some w" using assms by (auto simp: open_for_def)
  moreover obtain name where "bind_res (setting_of_copy ''server'' ''name'' (config sv)) json_string = Inr name"
    using assms unfolding open_for_def by blast
  moreover obtain url where "bind_res (setting_of_copy ''server'' ''source_url'' (config sv)) json_string = Inr url"
    using assms unfolding open_for_def by blast
  ultimately show ?thesis
    using m by (simp add: StartPlayer_def SendMap_def Let_def in_turn_on_def SendMultiCombatArea_def world_checked_def)
qed

lemma HandleEvent_login_ok:
  assumes "open_for (player_index (session_at sv k)) sv"
  shows "\<exists>sv'. HandleEvent_login r k sv = Inr (True, sv')"
proof -
  let ?i = "player_index (session_at sv k)"
  let ?sv = "if ?i \<in> dom (player_sessions sv) then sv else sv\<lparr>player_sessions := (player_sessions sv)(?i \<mapsto> k)\<rparr>"
  have "session_at ?sv k = session_at sv k" by (simp add: session_at_def)
  then have "open_for (player_index (session_at ?sv k)) ?sv" using assms open_for_cong [of ?sv sv] by simp
  then obtain sv1 where s: "StartPlayer r k ?sv = Inr sv1" using StartPlayer_ok by blast
  have "\<exists>b sv2. HandleEvent_move r t sv1 = Inr (b, sv2)" for t
    using move_loop_ok [of _ t _ sv1] by (auto simp: HandleEvent_move_def split: option.splits) (metis bind_res_simps(2))
  then show ?thesis unfolding HandleEvent_login_def Let_def s bind_res_simps by (metis (no_types, lifting) bind_res_simps(2) case_prod_conv)
qed

section \<open>Entering\<close>

text \<open>The index of a newcomer stays small, and everyone else has a place.\<close>

lemma newcomer_seated:
  assumes "world_ok w" "list_all (\<lambda>(j, _). j < 2046) (players w)" "add_player r w = (i, w')"
  shows "i \<le> 2047 \<and> list_all (\<lambda>(j, _). seated i j) (players w')"
proof -
  have d: "distinct (map fst (players w))" using assms(1) by (simp add: world_ok_def strict_sorted_iff)
  have low: "set (map fst (players w)) \<subseteq> {..<2046}" using assms(2) by (auto simp: list_all_iff)
  have "length (map fst (players w)) \<le> card {..<2046::nat}"
    unfolding distinct_card [OF d, symmetric] by (rule card_mono [OF finite_lessThan low])
  then have "length (players w) \<le> 2046" by simp
  moreover have "first_free w \<le> length (players w)"
    unfolding first_free_def by (rule order_trans [OF length_takeWhile_le]) simp
  ultimately have "i \<le> 2047" using add_player_index [OF assms(1), of r] assms(3) by (auto split: if_splits)
  moreover have "players w' = insert_new i r (players w)" using assms(3) by (auto simp: add_player_def Let_def)
  then have "set (map fst (players w')) = insert i (set (map fst (players w)))" by (simp only: set_insert_new)
  then have "fst ` set (players w') \<subseteq> insert i {..<2046}" using low by auto
  then have "list_all (\<lambda>(j, _). seated i j) (players w')" by (auto simp: list_all_iff seated_def)
  ultimately show ?thesis by blast
qed

definition account_fits :: "player_model \<Rightarrow> bool" where
  "account_fits m \<longleftrightarrow> sint (rights (account m)) \<le> 255 \<and> sint (model_id m) \<le> 65535"

definition game_configured :: "config_manager \<Rightarrow> bool" where
  "game_configured cm \<longleftrightarrow>
     (\<exists>cfg keys. cache_config_at 718 cm = Inr cfg \<and> json_at cfg ''map_archive_keys'' = Inr keys \<and> keys_ok keys)
   \<and> (\<exists>name. bind_res (setting_of_copy ''server'' ''name'' cm) json_string = Inr name)
   \<and> (\<exists>url. bind_res (setting_of_copy ''server'' ''source_url'' cm) json_string = Inr url)"

text \<open>Property C20. An account enters the world: when its rights and its number have a place in the
  packet, the players of the world a place in the update, and the maps their keys in the
  configuration, the entry ends without an exception, the session is in the world, and it stands
  for that account under the index the world gave it.\<close>

theorem enter_world_completes:
  assumes "session_heap sv k = Some s" "account_fits m" "game_configured (config sv)"
    and "map_of (worlds sv) 1 = Some w" "world_ok w" "list_all (\<lambda>(j, _). j < 2046) (players w)"
  shows "\<exists>sv' t. enter_world k r md width height m sv = Inr sv' \<and> session_heap sv' k = Some t
    \<and> mode t = (status s, World_decoder, World_encoder, World_handler) \<and> model (player_heap sv' r) = m"
proof -
  let ?p = "set_screen_height (betoh height) (set_screen_width (betoh width) (set_display_mode md (assign_model new_player m)))"
  let ?f = "set_player_world 1 \<circ> SetHandler World_handler \<circ> SetEncoder World_encoder \<circ> SetDecoder World_decoder"
  let ?sv1 = "on_session k ?f (on_player r (\<lambda>_. ?p) sv)"
  obtain i w' where a: "add_player r w = (i, w')" by fastforce
  have i: "i \<le> 2047" "list_all (\<lambda>(j, _). seated i j) (players w')" using newcomer_seated [OF assms(5,6) a] by auto
  have add: "add_player_to 1 r ?sv1 = (of_nat i, set_world 1 w' ?sv1)"
    using assms(4) a by (simp add: add_player_to_def world_at_def)
  let ?sv2 = "on_session k (set_player_index (of_nat i)) (set_world 1 w' ?sv1)"
  have w2: "map_of (worlds ?sv2) 1 = Some w'" by simp
  have w3: "config ?sv2 = config sv" "model (player_heap ?sv2 r) = m" by (simp_all add: assign_model_def set_world_def)
  obtain g where d: "SendLoginDetails r k ?sv2 = Inr (on_session k (Send g) ?sv2)"
    using assms(2) w2 w3 by (simp add: SendLoginDetails_def account_fits_def world_checked_def Let_def not_less)
  let ?sv3 = "on_session k (Send g) ?sv2"
  have "player_index (session_at ?sv3 k) = of_nat i"
    using assms(1) by (simp add: session_at_def Send_output set_world_def session_ops)
  moreover have "unat (of_nat i :: u32) = i" using i(1) by (simp add: unat_of_nat)
  ultimately have "open_for (player_index (session_at ?sv3 k)) ?sv3"
    using assms(3) w2 w3(1) i(2) by (simp add: open_for_def game_configured_def)
  then obtain sv' where h: "HandleEvent_login r k ?sv3 = Inr (True, sv')" using HandleEvent_login_ok by blast
  have e: "enter_world k r md width height m sv = Inr sv'"
    unfolding enter_world_def Let_def add prod.case d bind_res_simps h ..
  from enter_world_enters [of k sv r m md width height] have "serves k entering sv sv'" "model (player_heap sv' r) = m"
    unfolding e by simp_all
  moreover from this(1) have "rel_option entering (Some s) (session_heap sv' k)"
    using assms(1) unfolding serves_def by (metis (full_types))
  ultimately show ?thesis using e by (auto simp: option_rel_Some1 entering_def)
qed

text \<open>The account of the sample client, on a server whose cache configuration has no keys.\<close>

definition open_server :: "(string \<rightharpoonup> sql_value) list server" where
  "open_server = table_server\<lparr>config := (config table_server)\<lparr>cache_config :=
     [718 \<mapsto> Json_object [(''map_archive_keys'', Json_object [])]]\<rparr>\<rparr>"

theorem enter_world_completes_witness:
  "\<exists>sv t. enter_world 0 0 1 800 600 sample_account open_server = Inr sv \<and> session_heap sv 0 = Some t
    \<and> session_handler t = World_handler \<and> username (account (model (player_heap sv 0))) = [97]"
proof -
  let ?cm = "config open_server"
  have "json_config ?cm = default_config" by (simp add: open_server_def table_server_def)
  then have d: "list_all (\<lambda>(a, b, v). setting a b ?cm = Inr v) default_settings" by (rule default_setting)
  then have "setting ''server'' ''name'' ?cm = Inr (json_text ''OpenRS'')" "setting ''server'' ''source_url'' ?cm = Inr (json_text [])"
    by (simp_all add: default_settings_def)
  then have "setting_of_copy ''server'' ''name'' ?cm = Inr (json_text ''OpenRS'')"
    "setting_of_copy ''server'' ''source_url'' ?cm = Inr (json_text [])" by (auto intro: setting_copied)
  then have "game_configured ?cm"
    by (simp add: game_configured_def cache_config_at_def open_server_def json_string_def json_at_def keys_ok_def)
  moreover have "account_fits sample_account"
    by (simp add: account_fits_def sample_account_def new_player_columns_def new_player_model_def)
  moreover have "session_heap open_server 0 = Some (new_session 0)" "map_of (worlds open_server) 1 = Some new_world"
    by (simp_all add: open_server_def table_server_def)
  moreover have "world_ok (new_world :: nat world)" "players (new_world :: nat world) = []"
    by (simp_all add: world_ok_def new_world_def)
  ultimately show ?thesis
    using enter_world_completes [of open_server 0 "new_session 0" sample_account new_world 0 1 800 600]
    by (auto simp: mode_def sample_account_def)
qed

end
