(* ===== verification/Attempts.thy ===== *)
theory Attempts
  imports Reads
begin

text \<open>
  A connection has one attempt to log in. The login handler puts the base decoder in place before
  it looks at the packet, and only a login that succeeds replaces it; without the login decoder
  no later packet is a login.
\<close>

definition login_over :: "session \<Rightarrow> bool" where
  "login_over s \<longleftrightarrow> session_handler s = Login_handler \<and> session_decoder s = Base_decoder"

definition attempted :: "nat \<Rightarrow> 'db server \<Rightarrow> bool" where
  "attempted k sv \<longleftrightarrow> (\<exists>t. session_heap sv k = Some t \<and> (session_handler t = World_handler \<or> login_over t))"

fun mode_over :: "mode \<Rightarrow> bool" where
  "mode_over (st, d, e, h) \<longleftrightarrow> h = Login_handler \<and> d = Base_decoder"

lemma mode_over_step: "mode_step m m' \<Longrightarrow> mode_over m \<Longrightarrow> mode_over m'"
  by (cases rule: mode_step.cases) auto

lemma mode_over_steps: "mode_step\<^sup>*\<^sup>* m m' \<Longrightarrow> mode_over m \<Longrightarrow> mode_over m'"
  by (induction rule: rtranclp_induct) (blast intro: mode_over_step)+

lemma login_over_steps: "mode_step\<^sup>*\<^sup>* (mode s) (mode t) \<Longrightarrow> login_over s \<Longrightarrow> login_over t"
  using mode_over_steps [of "mode s" "mode t"] by (simp add: login_over_def mode_def)

lemma heap_on_session: "session_heap sv k = Some s \<Longrightarrow> session_heap (on_session k f sv) k = Some (f s)"
  by (simp add: on_session_def)

lemma attempted_on_session:
  assumes "session_heap sv k = Some s" "login_over (f s)"
  shows "attempted k (on_session k f sv)"
  using assms by (simp add: attempted_def on_session_def)

lemma login_over_said: "said s t \<Longrightarrow> login_over s \<Longrightarrow> login_over t"
  by (auto simp: said_def login_over_def)

lemma attempted_serves:
  assumes "session_heap sv k = Some s" "login_over s" "serves k R sv sv'"
    and "\<And>t. R s t \<Longrightarrow> session_handler t = World_handler \<or> login_over t"
  shows "attempted k sv'"
proof -
  have "rel_option R (session_heap sv k) (session_heap sv' k)" using assms(3) by (auto simp: serves_def dest: spec [of _ k])
  then show ?thesis using assms(1,4) by (auto simp: attempted_def option_rel_Some1)
qed

lemma LoginPacketHandler_attempted:
  assumes "session_heap sv k = Some s" "session_handler s = Login_handler"
  shows "ends (attempted k) (LoginPacketHandler_Handle env p k sv)"
proof -
  let ?sv = "on_session k ResetDecoder sv"
  have s: "session_heap ?sv k = Some (ResetDecoder s)" "login_over (ResetDecoder s)"
    using assms heap_on_session [OF assms(1)] by (simp_all add: login_over_def ResetDecoder_def)
  have reset: "attempted k ?sv"
    using assms(2) by (intro attempted_on_session [OF assms(1)]) (simp add: login_over_def ResetDecoder_def)
  have outdated: "attempted k (on_session k (SendOpCode t \<circ> ResetEncoder) ?sv)" for t
    using assms(2) by (intro attempted_on_session [OF s(1)])
      (auto simp: login_over_def session_ops intro!: login_over_said [OF quietD [OF quiet_SendOpCode], unfolded login_over_def])
  have b: "session_heap (on_session k (set_client_build c) ?sv) k = Some (set_client_build c (ResetDecoder s))"
    "login_over (set_client_build c (ResetDecoder s))" for c
    using heap_on_session [OF s(1)] s(2) by (simp_all add: login_over_def set_client_build_def)
  have build: "attempted k (on_session k (set_client_build c) ?sv)" for c
    using b [of c] by (auto simp: attempted_def)
  have world: "ends (attempted k) (HandleLoginWorld env q k (on_session k (set_client_build c) ?sv))" for q c
  proof (rule ends_mono [OF HandleLoginWorld_outcome])
    let ?sv2 = "on_session k (set_client_build c) ?sv"
    fix sv'
    assume "talks ?sv2 sv' \<or> (\<exists>user pw m. offered env k q ?sv2 user pw
        \<and> owns env (next_player ?sv2) user pw (?sv2\<lparr>next_player := next_player ?sv2 + 1\<rparr>) m
        \<and> serves k entering ?sv2 sv' \<and> model (player_heap sv' (next_player ?sv2)) = m)"
    then have "serves k (\<lambda>s t. said s t \<or> entering s t) ?sv2 sv'"
      by (auto intro: talks_serves serves_mono)
    then show "attempted k sv'"
      by (rule attempted_serves [OF b]) (auto intro: login_over_said [OF _ b(2)] simp: entering_def mode_def)
  qed
  show ?thesis
    unfolding LoginPacketHandler_Handle_def Let_def
    by (intro ends_intros) (use reset outdated build world in simp_all)
qed

lemma Read_login_over:
  assumes "session_heap sv k = Some s" "login_over s" "Read env now rs k sv = Some r"
  shows "ends (\<lambda>(_, sv'). \<exists>t. session_heap sv' k = Some t \<and> login_over t) r"
proof (rule ends_mono [OF Read_proceeds [OF assms(3)]])
  show "session_heap sv k \<noteq> None" using assms(1) by simp
  fix x :: "read_result list \<times> 'a server"
  obtain rs' sv' where x: "x = (rs', sv')" by (cases x)
  assume "case x of (_, sv') \<Rightarrow> serves k proceeds sv sv'"
  then have "rel_option proceeds (session_heap sv k) (session_heap sv' k)"
    unfolding x serves_def by (auto dest: spec [of _ k])
  then obtain t where "session_heap sv' k = Some t" "proceeds s t"
    unfolding assms(1) by (auto simp: option_rel_Some1)
  then show "case x of (_, sv') \<Rightarrow> \<exists>t. session_heap sv' k = Some t \<and> login_over t"
    using login_over_steps [of s t] assms(2) by (simp add: proceeds_def x)
qed

text \<open>Property C24. A connection can try to log in once: a packet in the login handler either puts its
  session into the world or leaves it without the login decoder, and a session without it stays
  so whatever it reads afterwards.\<close>

theorem one_login_attempt:
  assumes "session_heap sv k = Some s" "session_handler s = Login_handler"
  shows "ends (\<lambda>sv'. \<exists>t. session_heap sv' k = Some t \<and> (session_handler t = World_handler \<or> login_over t))
      (LoginPacketHandler_Handle env p k sv)
    \<and> (login_over s \<longrightarrow> (case Read env now rs k sv of
         None \<Rightarrow> True
       | Some r \<Rightarrow> ends (\<lambda>(_, sv'). \<exists>t. session_heap sv' k = Some t \<and> login_over t) r))"
  using LoginPacketHandler_attempted [OF assms, of env p] Read_login_over [OF assms(1), of env now rs]
  by (auto simp: attempted_def [abs_def] split: option.split)

text \<open>A fresh login session that gets an empty packet.\<close>

theorem one_login_attempt_witness:
  "ends (\<lambda>sv'. \<exists>t. session_heap sv' 0 = Some t \<and> (session_handler t = World_handler \<or> login_over t))
     (LoginPacketHandler_Handle sample_env new_packet 0 (start_login 0 sample_server))"
proof -
  have "\<exists>s. session_heap (start_login 0 sample_server) 0 = Some s \<and> session_handler s = Login_handler"
    by (simp add: start_login_def on_session_def sample_server_def session_ops SendOpCode_def Send_output)
  then show ?thesis using one_login_attempt [of "start_login 0 sample_server" 0] by blast
qed

end
