(* ===== verification/Spec2Isabelle.thy ===== *)
theory Spec2Isabelle
  imports BufferFields Checksum Events Columns Startup Returns Downloads Entering Attempts
begin

text \<open>
  A verification development for the openrs server: a game server that hands its clients the game's
  cache of files, logs them in against a database and keeps them in a world. One thread polls the
  sockets; every packet is read, decoded, handled and answered in a callback of that poll.

  \<^bold>\<open>The program and the theories.\<close> Every theory names its sources; the paths are those under
  \<open>src/\<close>. From the bottom up:

  \<^item> \<open>Prelude\<close>: machine integers as words of their width, byte orders on a little-endian host,
    faults (\<open>fault\<close>) and results that carry one (\<open>'a res\<close>, with \<open>bind_res\<close>), the wrap-around of
    \<open>size_t\<close>. An exception that nobody in the program catches, a pointer that is thrown and
    undefined behaviour are faults of different constructors.
  \<^item> \<open>Buffer\<close>, \<open>BufferFields\<close>, \<open>Bits\<close>, \<open>BitBuffer\<close> (\<open>common/io\<close>): the byte and bit buffers
    every message is built with.
  \<^item> \<open>Checksum\<close>, \<open>Xtea\<close> (\<open>common/crc.h\<close>, \<open>common/crypt/xtea.h\<close>), \<open>Events\<close> (\<open>common/event\<close>,
    \<open>common/log.h\<close>).
  \<^item> \<open>FileStream\<close>, \<open>Archive\<close>, \<open>RefTable\<close>, \<open>CacheIndex\<close> (\<open>cache\<close>): the cache of files. An archive is
    a chain of blocks in the data file that an index file points into; the reference tables
    describe the archives of each index.
  \<^item> \<open>Json\<close>, \<open>JsonPrinter\<close>, \<open>JsonLexer\<close>, \<open>JsonParser\<close> (\<open>external/json\<close>, the bundled single header):
    JSON values, and the printing and reading of their texts, on which the configuration rests.
  \<^item> \<open>Columns\<close> (\<open>database\<close>): column sets, the commands a model composes from them, binding.
  \<^item> \<open>Tiles\<close>, \<open>Actors\<close>, \<open>Skills\<close>, \<open>Players\<close>, \<open>Worlds\<close> (\<open>game\<close>): the data model of the game.
  \<^item> \<open>Packets\<close>, \<open>Encoders\<close>, \<open>Decoders\<close>, \<open>Sockets\<close>, \<open>Sessions\<close> (\<open>openrs/net\<close>): packets, the four
    codecs, descriptors, and the state of a connection.
  \<^item> \<open>Config\<close>, \<open>Interfaces\<close>, \<open>Servers\<close>, \<open>WorldManager\<close> (\<open>openrs/manager\<close>): the managers. Their
    singletons are the fields of one record, \<open>server\<close>, in \<open>Servers\<close>; players and sessions, which
    are shared by pointer, live in heaps of it, and a weak pointer finds \<open>None\<close> there.
  \<^item> \<open>Handlers\<close>, \<open>Logins\<close> (\<open>openrs/net/codec/handler\<close>): what a packet does to the server, and the
    loop of \<open>Session::Read\<close>.
  \<^item> \<open>Reactor\<close> (\<open>openrs/net/reactor.cpp\<close>, \<open>net/io/epoll.h\<close>, \<open>net/io/channel.h\<close>): the poll object,
    the channels and the table of sessions.
  \<^item> \<open>Startup\<close> (\<open>main.cpp\<close>): the order of initialisation, the loop and the exit codes.

  The other theories hold proofs about several of these: \<open>Modes\<close> the life of a session as a state
  machine (\<open>mode_step\<close>, \<open>mode_ok\<close>) and the frame of every operation (\<open>said\<close>: only output;
  \<open>talks\<close>: only output of any session; \<open>serves k R\<close>: session \<open>k\<close> changes as \<open>R\<close> allows, the
  others only their output); \<open>Accounts\<close> the outcomes of a login; \<open>Reads\<close> the read loop; \<open>Polls\<close> the
  invariant of the reactor, over the inductive \<open>reachable\<close>; \<open>Returns\<close> the end of a poll; \<open>Grabs\<close>
  and \<open>Downloads\<close> a download from the bytes of the requests to the bytes of the answers;
  \<open>Registration\<close> a first login and a later one; \<open>LoginPackets\<close> the login packet a client builds, read
  back field by field; \<open>Entering\<close> the start of a game; \<open>Attempts\<close> the one attempt a connection has;
  \<open>JsonText\<close> and \<open>Utf8\<close> that the decimals and strings the JSON printer writes are those the scanner
  reads, \<open>JsonRoundtrip\<close> the same for documents, \<open>JsonReads\<close> what reading any text leaves.

  \<^bold>\<open>Contracts.\<close> Four locales state what one part relies on in another. \<open>packet_decoder\<close> (a decoder
  does not fault, keeps the bytes and makes progress) and its extension \<open>bounded_decoder\<close> (it stays
  within the input) are interpreted on the four decoders, the first also on the dispatch \<open>Decode d\<close>;
  \<open>packet_encoder\<close> (an encoder appends the image of its packet and tells whether there is one) on
  the four encoders and on \<open>Encode e\<close>, and sending rests on it; \<open>block_cipher\<close> on XTEA. The
  contract of the database is a pair of hypotheses in \<open>Registration\<close>: \<open>player_lookup\<close> (a selection by
  name returns the rows of that name) and \<open>player_table\<close> (besides, an insert that succeeds adds its
  row, one that fails changes nothing, and none succeeds with a name that is there already, as the
  column is \<open>UNIQUE\<close>). What is asked of the shortest decimals of floating-point numbers is
  \<open>floats_print\<close> of \<open>JsonRoundtrip\<close>.

  \<^bold>\<open>What is shown.\<close> For the parts: round trips of buffers, tables, rows, ciphers and JSON documents;
  the bit buffer refines a bit string, the graphics of an entity a stack, the level of a skill is
  the number of thresholds passed; what the checksum detects; what each compression of an archive
  gives; what reference tables with digests are decoded to; that every document parsed can be
  printed, at indentations the string of spaces of the printer is long enough for. For the cache: a chain of blocks reads back as its
  payload, reading leaves the files as they are, opening the cache ends exactly when the main index
  is short enough, and it describes every index. For the server: a read returns whatever is sent, a
  poll returns unless a write is held, the table of sessions, the channels and the kernel agree in
  every reachable state, a login enters only with the password of its account and the packet of a
  client that knows it leads there, the entry completes when the account, the world and the
  configuration fit, a registered name opens to its password whatever is registered after it, a connection has one attempt,
  requests are answered in order with the stored containers, the default configuration is the same
  after it has been written and read back, and \<open>main\<close> gets to its loop with it and stays in
  reachable states. Theorems about defects state what the code does, not what it means to do.

  \<^bold>\<open>Loops and bounds.\<close> Loops over data are structural or have a measure; four may not end and are
  partial functions into \<open>option\<close>, where \<open>None\<close> is a loop that does not: the comparison of graphics,
  the writing of a C string, opening the indexes and the read loop. Each has a theorem that says
  when it returns. There is no fuel in the model; the loop of \<open>main\<close>, which does not end by itself,
  is followed for as many polls as a list of kernels has. The loop of the JSON parser ends because
  every token but the end of the input takes a byte. A write takes the results of the system calls
  as a list; \<open>None\<close> is a list that ends before all is written. Hypotheses on sizes say that a buffer
  fits the address space (\<open>input_ok\<close>, \<open>fits\<close>), which a vector of the library guarantees.

  \<^bold>\<open>Parameters.\<close> Code outside the repository is an argument: the decompressor and the digest of the
  cache, the database and its bindings, key derivation, Base64, RSA and Whirlpool, random values
  (record \<open>env\<close>; the libraries behind it may throw); the files, the shortest decimal of a double and the opening of databases (record
  \<open>platform\<close>); the kernel's answers to each call of a poll (record \<open>kernel\<close>, with what it promises in
  \<open>kernel_ok\<close>). Witnesses instantiate them with concrete functions. XTEA and what the server uses of
  the JSON library are modelled from the sources the repository bundles.

  \<^bold>\<open>Not modelled.\<close> \<open>common/singleton.h\<close> (a static pointer per type; its objects are fields of the
  state), \<open>cache/container.h\<close> (a declaration without a definition), \<open>game/player/prayerbook.h\<close>
  (included by no file, and it does not compile), what the server does not use of the JSON library
  (binary values, comments, callbacks, other formats, pointers and iterators) and the rest of the
  bundled libraries under \<open>external\<close>, the tests, the assets and the build, the sleep between two
  polls and the text of log messages other than through \<open>Events\<close>. Each event source of the server
  has one sink, so emitting an event is a call of it.
\<close>

end
